(* ===== verification/Prelude.thy ===== *)
theory Prelude
  imports Main "HOL-Library.Word" "HOL-Library.AList"
begin

text \<open>
  Shared ground of the development: the result type of the Go functions (a value, an
  error value or a panic), Go maps as association lists, the parts of the packages
  \<^verbatim>\<open>strings\<close>, \<^verbatim>\<open>strconv\<close> and \<^verbatim>\<open>sort\<close> that the service calls, 64-bit arithmetic, and
  the generic lemmas about them that the component theories use.
\<close>

named_theorems go_simps \<open>unfolding rules for the wrappers of the Go run-time model\<close>
named_theorems str_simps \<open>rewrite rules for splitting, joining, reading and printing strings\<close>

section \<open>Results, panics and maps\<close>

type_synonym bytes = string
type_synonym uint64 = "64 word"
type_synonym ('k, 'v) gomap = "('k \<times> 'v) list"

datatype go_panic = IndexOutOfRange | NilDereference | AbortHandler

text \<open>
  A Go function with results \<open>(T, error)\<close> returns \<open>Ok\<close> or \<open>Err\<close>; a run-time panic, which
  unwinds the caller as well, is the third constructor.
\<close>

datatype ('e, 'a) result = Ok (the_Ok: 'a) | Err (the_Err: 'e) | Panic go_panic

fun bind_result :: "('e, 'a) result \<Rightarrow> ('a \<Rightarrow> ('e, 'b) result) \<Rightarrow> ('e, 'b) result" where
  "bind_result (Ok a) f = f a"
| "bind_result (Err e) f = Err e"
| "bind_result (Panic p) f = Panic p"

fun is_panic :: "('e, 'a) result \<Rightarrow> bool" where
  "is_panic (Panic p) = True"
| "is_panic _ = False"

lemma bind_result_eq_Ok [simp]:
  "bind_result r f = Ok b \<longleftrightarrow> (\<exists>a. r = Ok a \<and> f a = Ok b)"
  by (cases r) auto

lemma is_panic_iff: "is_panic r \<longleftrightarrow> (\<exists>p. r = Panic p)"
  by (cases r) auto

text \<open>
  A Go map is an association list with distinct keys; \<open>m[k] = v\<close> is \<open>AList.update\<close>, which
  overwrites in place. The order of the list stands for the iteration order of the run; no
  result below may depend on it, and where code iterates a map the lemmas show that.
\<close>

definition map_wf :: "('k, 'v) gomap \<Rightarrow> bool" where
  "map_wf m \<longleftrightarrow> distinct (map fst m)"

lemma map_wf_Nil [simp, intro]: "map_wf []"
  by (simp add: map_wf_def)

lemma map_wf_update [simp, intro]: "map_wf m \<Longrightarrow> map_wf (AList.update k v m)"
  by (simp add: map_wf_def distinct_update)

lemma update_memD: "x \<in> set (AList.update k v m) \<Longrightarrow> x = (k, v) \<or> x \<in> set m"
  by (induction m) (auto split: if_splits)

lemma update_new: "k \<notin> fst ` set m \<Longrightarrow> AList.update k v m = m @ [(k, v)]"
  by (induction m) auto

lemma map_of_None_update: "map_of m k = None \<Longrightarrow> AList.update k v m = m @ [(k, v)]"
  by (simp add: map_of_eq_None_iff update_new)

lemma map_of_Some_in_set: "map_of m k = Some v \<Longrightarrow> (k, v) \<in> set m"
  by (rule map_of_SomeD)

lemma map_of_wf_iff: "map_wf m \<Longrightarrow> map_of m k = Some v \<longleftrightarrow> (k, v) \<in> set m"
  by (simp add: map_wf_def)

lemma map_of_map_snd: "map_of (map (\<lambda>(k, v). (k, f v)) m) k = map_option f (map_of m k)"
  by (induction m) auto

section \<open>64-bit integers\<close>

text \<open>
  \<open>int64\<close> values are integers; every operation of the source that can leave the range goes
  through \<open>int64_wrap\<close> (two's complement). \<open>uint64\<close> values are machine words.
\<close>

definition min_int64 :: int where "min_int64 = - (2 ^ 63)"
definition max_int64 :: int where "max_int64 = 2 ^ 63 - 1"

definition in_int64 :: "int \<Rightarrow> bool" where
  "in_int64 x \<longleftrightarrow> min_int64 \<le> x \<and> x \<le> max_int64"

definition int64_wrap :: "int \<Rightarrow> int" where
  "int64_wrap x = (x + 2 ^ 63) mod 2 ^ 64 - 2 ^ 63"

lemmas int64_defs = min_int64_def max_int64_def in_int64_def int64_wrap_def

lemma int64_wrap_id: "in_int64 x \<Longrightarrow> int64_wrap x = x"
  by (simp add: int64_defs)

lemma int64_wrap_in_range: "in_int64 (int64_wrap x)"
  by (auto simp: int64_defs intro: order_trans [OF pos_mod_bound [THEN less_imp_le]])

section \<open>Splitting and joining strings\<close>

text \<open>\<^verbatim>\<open>strings.Split\<close> with a one-byte separator, and \<^verbatim>\<open>strings.Join\<close>.\<close>

fun strings_Split :: "string \<Rightarrow> char \<Rightarrow> string list" where
  "strings_Split [] c = [[]]"
| "strings_Split (x # xs) c =
     (if x = c then [] # strings_Split xs c
      else (case strings_Split xs c of [] \<Rightarrow> [[x]] | y # ys \<Rightarrow> (x # y) # ys))"

fun strings_Join :: "string list \<Rightarrow> string \<Rightarrow> string" where
  "strings_Join [] sep = []"
| "strings_Join [x] sep = x"
| "strings_Join (x # y # ys) sep = x @ sep @ strings_Join (y # ys) sep"

lemma strings_Split_not_Nil [simp]: "strings_Split s c \<noteq> []"
  by (induction s) (auto split: list.splits)

lemma strings_Split_no_sep: "c \<notin> set s \<Longrightarrow> strings_Split s c = [s]"
  by (induction s) auto

lemma strings_Split_append:
  "c \<notin> set a \<Longrightarrow> strings_Split (a @ c # b) c = a # strings_Split b c"
  by (induction a) auto

lemma strings_Split_Join:
  "ps \<noteq> [] \<Longrightarrow> \<forall>p\<in>set ps. c \<notin> set p \<Longrightarrow> strings_Split (strings_Join ps [c]) c = ps"
  by (induction ps "[c]" rule: strings_Join.induct)
     (auto simp: strings_Split_no_sep strings_Split_append)

lemma strings_Join_Split: "strings_Join (strings_Split s c) [c] = s"
proof (induction s)
  case (Cons x xs)
  obtain y ys where "strings_Split xs c = y # ys"
    by (cases "strings_Split xs c") auto
  with Cons show ?case by (cases ys) auto
qed simp

lemma strings_Split_elem: "p \<in> set (strings_Split s c) \<Longrightarrow> c \<notin> set p"
proof (induction s arbitrary: p)
  case (Cons x xs)
  obtain y ys where "strings_Split xs c = y # ys"
    by (cases "strings_Split xs c") auto
  with Cons show ?case by (auto split: if_splits)
qed simp

lemma set_strings_Join:
  "set (strings_Join ps sep) \<subseteq> (\<Union>p\<in>set ps. set p) \<union> set sep"
  by (induction ps sep rule: strings_Join.induct) auto

lemmas [str_simps] = strings_Split_no_sep strings_Split_append strings_Split_Join

end
