(* ===== verification/Strconv.thy ===== *)
theory Strconv
  imports Prelude
begin

text \<open>
  The conversions between numbers and strings the service uses: \<^verbatim>\<open>strconv.ParseUint\<close>,
  \<^verbatim>\<open>strconv.ParseInt\<close> with base 0, \<^verbatim>\<open>strconv.Atoi\<close>, \<^verbatim>\<open>strconv.ParseBool\<close> and the verb
  \<^verbatim>\<open>%d\<close> of \<^verbatim>\<open>fmt\<close>. The functions return \<open>None\<close> where the Go function returns an error: the
  callers never look at which error it was. The main facts are the ranges of the results
  and that reading what \<open>%d\<close> printed gives the number back.
\<close>

section \<open>Digits\<close>

definition chr_lower :: "char \<Rightarrow> char" where
  "chr_lower c = (if 65 \<le> (of_char c :: nat) \<and> (of_char c :: nat) \<le> 90
     then char_of (of_char c + 32 :: nat) else c)"

definition digit_of :: "char \<Rightarrow> nat option" where
  "digit_of c =
     (let n = of_char c; l = of_char (chr_lower c) in
      if 48 \<le> n \<and> n \<le> 57 then Some (n - 48)
      else if 97 \<le> l \<and> l \<le> 122 then Some (l - 87)
      else None)"

definition digit_char :: "nat \<Rightarrow> char" where
  "digit_char d = char_of (48 + d)"

fun digits_value :: "nat \<Rightarrow> nat \<Rightarrow> string \<Rightarrow> nat option" where
  "digits_value b acc [] = Some acc"
| "digits_value b acc (c # cs) =
     (case digit_of c of
        None \<Rightarrow> None
      | Some d \<Rightarrow> if d < b then digits_value b (acc * b + d) cs else None)"

fun show_nat :: "nat \<Rightarrow> string" where
  "show_nat n = (if n < 10 then [digit_char n] else show_nat (n div 10) @ [digit_char (n mod 10)])"

declare show_nat.simps [simp del]

definition show_int :: "int \<Rightarrow> string" where
  "show_int i = (if i < 0 then CHR ''-'' # show_nat (nat (- i)) else show_nat (nat i))"

section \<open>Parsing\<close>

definition max_uint64 :: nat where "max_uint64 = 2 ^ 64 - 1"

definition ParseUint10 :: "string \<Rightarrow> uint64 option" where
  "ParseUint10 s =
     (if s = [] then None
      else (case digits_value 10 0 s of
              None \<Rightarrow> None
            | Some n \<Rightarrow> if n \<le> max_uint64 then Some (of_nat n) else None))"

text \<open>The sign handling and the range check \<^verbatim>\<open>ParseInt\<close> and \<^verbatim>\<open>Atoi\<close> share.\<close>

definition signed_in_range :: "bool \<Rightarrow> nat \<Rightarrow> int option" where
  "signed_in_range neg n =
     (if neg then (if n \<le> 2 ^ 63 then Some (- int n) else None)
      else (if n < 2 ^ 63 then Some (int n) else None))"

fun split_sign :: "string \<Rightarrow> bool \<times> string" where
  "split_sign (c # cs) =
     (if c = CHR ''-'' then (True, cs) else if c = CHR ''+'' then (False, cs) else (False, c # cs))"
| "split_sign [] = (False, [])"

definition Atoi :: "string \<Rightarrow> int option" where
  "Atoi s =
     (let (neg, ds) = split_sign s in
      if ds = [] then None
      else (case digits_value 10 0 ds of None \<Rightarrow> None | Some n \<Rightarrow> signed_in_range neg n))"

text \<open>
  \<^verbatim>\<open>ParseInt(s, 0, 64)\<close>: the prefix chooses the base and underscores may separate digits. The
  state of \<open>underscore_ok\<close> is the class of the last character seen, as in the library.
\<close>

datatype seen = Begin | Digit | Underscore | Other

fun underscore_scan :: "bool \<Rightarrow> seen \<Rightarrow> string \<Rightarrow> bool" where
  "underscore_scan hex saw [] = (saw \<noteq> Underscore)"
| "underscore_scan hex saw (c # cs) =
     (if (case digit_of c of Some d \<Rightarrow> d < 10 \<or> (hex \<and> d < 16) | None \<Rightarrow> False)
      then underscore_scan hex Digit cs
      else if c = CHR ''_'' then saw = Digit \<and> underscore_scan hex Underscore cs
      else saw \<noteq> Underscore \<and> underscore_scan hex Other cs)"

definition underscore_ok :: "string \<Rightarrow> bool" where
  "underscore_ok s =
     (case s of
        z # p # rest \<Rightarrow>
          if z = CHR ''0'' \<and> chr_lower p \<in> {CHR ''b'', CHR ''o'', CHR ''x''}
          then underscore_scan (chr_lower p = CHR ''x'') Digit rest
          else underscore_scan False Begin s
      | _ \<Rightarrow> underscore_scan False Begin s)"

definition base_prefix :: "string \<Rightarrow> nat \<times> string" where
  "base_prefix s =
     (case s of
        z # rest \<Rightarrow>
          if z = CHR ''0'' then
            (case rest of
               p # d # ds \<Rightarrow>
                 if chr_lower p = CHR ''b'' then (2, d # ds)
                 else if chr_lower p = CHR ''o'' then (8, d # ds)
                 else if chr_lower p = CHR ''x'' then (16, d # ds)
                 else (8, rest)
             | _ \<Rightarrow> (8, rest))
          else (10, s)
      | [] \<Rightarrow> (10, []))"

definition ParseInt0 :: "string \<Rightarrow> int option" where
  "ParseInt0 s =
     (let (neg, s0) = split_sign s; (b, ds) = base_prefix s0 in
      if s0 = [] then None
      else (case digits_value b 0 (filter (\<lambda>c. c \<noteq> CHR ''_'') ds) of
              None \<Rightarrow> None
            | Some n \<Rightarrow>
                if CHR ''_'' \<in> set ds \<and> \<not> underscore_ok s0 then None
                else signed_in_range neg n))"

definition ParseBool :: "string \<Rightarrow> bool option" where
  "ParseBool s =
     (if s \<in> {''1'', ''t'', ''T'', ''true'', ''TRUE'', ''True''} then Some True
      else if s \<in> {''0'', ''f'', ''F'', ''false'', ''FALSE'', ''False''} then Some False
      else None)"

section \<open>Facts\<close>

lemma digit_of_digit_char [simp]: "d < 10 \<Longrightarrow> digit_of (digit_char d) = Some d"
  by (simp add: digit_of_def digit_char_def Let_def)

lemma digits_value_append:
  "digits_value b acc (xs @ ys) =
     (case digits_value b acc xs of None \<Rightarrow> None | Some n \<Rightarrow> digits_value b n ys)"
  by (induction b acc xs rule: digits_value.induct) (auto split: option.splits)

lemma digits_value_show_nat [str_simps]: "digits_value 10 0 (show_nat n) = Some n"
proof (induction n rule: show_nat.induct)
  case (1 n)
  then show ?case
    by (cases "n < 10") (simp_all add: show_nat.simps [of n] digits_value_append)
qed

lemma show_nat_not_Nil [simp]: "show_nat n \<noteq> []"
  by (subst show_nat.simps) simp

lemma show_nat_digits: "c \<in> set (show_nat n) \<Longrightarrow> \<exists>d<10. c = digit_char d"
proof (induction n rule: show_nat.induct)
  case (1 n)
  then show ?case
    by (cases "n < 10") (auto simp: show_nat.simps [of n] intro: exI [of _ "n mod 10"])
qed

lemma digit_char_of: "d < 10 \<Longrightarrow> (of_char (digit_char d) :: nat) = 48 + d"
  by (simp add: digit_char_def)

lemma show_nat_avoids:
  assumes "(of_char c :: nat) < 48 \<or> 57 < (of_char c :: nat)"
  shows "c \<notin> set (show_nat n)"
  using assms by (auto dest!: show_nat_digits simp: digit_char_of)

lemma show_nat_inject: "show_nat m = show_nat n \<longleftrightarrow> m = n"
  by (metis digits_value_show_nat option.inject)

lemma ParseUint10_show_nat [str_simps]: "n \<le> max_uint64 \<Longrightarrow> ParseUint10 (show_nat n) = Some (of_nat n)"
  by (simp add: ParseUint10_def digits_value_show_nat)

lemma unat_le_max_uint64 [simp]: "unat (w :: uint64) \<le> max_uint64"
  using unsigned_less [of w, where ?'a = nat] by (simp add: max_uint64_def)

lemma ParseUint10_show_unat [str_simps]: "ParseUint10 (show_nat (unat w)) = Some w"
  by (simp add: ParseUint10_show_nat)

lemma ParseUint10_SomeD:
  "ParseUint10 s = Some w \<Longrightarrow> s \<noteq> [] \<and> digits_value 10 0 s = Some (unat w)"
  by (auto simp: ParseUint10_def max_uint64_def unat_of_nat split: if_splits option.splits)

lemma signed_in_range_int64: "signed_in_range neg n = Some i \<Longrightarrow> in_int64 i"
  by (auto simp: signed_in_range_def int64_defs split: if_splits)

lemma Atoi_in_int64: "Atoi s = Some i \<Longrightarrow> in_int64 i"
  by (auto simp: Atoi_def Let_def split: prod.splits if_splits option.splits
      dest: signed_in_range_int64)

lemma ParseInt0_in_int64: "ParseInt0 s = Some i \<Longrightarrow> in_int64 i"
  by (auto simp: ParseInt0_def Let_def split: prod.splits if_splits option.splits
      dest: signed_in_range_int64)

lemma split_sign_show_nat: "split_sign (show_nat n) = (False, show_nat n)"
proof -
  have "CHR ''-'' \<notin> set (show_nat n)" "CHR ''+'' \<notin> set (show_nat n)"
    by (simp_all add: show_nat_avoids)
  then show ?thesis by (cases "show_nat n") auto
qed

lemma Atoi_show_int [str_simps]:
  assumes "in_int64 i"
  shows "Atoi (show_int i) = Some i"
proof (cases "i < 0")
  case True
  with assms show ?thesis
    by (simp add: show_int_def Atoi_def digits_value_show_nat signed_in_range_def int64_defs
        nat_le_iff)
next
  case False
  with assms show ?thesis
    by (simp add: show_int_def Atoi_def digits_value_show_nat signed_in_range_def int64_defs
        nat_less_iff split_sign_show_nat)
qed

end
