(* ===== verification/Json.thy ===== *)
theory Json
  imports Strconv "HOL-Library.Char_ord" "HOL-Library.List_Lexorder"
begin

text \<open>
  The part of \<^verbatim>\<open>encoding/json\<close> (Go 1.20) the service relies on. A document is parsed into a
  syntax tree that keeps number literals and the bodies of string literals as they are
  written, so that a \<^verbatim>\<open>json.RawMessage\<close> can be copied through; \<open>goval\<close> is what
  \<^verbatim>\<open>Unmarshal\<close> stores in an \<^verbatim>\<open>interface{}\<close>. The conversion of a number literal to
  \<^verbatim>\<open>float64\<close> and back to the text \<^verbatim>\<open>Marshal\<close> prints is floating-point arithmetic and is a
  parameter of the functions that need it (\<open>None\<close>: out of range).
  The main theorem is that parsing what was printed gives the tree back.
\<close>

section \<open>Syntax trees, lexical classes\<close>

datatype json =
    JNull
  | JBool bool
  | JNum string
  | JStr string
  | JArr "json list"
  | JObj "(string \<times> json) list"

abbreviation dquote :: char where "dquote \<equiv> CHR 0x22"
abbreviation backslash :: char where "backslash \<equiv> CHR 0x5C"

definition is_ws :: "char \<Rightarrow> bool" where
  "is_ws c \<longleftrightarrow> c \<in> {CHR 0x20, CHR 0x09, CHR 0x0A, CHR 0x0D}"

definition is_digit :: "char \<Rightarrow> bool" where
  "is_digit c \<longleftrightarrow> 48 \<le> (of_char c :: nat) \<and> (of_char c :: nat) \<le> 57"

definition is_hex :: "char \<Rightarrow> bool" where
  "is_hex c \<longleftrightarrow> (case digit_of c of Some d \<Rightarrow> d < 16 | None \<Rightarrow> False)"

definition skip_ws :: "string \<Rightarrow> string" where
  "skip_ws s = dropWhile is_ws s"

section \<open>Reading\<close>

text \<open>The number of bytes an escape takes after its backslash.\<close>

definition esc_len :: "string \<Rightarrow> nat option" where
  "esc_len cs =
     (case cs of
        [] \<Rightarrow> None
      | e # hs \<Rightarrow>
          if e \<in> {dquote, backslash, CHR ''/'', CHR ''b'', CHR ''f'', CHR ''n'', CHR ''r'', CHR ''t''}
          then Some 1
          else if e = CHR ''u'' \<and> 4 \<le> length hs \<and> list_all is_hex (take 4 hs) then Some 5
          else None)"

text \<open>The body of a string literal, up to the closing quote.\<close>

function p_str :: "string \<Rightarrow> (string \<times> string) option" where
  "p_str [] = None"
| "p_str (c # cs) =
     (if c = dquote then Some ([], cs)
      else if c = backslash then
        (case esc_len cs of
           None \<Rightarrow> None
         | Some k \<Rightarrow> map_option (\<lambda>(b, r). (c # take k cs @ b, r)) (p_str (drop k cs)))
      else if (of_char c :: nat) < 32 then None
      else map_option (\<lambda>(b, r). (c # b, r)) (p_str cs))"
  by pat_completeness auto
termination
  by (relation "measure length") auto

definition p_digits1 :: "string \<Rightarrow> (string \<times> string) option" where
  "p_digits1 s =
     (let ds = takeWhile is_digit s in if ds = [] then None else Some (ds, dropWhile is_digit s))"

definition p_int :: "string \<Rightarrow> (string \<times> string) option" where
  "p_int s =
     (case s of
        [] \<Rightarrow> None
      | c # r \<Rightarrow> if c = CHR ''0'' then Some ([c], r) else p_digits1 s)"

definition p_frac :: "string \<Rightarrow> (string \<times> string) option" where
  "p_frac s =
     (case s of
        c # r \<Rightarrow> if c = CHR ''.'' then map_option (\<lambda>(ds, r'). (c # ds, r')) (p_digits1 r) else Some ([], s)
      | [] \<Rightarrow> Some ([], []))"

definition p_exp :: "string \<Rightarrow> (string \<times> string) option" where
  "p_exp s =
     (case s of
        c # r \<Rightarrow>
          if c = CHR ''e'' \<or> c = CHR ''E'' then
            (case r of
               g # r' \<Rightarrow>
                 if g = CHR ''+'' \<or> g = CHR ''-''
                 then map_option (\<lambda>(ds, r''). (c # g # ds, r'')) (p_digits1 r')
                 else map_option (\<lambda>(ds, r''). (c # ds, r'')) (p_digits1 r)
             | [] \<Rightarrow> None)
          else Some ([], s)
      | [] \<Rightarrow> Some ([], []))"

definition p_num :: "string \<Rightarrow> (string \<times> string) option" where
  "p_num s =
     (let (sg, s0) = (case s of c # r \<Rightarrow> if c = CHR ''-'' then ([c], r) else ([], s) | [] \<Rightarrow> ([], [])) in
      case p_int s0 of
        None \<Rightarrow> None
      | Some (i, s1) \<Rightarrow>
          (case p_frac s1 of
             None \<Rightarrow> None
           | Some (f, s2) \<Rightarrow>
               (case p_exp s2 of
                  None \<Rightarrow> None
                | Some (e, s3) \<Rightarrow> Some (sg @ i @ f @ e, s3))))"

definition p_lit :: "string \<Rightarrow> 'a \<Rightarrow> string \<Rightarrow> ('a \<times> string) option" where
  "p_lit w v s = (if take (length w) s = w then Some (v, drop (length w) s) else None)"

lemma length_skip_ws: "length (skip_ws s) \<le> length s"
  by (simp add: skip_ws_def length_dropWhile_le)

lemma skip_ws_Cons_length: "skip_ws s = c # cs \<Longrightarrow> length cs < length s"
  using length_skip_ws [of s] by simp

text \<open>
  Values, the elements of an array and the members of an object. \<open>d\<close> is the nesting the
  library still accepts (\<^verbatim>\<open>maxNestingDepth\<close>). A member comes with the exact text of its
  value, which is what a \<^verbatim>\<open>RawMessage\<close> field receives. The length tests of the two list
  functions only serve termination: \<open>p_elems_eq\<close> and \<open>p_members_eq\<close> below show that they always
  succeed.
\<close>

function p_value :: "nat \<Rightarrow> string \<Rightarrow> (json \<times> string) option"
  and p_elems :: "nat \<Rightarrow> string \<Rightarrow> (json list \<times> string) option"
  and p_members :: "nat \<Rightarrow> string \<Rightarrow> ((string \<times> string \<times> json) list \<times> string) option"
where
  "p_value d s =
     (case skip_ws s of
        [] \<Rightarrow> None
      | c # cs \<Rightarrow>
          if c = dquote then map_option (\<lambda>(b, r). (JStr b, r)) (p_str cs)
          else if c = CHR ''['' then
            if d = 0 then None
            else if take 1 (skip_ws cs) = '']'' then Some (JArr [], drop 1 (skip_ws cs))
            else map_option (\<lambda>(js, r). (JArr js, r)) (p_elems (d - 1) cs)
          else if c = CHR ''{'' then
            if d = 0 then None
            else if take 1 (skip_ws cs) = ''}'' then Some (JObj [], drop 1 (skip_ws cs))
            else map_option (\<lambda>(ms, r). (JObj (map (\<lambda>(k, t, j). (k, j)) ms), r)) (p_members (d - 1) cs)
          else if c = CHR ''t'' then p_lit ''true'' (JBool True) (c # cs)
          else if c = CHR ''f'' then p_lit ''false'' (JBool False) (c # cs)
          else if c = CHR ''n'' then p_lit ''null'' JNull (c # cs)
          else map_option (\<lambda>(n, r). (JNum n, r)) (p_num (c # cs)))"
| "p_elems d s =
     (case p_value d s of
        None \<Rightarrow> None
      | Some (j, r) \<Rightarrow>
          (case skip_ws r of
             [] \<Rightarrow> None
           | c # r' \<Rightarrow>
               if c = CHR '']'' then Some ([j], r')
               else if c = CHR '','' \<and> length r' < length s
                 then map_option (\<lambda>(js, r''). (j # js, r'')) (p_elems d r')
               else None))"
| "p_members d s =
     (case skip_ws s of
        [] \<Rightarrow> None
      | q # cs \<Rightarrow>
          if q \<noteq> dquote then None
          else (case p_str cs of
            None \<Rightarrow> None
          | Some (k, r0) \<Rightarrow>
              (case skip_ws r0 of
                 [] \<Rightarrow> None
               | c # v \<Rightarrow>
                   if c = CHR '':'' \<and> length v < length s then
                     (case p_value d v of
                        None \<Rightarrow> None
                      | Some (j, r) \<Rightarrow>
                          (let t = take (length (skip_ws v) - length r) (skip_ws v) in
                           case skip_ws r of
                             [] \<Rightarrow> None
                           | e # r' \<Rightarrow>
                               if e = CHR ''}'' then Some ([(k, t, j)], r')
                               else if e = CHR '','' \<and> length r' < length s
                                 then map_option (\<lambda>(ms, r''). ((k, t, j) # ms, r'')) (p_members d r')
                               else None))
                   else None)))"
  by pat_completeness auto
termination
  by (relation "measures [\<lambda>x. case x of Inl (d, s) \<Rightarrow> length s | Inr (Inl (d, s)) \<Rightarrow> length s
        | Inr (Inr (d, s)) \<Rightarrow> length s,
        \<lambda>x. case x of Inl _ \<Rightarrow> 0 | Inr _ \<Rightarrow> 1]")
     (auto dest: skip_ws_Cons_length)

declare p_value.simps [simp del] p_elems.simps [simp del] p_members.simps [simp del]

lemma p_str_shorter: "p_str s = Some (b, r) \<Longrightarrow> length r < length s"
proof (induction s arbitrary: b rule: p_str.induct)
  case (2 c cs)
  then show ?case by (fastforce split: if_splits option.splits)
qed simp

lemma p_digits1_shorter: "p_digits1 s = Some (ds, r) \<Longrightarrow> length r < length s"
proof -
  assume "p_digits1 s = Some (ds, r)"
  then have "ds = takeWhile is_digit s" "r = dropWhile is_digit s" "ds \<noteq> []"
    by (auto simp: p_digits1_def Let_def split: if_splits)
  moreover have "length s = length (takeWhile is_digit s) + length (dropWhile is_digit s)"
    by (metis length_append takeWhile_dropWhile_id)
  ultimately show ?thesis by simp
qed

lemma p_int_shorter: "p_int s = Some (i, r) \<Longrightarrow> length r < length s"
  by (auto simp: p_int_def split: list.splits if_splits dest: p_digits1_shorter)

lemma p_frac_shorter: "p_frac s = Some (f, r) \<Longrightarrow> length r \<le> length s"
  by (auto simp: p_frac_def split: list.splits if_splits dest!: p_digits1_shorter)

lemma p_exp_shorter: "p_exp s = Some (e, r) \<Longrightarrow> length r \<le> length s"
  by (auto simp: p_exp_def split: list.splits if_splits dest!: p_digits1_shorter)

lemma p_num_shorter: "p_num s = Some (n, r) \<Longrightarrow> length r < length s"
  by (auto simp: p_num_def Let_def split: list.splits if_splits option.splits
      dest!: p_int_shorter p_frac_shorter p_exp_shorter)

lemma p_lit_shorter: "p_lit w v s = Some (x, r) \<Longrightarrow> w \<noteq> [] \<Longrightarrow> length r < length s"
  by (cases s) (auto simp: p_lit_def split: if_splits)

lemma p_value_shorter:
  "p_value d s = Some (j, r) \<Longrightarrow> length r < length s"
  "p_elems d s = Some (js, r) \<Longrightarrow> length r < length s"
  "p_members d s = Some (ms, r) \<Longrightarrow> length r < length s"
proof (induction d s and d s and d s arbitrary: j r and js r and ms r rule: p_value_p_elems_p_members.induct)
  case (1 d s)
  show ?case
  proof (cases "skip_ws s")
    case (Cons c cs)
    have len: "length cs < length s" using Cons by (rule skip_ws_Cons_length)
    from "1.prems" Cons consider (str) b where "p_str cs = Some (b, r)" | (empty) "r = drop 1 (skip_ws cs)"
      | (elems) js where "c \<noteq> dquote" "c = CHR ''[''" "d \<noteq> 0" "take 1 (skip_ws cs) \<noteq> '']''" "p_elems (d - 1) cs = Some (js, r)"
      | (members) ms where "c \<noteq> dquote" "c \<noteq> CHR ''[''" "c = CHR ''{''" "d \<noteq> 0" "take 1 (skip_ws cs) \<noteq> ''}''"
          "p_members (d - 1) cs = Some (ms, r)"
      | (lit) w and x y :: json where "p_lit w x (c # cs) = Some (y, r)" "w \<noteq> []" | (num) n where "p_num (c # cs) = Some (n, r)"
      by (subst (asm) p_value.simps) (auto split: if_splits)
    then show ?thesis
    proof cases
      case str
      then show ?thesis using p_str_shorter [of cs] len by fastforce
    next
      case empty
      then show ?thesis using len length_skip_ws [of cs] by simp
    next
      case elems
      then show ?thesis using "1.IH"(1) [OF Cons] len by fastforce
    next
      case members
      then show ?thesis using "1.IH"(2) [OF Cons] len by fastforce
    next
      case lit
      then show ?thesis using p_lit_shorter [of w x "c # cs"] len by fastforce
    next
      case num
      then show ?thesis using p_num_shorter [of "c # cs"] len by fastforce
    qed
  qed (use 1 in \<open>simp add: p_value.simps\<close>)
next
  case (2 d s)
  from "2.prems" obtain j v c r' where v: "p_value d s = Some (j, v)" "skip_ws v = c # r'"
    and r: "r = r' \<or> length r' < length s \<and> c \<noteq> CHR '']'' \<and> c = CHR '','' \<and> (\<exists>js'. p_elems d r' = Some (js', r))"
    by (subst (asm) p_elems.simps) (auto split: if_splits option.splits list.splits)
  have "length r' < length s" using "2.IH"(1) [OF v(1)] skip_ws_Cons_length [OF v(2)] by simp
  with r show ?case using "2.IH"(2) [OF v(1) refl v(2)] by fastforce
next
  case (3 d s)
  from "3.prems" obtain q cs k r0 c v where s: "skip_ws s = q # cs" "q = dquote" "p_str cs = Some (k, r0)" "skip_ws r0 = c # v"
    and c: "c = CHR '':'' \<and> length v < length s"
    by (subst (asm) p_members.simps) (auto split: if_splits option.splits list.splits)
  from "3.prems" s c obtain j v' e r' where v: "p_value d v = Some (j, v')" "skip_ws v' = e # r'"
    and r: "r = r' \<or> (e = CHR '','' \<and> e \<noteq> CHR ''}'' \<and> length r' < length s \<and> (\<exists>ms'. p_members d r' = Some (ms', r)))"
    by (subst (asm) p_members.simps) (auto simp: Let_def split: if_splits option.splits list.splits)
  have "\<not> q \<noteq> dquote" using s(2) by simp
  note IH = "3.IH"(1) [OF s(1) this s(3) refl s(4) c] "3.IH"(2) [OF s(1) this s(3) refl s(4) c v(1) refl refl v(2)]
  have "length r' < length s" using IH(1) [OF v(1)] skip_ws_Cons_length [OF v(2)] c by simp
  with r show ?case using IH(2) by fastforce
qed

lemma p_elems_eq:
  "p_elems d s =
     (case p_value d s of
        None \<Rightarrow> None
      | Some (j, r) \<Rightarrow>
          (case skip_ws r of
             [] \<Rightarrow> None
           | c # r' \<Rightarrow>
               if c = CHR '']'' then Some ([j], r')
               else if c = CHR '','' then map_option (\<lambda>(js, r''). (j # js, r'')) (p_elems d r')
               else None))"
  by (subst p_elems.simps)
     (auto split: option.splits list.splits dest!: p_value_shorter(1) skip_ws_Cons_length)

lemma p_members_eq:
  "p_members d s =
     (case skip_ws s of
        [] \<Rightarrow> None
      | q # cs \<Rightarrow>
          if q \<noteq> dquote then None
          else (case p_str cs of
            None \<Rightarrow> None
          | Some (k, r0) \<Rightarrow>
              (case skip_ws r0 of
                 [] \<Rightarrow> None
               | c # v \<Rightarrow>
                   if c = CHR '':'' then
                     (case p_value d v of
                        None \<Rightarrow> None
                      | Some (j, r) \<Rightarrow>
                          (let t = take (length (skip_ws v) - length r) (skip_ws v) in
                           case skip_ws r of
                             [] \<Rightarrow> None
                           | e # r' \<Rightarrow>
                               if e = CHR ''}'' then Some ([(k, t, j)], r')
                               else if e = CHR '','' then map_option (\<lambda>(ms, r''). ((k, t, j) # ms, r'')) (p_members d r')
                               else None))
                   else None)))"
  by (subst p_members.simps)
     (auto simp: Let_def split: option.splits list.splits
       dest!: p_value_shorter(1) skip_ws_Cons_length p_str_shorter)

definition max_nesting :: nat where "max_nesting = 10000"

text \<open>A whole document: one value and white space, as \<^verbatim>\<open>checkValid\<close> demands.\<close>

definition json_parse :: "bytes \<Rightarrow> json option" where
  "json_parse s =
     (case p_value max_nesting s of
        Some (j, r) \<Rightarrow> if skip_ws r = [] then Some j else None
      | None \<Rightarrow> None)"

text \<open>The members of a document that is an object, with the text of each value.\<close>

definition json_members :: "bytes \<Rightarrow> (string \<times> string \<times> json) list option" where
  "json_members s =
     (case skip_ws s of
        c # cs \<Rightarrow>
          if c = CHR ''{'' then
            if take 1 (skip_ws cs) = ''}'' then Some []
            else map_option fst (p_members (max_nesting - 1) cs)
          else None
      | [] \<Rightarrow> None)"

section \<open>Printing\<close>

fun json_print :: "json \<Rightarrow> bytes" where
  "json_print JNull = ''null''"
| "json_print (JBool b) = (if b then ''true'' else ''false'')"
| "json_print (JNum n) = n"
| "json_print (JStr s) = dquote # s @ [dquote]"
| "json_print (JArr js) = ''['' @ strings_Join (map json_print js) '','' @ '']''"
| "json_print (JObj ms) =
     ''{'' @ strings_Join (map (\<lambda>(k, j). dquote # k @ dquote # CHR '':'' # json_print j) ms) '','' @ ''}''"

section \<open>Parsing what was printed\<close>

definition str_ok :: "string \<Rightarrow> bool" where
  "str_ok b \<longleftrightarrow> p_str (b @ [dquote]) = Some (b, [])"

definition num_ok :: "string \<Rightarrow> bool" where
  "num_ok n \<longleftrightarrow> p_num n = Some (n, [])"

fun json_wf :: "nat \<Rightarrow> json \<Rightarrow> bool" where
  "json_wf d JNull = True"
| "json_wf d (JBool b) = True"
| "json_wf d (JNum n) = num_ok n"
| "json_wf d (JStr s) = str_ok s"
| "json_wf d (JArr js) = (0 < d \<and> (\<forall>j\<in>set js. json_wf (d - 1) j))"
| "json_wf d (JObj ms) = (0 < d \<and> (\<forall>(k, j)\<in>set ms. str_ok k \<and> json_wf (d - 1) j))"

lemma json_wf_mono: "json_wf d j \<Longrightarrow> d \<le> d' \<Longrightarrow> json_wf d' j"
proof (induction j arbitrary: d d')
  case (JArr js)
  then show ?case by (auto dest: diff_le_mono [of d d' 1])
next
  case (JObj ms)
  then show ?case by (fastforce dest: diff_le_mono [of d d' 1])
qed auto

text \<open>What may follow a number literal without changing how it is read.\<close>

definition stops :: "string \<Rightarrow> bool" where
  "stops t \<longleftrightarrow> (case t of [] \<Rightarrow> True
     | c # _ \<Rightarrow> \<not> is_digit c \<and> c \<noteq> CHR ''.'' \<and> c \<noteq> CHR ''e'' \<and> c \<noteq> CHR ''E'')"

lemma stops_simps [simp]:
  "stops []" "stops (CHR '','' # t)" "stops (CHR '']'' # t)" "stops (CHR ''}'' # t)"
  by (simp_all add: stops_def is_digit_def)

lemma esc_len_append: "esc_len cs = Some k \<Longrightarrow> k \<le> length cs \<and> esc_len (cs @ t) = Some k"
  by (cases cs) (auto simp: esc_len_def split: if_splits)

lemma p_str_append: "p_str s = Some (b, r) \<Longrightarrow> p_str (s @ t) = Some (b, r @ t)"
proof (induction s arbitrary: b rule: p_str.induct)
  case (2 c cs)
  show ?case
  proof (cases "c = backslash")
    case True
    with "2.prems" obtain k b' where k: "esc_len cs = Some k" and b': "p_str (drop k cs) = Some (b', r)"
      and b: "b = c # take k cs @ b'"
      by (auto split: option.splits)
    from True k b' have "p_str (drop k cs @ t) = Some (b', r @ t)" by (intro "2.IH"(1)) auto
    with True k b esc_len_append [OF k, of t] show ?thesis by simp
  next
    case False
    with "2" show ?thesis by (auto split: if_splits)
  qed
qed simp

lemma str_ok_append: "str_ok b \<Longrightarrow> p_str (b @ dquote # t) = Some (b, t)"
  using p_str_append [of "b @ [dquote]" b "[]" t] by (simp add: str_ok_def)

lemma p_digits1_append:
  assumes "p_digits1 s = Some (ds, r)" and "stops t"
  shows "p_digits1 (s @ t) = Some (ds, r @ t)"
proof -
  have t: "takeWhile is_digit t = []" "dropWhile is_digit t = t"
    using assms(2) by (auto simp: stops_def split: list.splits)
  show ?thesis
  proof (cases "\<forall>x\<in>set s. is_digit x")
    case True
    with assms t show ?thesis
      by (auto simp: p_digits1_def Let_def takeWhile_append2 dropWhile_append2
          takeWhile_eq_all_conv [THEN iffD2] split: if_splits)
  next
    case False
    with assms(1) show ?thesis
      by (auto simp: p_digits1_def Let_def takeWhile_append1 dropWhile_append1 split: if_splits)
  qed
qed

lemma p_int_append: "p_int s = Some (a, r) \<Longrightarrow> stops t \<Longrightarrow> p_int (s @ t) = Some (a, r @ t)"
  using p_digits1_append [of s a r t] by (auto simp: p_int_def split: list.splits if_splits)

lemma stops_head: "stops (c # t) \<Longrightarrow> c \<noteq> CHR ''.'' \<and> c \<noteq> CHR ''e'' \<and> c \<noteq> CHR ''E''"
  by (simp add: stops_def)

lemma p_frac_append:
  assumes "p_frac s = Some (a, r)" and "stops t"
  shows "p_frac (s @ t) = Some (a, r @ t)"
proof (cases s)
  case Nil
  with assms show ?thesis
    by (cases t) (auto simp: p_frac_def dest: stops_head)
next
  case (Cons c cs)
  with assms show ?thesis
    by (cases "c = CHR ''.''") (auto simp: p_frac_def dest: p_digits1_append)
qed

lemma p_exp_append:
  assumes "p_exp s = Some (a, r)" and "stops t"
  shows "p_exp (s @ t) = Some (a, r @ t)"
proof (cases s)
  case Nil
  with assms show ?thesis
    by (cases t) (auto simp: p_exp_def dest: stops_head)
next
  case (Cons c cs)
  show ?thesis
  proof (cases "c = CHR ''e'' \<or> c = CHR ''E''")
    case False
    with assms Cons show ?thesis by (auto simp: p_exp_def)
  next
    case True
    with assms(1) Cons obtain g gs where cs: "cs = g # gs"
      by (cases cs) (auto simp: p_exp_def)
    show ?thesis
    proof (cases "g = CHR ''+'' \<or> g = CHR ''-''")
      case True
      with assms Cons cs \<open>c = CHR ''e'' \<or> c = CHR ''E''\<close> show ?thesis
        by (auto simp: p_exp_def dest: p_digits1_append)
    next
      case False
      with assms Cons cs \<open>c = CHR ''e'' \<or> c = CHR ''E''\<close> show ?thesis
        using p_digits1_append [of cs _ r t] by (auto simp: p_exp_def)
    qed
  qed
qed

lemma p_num_tail_append:
  assumes "p_int s = Some (i, s1)" and "p_frac s1 = Some (f, s2)" and "p_exp s2 = Some (e, s3)"
    and "stops t"
  shows "p_int (s @ t) = Some (i, s1 @ t)" "p_frac (s1 @ t) = Some (f, s2 @ t)"
    "p_exp (s2 @ t) = Some (e, s3 @ t)"
  using assms by (simp_all add: p_int_append p_frac_append p_exp_append)

lemma p_num_append:
  assumes "p_num s = Some (a, r)" and "stops t"
  shows "p_num (s @ t) = Some (a, r @ t)"
proof (cases s)
  case Nil
  with assms show ?thesis by (simp add: p_num_def p_int_def)
next
  case (Cons c cs)
  obtain sg s0 where sg: "(if c = CHR ''-'' then ([c], cs) else ([], c # cs)) = (sg, s0)"
    by (cases "c = CHR ''-''") auto
  then have sgt: "(if c = CHR ''-'' then ([c], cs @ t) else ([], c # cs @ t)) = (sg, s0 @ t)"
    by (auto split: if_splits)
  from assms(1) Cons sg obtain i s1 f s2 e where
    p: "p_int s0 = Some (i, s1)" "p_frac s1 = Some (f, s2)" "p_exp s2 = Some (e, r)"
    and a: "a = sg @ i @ f @ e"
    by (auto simp: p_num_def split: option.splits)
  show ?thesis
    using p_num_tail_append [OF p assms(2)] sgt Cons a by (simp add: p_num_def)
qed

lemma num_ok_append: "num_ok n \<Longrightarrow> stops t \<Longrightarrow> p_num (n @ t) = Some (n, t)"
  using p_num_append [of n n "[]" t] by (simp add: num_ok_def)

lemma p_int_Some_head: "p_int s = Some (i, r) \<Longrightarrow> \<exists>c cs. s = c # cs \<and> is_digit c"
  by (cases s) (auto simp: p_int_def p_digits1_def Let_def is_digit_def split: if_splits)

lemma num_ok_head: "num_ok n \<Longrightarrow> \<exists>c cs. n = c # cs \<and> (is_digit c \<or> c = CHR ''-'')"
proof (cases n)
  case Nil
  assume "num_ok n"
  with Nil show ?thesis by (simp add: num_ok_def p_num_def p_int_def)
next
  case (Cons c cs)
  assume "num_ok n"
  with Cons have "c \<noteq> CHR ''-'' \<Longrightarrow> \<exists>i r. p_int (c # cs) = Some (i, r)"
    by (auto simp: num_ok_def p_num_def split: option.splits)
  with Cons show ?thesis by (auto dest: p_int_Some_head)
qed

lemma skip_ws_not_ws [simp]: "\<not> is_ws c \<Longrightarrow> skip_ws (c # s) = c # s"
  by (simp add: skip_ws_def)

lemma not_is_ws [simp]:
  "\<not> is_ws dquote" "\<not> is_ws (CHR '','')" "\<not> is_ws (CHR '':'')"
  "\<not> is_ws (CHR '']'')" "\<not> is_ws (CHR ''}'')" "\<not> is_ws (CHR ''['')" "\<not> is_ws (CHR ''{'')"
  by (simp_all add: is_ws_def)

text \<open>How a printed value begins: never with white space or a closing bracket.\<close>

definition value_start :: "char \<Rightarrow> bool" where
  "value_start c \<longleftrightarrow> \<not> is_ws c \<and> c \<noteq> CHR '']'' \<and> c \<noteq> CHR ''}''"

lemma is_digit_plain:
  assumes "is_digit c \<or> c = CHR ''-''"
  shows "\<not> is_ws c \<and> c \<notin> {dquote, CHR ''['', CHR ''{'', CHR '']'', CHR ''}'', CHR ''t'', CHR ''f'', CHR ''n''}"
  using assms by (auto simp: is_digit_def is_ws_def)

lemma json_print_start:
  assumes "json_wf d j"
  shows "\<exists>c cs. json_print j = c # cs \<and> value_start c"
proof (cases j)
  case (JNum n)
  with assms obtain c cs where "n = c # cs" "is_digit c \<or> c = CHR ''-''"
    using num_ok_head by fastforce
  with JNum show ?thesis using is_digit_plain [of c] by (simp add: value_start_def)
qed (auto simp: value_start_def is_ws_def)

lemma skip_ws_json_print:
  assumes "json_wf d j"
  shows "skip_ws (json_print j @ t) = json_print j @ t"
    and "take 1 (json_print j @ t) \<noteq> '']''" and "take 1 (json_print j @ t) \<noteq> ''}''"
  using json_print_start [OF assms] by (auto simp: value_start_def)

lemma p_elems_print:
  assumes "js \<noteq> []" and "\<forall>j\<in>set js. json_wf d j"
    and "\<And>j t. j \<in> set js \<Longrightarrow> stops t \<Longrightarrow> p_value d (json_print j @ t) = Some (j, t)"
  shows "p_elems d (strings_Join (map json_print js) '','' @ CHR '']'' # t) = Some (js, t)"
  using assms
proof (induction js rule: induct_list012)
  case (2 j)
  then show ?case by (simp add: p_elems.simps [of d])
next
  case (3 j j' js)
  let ?rest = "strings_Join (map json_print (j' # js)) '','' @ CHR '']'' # t"
  have "p_elems d ?rest = Some (j' # js, t)"
    using "3.IH"(2) "3.prems" by simp
  moreover have "p_value d (json_print j @ CHR '','' # ?rest) = Some (j, CHR '','' # ?rest)"
    using "3.prems"(3) by simp
  ultimately show ?case
    by (simp add: p_elems.simps [of d "json_print j @ _"])
qed simp

definition member_text :: "string \<times> json \<Rightarrow> string" where
  "member_text m = (case m of (k, j) \<Rightarrow> dquote # k @ dquote # CHR '':'' # json_print j)"

lemma json_print_JObj: "json_print (JObj ms) = ''{'' @ strings_Join (map member_text ms) '','' @ ''}''"
  by (simp add: member_text_def cong: map_cong)

lemma p_members_print_step:
  assumes "str_ok k" and "json_wf d j" and "stops t"
    and "\<And>t. stops t \<Longrightarrow> p_value d (json_print j @ t) = Some (j, t)"
  shows "p_members d (member_text (k, j) @ t) =
    (case skip_ws t of
       [] \<Rightarrow> None
     | e # r' \<Rightarrow>
         if e = CHR ''}'' then Some ([(k, json_print j, j)], r')
         else if e = CHR '','' \<and> length r' < length (member_text (k, j) @ t)
           then map_option (\<lambda>(ms, r''). ((k, json_print j, j) # ms, r'')) (p_members d r')
         else None)"
  using assms(4) [OF assms(3)] str_ok_append [OF assms(1), of "CHR '':'' # json_print j @ t"]
    skip_ws_json_print(1) [OF assms(2), of t]
  unfolding p_members.simps [of d "member_text (k, j) @ t"]
  by (simp add: member_text_def Let_def split: list.split)

lemma p_members_print:
  assumes "ms \<noteq> []" and "\<forall>(k, j)\<in>set ms. str_ok k \<and> json_wf d j"
    and "\<And>k j t. (k, j) \<in> set ms \<Longrightarrow> stops t \<Longrightarrow> p_value d (json_print j @ t) = Some (j, t)"
  shows "p_members d (strings_Join (map member_text ms) '','' @ CHR ''}'' # t) =
    Some (map (\<lambda>(k, j). (k, json_print j, j)) ms, t)"
  using assms
proof (induction ms rule: induct_list012)
  case (2 m)
  obtain k j where m: "m = (k, j)" by (cases m)
  with 2 show ?case
    using p_members_print_step [of k d j "CHR ''}'' # t"] by simp
next
  case (3 m m' ms)
  obtain k j where m: "m = (k, j)" by (cases m)
  let ?rest = "strings_Join (map member_text (m' # ms)) '','' @ CHR ''}'' # t"
  have "p_members d ?rest = Some (map (\<lambda>(k, j). (k, json_print j, j)) (m' # ms), t)"
    by (rule "3.IH"(2)) (use "3.prems" in auto)
  moreover have "p_value d (json_print j @ t) = Some (j, t)" if "stops t" for t
    by (rule "3.prems"(3) [of k]) (use that m in auto)
  ultimately show ?case
    using "3.prems"(2) m p_members_print_step [of k d j "CHR '','' # ?rest"] by simp
qed simp

lemma p_value_print:
  "json_wf d j \<Longrightarrow> stops t \<Longrightarrow> p_value d (json_print j @ t) = Some (j, t)"
proof (induction j arbitrary: d t)
  case (JNum n)
  then obtain c cs where n: "n = c # cs" "is_digit c \<or> c = CHR ''-''"
    using num_ok_head by fastforce
  with JNum show ?case
    using is_digit_plain [of c] num_ok_append [of n t] by (simp add: p_value.simps [of d])
next
  case (JStr s)
  then show ?case by (simp add: p_value.simps [of d] str_ok_append)
next
  case (JArr js)
  show ?case
  proof (cases js)
    case Nil
    with JArr show ?thesis by (simp add: p_value.simps [of d])
  next
    case (Cons j js')
    let ?cs = "strings_Join (map json_print js) '','' @ CHR '']'' # t"
    have "p_elems (d - 1) ?cs = Some (js, t)"
      by (rule p_elems_print) (use Cons JArr in auto)
    moreover obtain us where "?cs = json_print j @ us"
      using Cons by (cases js') auto
    moreover have "json_wf (d - 1) j" using Cons JArr.prems by simp
    ultimately show ?thesis
      using JArr.prems skip_ws_json_print [of "d - 1" j us]
      by (simp add: p_value.simps [of d "CHR ''['' # _"])
  qed
next
  case (JObj ms)
  show ?case
  proof (cases ms)
    case Nil
    with JObj show ?thesis by (simp add: p_value.simps [of d])
  next
    case (Cons m ms')
    let ?cs = "strings_Join (map member_text ms) '','' @ CHR ''}'' # t"
    have "p_members (d - 1) ?cs = Some (map (\<lambda>(k, j). (k, json_print j, j)) ms, t)"
      by (rule p_members_print) (use Cons JObj in \<open>auto intro: JObj.IH\<close>)
    moreover obtain us where "?cs = dquote # us"
      using Cons by (cases ms'; cases m) (auto simp: member_text_def)
    ultimately show ?thesis
      using JObj.prems
      by (simp add: p_value.simps [of d "CHR ''{'' # _"] json_print_JObj comp_def case_prod_beta
          del: json_print.simps)
  qed
next
  case (JBool b)
  show ?case
    by (cases b) (simp_all add: p_value.simps [of d "CHR ''t'' # _"] p_value.simps [of d "CHR ''f'' # _"]
        is_ws_def p_lit_def)
qed (simp add: p_value.simps [of _ "CHR ''n'' # _"] is_ws_def p_lit_def)

theorem json_parse_print: "json_wf max_nesting j \<Longrightarrow> json_parse (json_print j) = Some j"
  using p_value_print [of max_nesting j "[]"] by (simp add: json_parse_def skip_ws_def)

section \<open>Parsed trees are well formed\<close>

lemma p_str_ok: "p_str s = Some (b, r) \<Longrightarrow> str_ok b"
proof (induction s arbitrary: b rule: p_str.induct)
  case (2 c cs)
  show ?case
  proof (cases "c = backslash")
    case True
    with "2.prems" obtain k b' where k: "esc_len cs = Some k" and b': "p_str (drop k cs) = Some (b', r)"
      and b: "b = c # take k cs @ b'"
      by (auto split: option.splits)
    have "esc_len (take k cs @ b' @ [dquote]) = Some k"
      using k by (cases cs) (auto simp: esc_len_def split: if_splits)
    moreover have "drop k (take k cs @ b' @ [dquote]) = b' @ [dquote]" "take k (take k cs @ b' @ [dquote]) = take k cs"
      using esc_len_append [OF k] by simp_all
    moreover have "str_ok b'" using True k b' by (intro "2.IH"(1)) auto
    ultimately show ?thesis using True b by (simp add: str_ok_def)
  next
    case False
    with "2" show ?thesis by (auto simp: str_ok_def split: if_splits)
  qed
qed simp

lemma p_digits1_ok: "p_digits1 s = Some (ds, r) \<Longrightarrow> p_digits1 ds = Some (ds, []) \<and> s = ds @ r \<and> ds \<noteq> []"
  by (auto simp: p_digits1_def Let_def takeWhile_idem dropWhile_eq_Nil_conv dest: set_takeWhileD
      split: if_splits)

lemma p_int_ok:
  assumes "p_int s = Some (i, r)"
  shows "p_int i = Some (i, []) \<and> s = i @ r"
proof (cases "\<exists>cs. s = CHR ''0'' # cs")
  case True
  with assms show ?thesis by (auto simp: p_int_def)
next
  case False
  with assms have "p_digits1 s = Some (i, r)"
    by (auto simp: p_int_def split: list.splits if_splits)
  from p_digits1_ok [OF this] False show ?thesis
    by (cases i) (auto simp: p_int_def)
qed

lemma p_frac_ok:
  assumes "p_frac s = Some (f, r)"
  shows "p_frac f = Some (f, []) \<and> s = f @ r"
proof (cases "\<exists>cs. s = CHR ''.'' # cs")
  case True
  with assms obtain cs ds where "s = CHR ''.'' # cs" "p_digits1 cs = Some (ds, r)" "f = CHR ''.'' # ds"
    by (auto simp: p_frac_def)
  with p_digits1_ok [of cs ds r] show ?thesis by (simp add: p_frac_def)
next
  case False
  with assms show ?thesis by (auto simp: p_frac_def split: list.splits if_splits)
qed

lemma p_digits1_sign: "p_digits1 (CHR ''+'' # r) = None" "p_digits1 (CHR ''-'' # r) = None"
  by (simp_all add: p_digits1_def is_digit_def)

lemma p_exp_ok:
  assumes "p_exp s = Some (e, r)"
  shows "p_exp e = Some (e, []) \<and> s = e @ r"
proof (cases "\<exists>c g cs. s = c # g # cs \<and> (c = CHR ''e'' \<or> c = CHR ''E'')")
  case True
  then obtain c g cs where s: "s = c # g # cs" and c: "c = CHR ''e'' \<or> c = CHR ''E''" by blast
  show ?thesis
  proof (cases "g = CHR ''+'' \<or> g = CHR ''-''")
    case True
    with assms s c obtain ds where "p_digits1 cs = Some (ds, r)" "e = c # g # ds"
      by (auto simp: p_exp_def)
    with True s c p_digits1_ok [of cs ds r] show ?thesis by (auto simp: p_exp_def)
  next
    case False
    with assms s c obtain ds where "p_digits1 (g # cs) = Some (ds, r)" "e = c # ds"
      by (auto simp: p_exp_def)
    with False s c p_digits1_ok [of "g # cs" ds r] show ?thesis
      by (cases ds) (auto simp: p_exp_def)
  qed
next
  case False
  with assms show ?thesis by (auto simp: p_exp_def split: list.splits if_splits)
qed

lemma p_frac_append_stop:
  assumes "p_frac f = Some (f, [])" and "p_exp e = Some (e, [])"
  shows "p_frac (f @ e) = Some (f, e)"
proof (cases "f = []")
  case True
  with assms(2) show ?thesis by (cases e) (auto simp: p_frac_def p_exp_def split: if_splits)
next
  case False
  then obtain ds where f: "f = CHR ''.'' # ds" "p_digits1 ds = Some (ds, [])"
    using assms(1) by (cases f) (auto simp: p_frac_def split: if_splits)
  then have "\<forall>x\<in>set ds. is_digit x" "ds \<noteq> []"
    by (auto simp: p_digits1_def Let_def dropWhile_eq_Nil_conv split: if_splits)
  moreover have "takeWhile is_digit e = []" "dropWhile is_digit e = e"
    using assms(2) by (cases e; auto simp: p_exp_def is_digit_def split: if_splits)+
  ultimately show ?thesis
    using f by (simp add: p_frac_def p_digits1_def Let_def takeWhile_append2 dropWhile_append2)
qed

lemma p_int_append_stop:
  assumes "p_int i = Some (i, [])" and "case t of [] \<Rightarrow> True | c # _ \<Rightarrow> \<not> is_digit c"
  shows "p_int (i @ t) = Some (i, t)"
proof (cases "\<exists>cs. i = CHR ''0'' # cs")
  case True
  with assms(1) show ?thesis by (auto simp: p_int_def)
next
  case False
  with assms(1) have "p_digits1 i = Some (i, [])" "i \<noteq> []"
    by (auto simp: p_int_def split: list.splits if_splits)
  then have "\<forall>x\<in>set i. is_digit x"
    by (auto simp: p_digits1_def Let_def dropWhile_eq_Nil_conv split: if_splits)
  moreover have "takeWhile is_digit t = []" "dropWhile is_digit t = t"
    using assms(2) by (auto split: list.splits)
  ultimately show ?thesis
    using False \<open>i \<noteq> []\<close>
    by (cases i) (auto simp: p_int_def p_digits1_def Let_def takeWhile_append2 dropWhile_append2)
qed

lemma p_num_ok:
  assumes "p_num s = Some (n, r)"
  shows "num_ok n"
proof -
  obtain sg s0 where sg: "(case s of c # r \<Rightarrow> if c = CHR ''-'' then ([c], r) else ([], s) | [] \<Rightarrow> ([], [])) = (sg, s0)"
    and sg': "sg = [] \<or> sg = ''-''"
    by (cases s; cases "hd s = CHR ''-''") auto
  from assms sg obtain i s1 f s2 e where
    p: "p_int s0 = Some (i, s1)" "p_frac s1 = Some (f, s2)" "p_exp s2 = Some (e, r)"
    and n: "n = sg @ i @ f @ e"
    by (auto simp: p_num_def split: option.splits)
  have f: "p_frac f = Some (f, [])" and e: "p_exp e = Some (e, [])" and i: "p_int i = Some (i, [])"
    using p p_frac_ok p_exp_ok p_int_ok by blast+
  have "case f @ e of [] \<Rightarrow> True | c # _ \<Rightarrow> \<not> is_digit c"
    using f e by (cases f; cases e) (auto simp: p_frac_def p_exp_def is_digit_def split: if_splits)
  with i have int: "p_int (i @ f @ e) = Some (i, f @ e)" by (rule p_int_append_stop)
  have frac: "p_frac (f @ e) = Some (f, e)" using f e by (rule p_frac_append_stop)
  obtain c cs where c: "i = c # cs" "is_digit c"
    using p_int_Some_head [OF i] by auto
  show ?thesis
  proof (cases "sg = []")
    case True
    moreover have "c \<noteq> CHR ''-''" using c by (auto simp: is_digit_def)
    ultimately show ?thesis using n int frac e c by (simp add: num_ok_def p_num_def)
  next
    case False
    with sg' n int frac e show ?thesis by (simp add: num_ok_def p_num_def)
  qed
qed

lemma p_members_SomeD:
  assumes "p_members d s = Some (ms, r)"
  shows "\<exists>cs k r0 v j r1 t e r'. skip_ws s = dquote # cs \<and> p_str cs = Some (k, r0) \<and>
    skip_ws r0 = CHR '':'' # v \<and> length v < length s \<and> p_value d v = Some (j, r1) \<and>
    skip_ws r1 = e # r' \<and>
    (e = CHR ''}'' \<and> ms = [(k, t, j)] \<and> r = r' \<or>
     e \<noteq> CHR ''}'' \<and> e = CHR '','' \<and> length r' < length s \<and> (\<exists>ms'. p_members d r' = Some (ms', r) \<and> ms = (k, t, j) # ms'))"
  using assms
  by (subst (asm) p_members.simps)
     (auto simp: Let_def split: list.splits if_splits option.splits)

lemma p_value_wf:
  "p_value d s = Some (j, r) \<Longrightarrow> json_wf d j"
  "p_elems d s = Some (js, r) \<Longrightarrow> \<forall>j\<in>set js. json_wf d j"
  "p_members d s = Some (ms, r) \<Longrightarrow> \<forall>(k, t, j)\<in>set ms. str_ok k \<and> json_wf d j"
proof (induction d s and d s and d s arbitrary: j r and js r and ms r
    rule: p_value_p_elems_p_members.induct)
  case (1 d s)
  then show ?case
    by (subst (asm) p_value.simps)
       (fastforce simp: p_lit_def p_str_ok p_num_ok split: list.splits if_splits)
next
  case (2 d s)
  then show ?case
    by (subst (asm) p_elems.simps) (fastforce split: list.splits if_splits option.splits)
next
  case (3 d s)
  obtain cs k r0 v j r1 t e r' where
    s: "skip_ws s = dquote # cs" "p_str cs = Some (k, r0)" "skip_ws r0 = CHR '':'' # v"
      "length v < length s" "p_value d v = Some (j, r1)" "skip_ws r1 = e # r'"
    and e: "e = CHR ''}'' \<and> ms = [(k, t, j)] \<and> r = r' \<or>
     e \<noteq> CHR ''}'' \<and> e = CHR '','' \<and> length r' < length s \<and> (\<exists>ms'. p_members d r' = Some (ms', r) \<and> ms = (k, t, j) # ms')"
    using p_members_SomeD [OF "3.prems"] by blast
  have kj: "str_ok k \<and> json_wf d j"
    using "3.IH"(1) [OF s(1) _ s(2) _ s(3) _ s(5)] s p_str_ok by auto
  from e show ?case
  proof
    assume "e = CHR ''}'' \<and> ms = [(k, t, j)] \<and> r = r'"
    with kj show ?thesis by simp
  next
    assume e': "e \<noteq> CHR ''}'' \<and> e = CHR '','' \<and> length r' < length s \<and>
      (\<exists>ms'. p_members d r' = Some (ms', r) \<and> ms = (k, t, j) # ms')"
    then obtain ms' where ms': "p_members d r' = Some (ms', r)" "ms = (k, t, j) # ms'" by blast
    have "\<forall>(k, t, j)\<in>set ms'. str_ok k \<and> json_wf d j"
      using "3.IH"(2) [OF s(1) _ s(2) _ s(3) _ s(5) _ _ s(6) _ _ ms'(1)] s e' by auto
    with kj ms' show ?thesis by simp
  qed
qed

lemma json_parse_wf: "json_parse s = Some j \<Longrightarrow> json_wf max_nesting j"
  by (auto simp: json_parse_def split: option.splits if_splits dest: p_value_wf(1))

end
