(* ===== verification/JsonValue.thy ===== *)
theory JsonValue
  imports Json
begin

text \<open>
  Go values and JSON: string quoting as \<^verbatim>\<open>json.Marshal\<close> does it (HTML escaping on, Go 1.20),
  unquoting as \<^verbatim>\<open>json.Unmarshal\<close> does it (escapes, surrogate pairs, replacement of invalid
  UTF-8), the \<^verbatim>\<open>interface{}\<close> values, and the re-escaping \<^verbatim>\<open>compact\<close> applies to raw messages.
  A Go string is its sequence of bytes.
\<close>

section \<open>UTF-8\<close>

text \<open>The well-formed multi-byte sequences: the range of each byte.\<close>

definition utf8_rows :: "(nat \<times> nat) list list" where
  "utf8_rows =
     [[(0xC2, 0xDF), (0x80, 0xBF)],
      [(0xE0, 0xE0), (0xA0, 0xBF), (0x80, 0xBF)],
      [(0xE1, 0xEC), (0x80, 0xBF), (0x80, 0xBF)],
      [(0xED, 0xED), (0x80, 0x9F), (0x80, 0xBF)],
      [(0xEE, 0xEF), (0x80, 0xBF), (0x80, 0xBF)],
      [(0xF0, 0xF0), (0x90, 0xBF), (0x80, 0xBF), (0x80, 0xBF)],
      [(0xF1, 0xF3), (0x80, 0xBF), (0x80, 0xBF), (0x80, 0xBF)],
      [(0xF4, 0xF4), (0x80, 0x8F), (0x80, 0xBF), (0x80, 0xBF)]]"

fun row_matches :: "(nat \<times> nat) list \<Rightarrow> string \<Rightarrow> bool" where
  "row_matches [] s = True"
| "row_matches ((lo, hi) # row) (c # s) = (lo \<le> of_char c \<and> of_char c \<le> hi \<and> row_matches row s)"
| "row_matches (lh # row) [] = False"

text \<open>Width of the multi-byte sequence at the head of a string; 0 if it is not valid UTF-8.\<close>

definition utf8_width :: "string \<Rightarrow> nat" where
  "utf8_width s = (case find (\<lambda>row. row_matches row s) utf8_rows of
     Some row \<Rightarrow> length row | None \<Rightarrow> 0)"

definition utf8_encode :: "nat \<Rightarrow> string" where
  "utf8_encode r =
     map char_of
       (if r < 0x80 then [r]
        else if r < 0x800 then [0xC0 + r div 64, 0x80 + r mod 64]
        else if r < 0x10000 then [0xE0 + r div 4096, 0x80 + r div 64 mod 64, 0x80 + r mod 64]
        else [0xF0 + r div 262144, 0x80 + r div 4096 mod 64, 0x80 + r div 64 mod 64, 0x80 + r mod 64])"

definition replacement :: string where "replacement = utf8_encode 0xFFFD"

section \<open>Quoting and unquoting\<close>

definition hex_digit :: "nat \<Rightarrow> char" where
  "hex_digit d = (if d < 10 then char_of (48 + d) else char_of (87 + d))"

definition u_escape :: "nat \<Rightarrow> string" where
  "u_escape r = [backslash, CHR ''u'', hex_digit (r div 4096 mod 16), hex_digit (r div 256 mod 16),
     hex_digit (r div 16 mod 16), hex_digit (r mod 16)]"

definition hex4 :: "string \<Rightarrow> nat" where
  "hex4 h = (case digits_value 16 0 h of Some n \<Rightarrow> n | None \<Rightarrow> 0)"

definition html_safe :: "char \<Rightarrow> bool" where
  "html_safe c \<longleftrightarrow> 32 \<le> (of_char c :: nat) \<and>
     c \<notin> {dquote, backslash, CHR ''<'', CHR ''>'', CHR ''&''}"

definition quote_ascii :: "char \<Rightarrow> string" where
  "quote_ascii c =
     (if html_safe c then [c]
      else if c = dquote \<or> c = backslash then [backslash, c]
      else if c = CHR 0x0A then [backslash, CHR ''n'']
      else if c = CHR 0x0D then [backslash, CHR ''r'']
      else if c = CHR 0x09 then [backslash, CHR ''t'']
      else u_escape (of_char c))"

definition line_sep :: "string \<Rightarrow> nat option" where
  "line_sep s =
     (if take 3 s = [CHR 0xE2, CHR 0x80, CHR 0xA8] then Some 0x2028
      else if take 3 s = [CHR 0xE2, CHR 0x80, CHR 0xA9] then Some 0x2029 else None)"

function quote :: "string \<Rightarrow> string" where
  "quote [] = []"
| "quote (c # cs) =
     (if (of_char c :: nat) < 128 then quote_ascii c @ quote cs
      else (let w = utf8_width (c # cs) in
        if w = 0 then u_escape 0xFFFD @ quote cs
        else (case line_sep (c # cs) of
                Some r \<Rightarrow> u_escape r
              | None \<Rightarrow> take w (c # cs)) @ quote (drop (w - 1) cs)))"
  by pat_completeness auto
termination
  by (relation "measure length") auto

definition esc_char :: "char \<Rightarrow> char" where
  "esc_char e =
     (if e = CHR ''b'' then CHR 0x08 else if e = CHR ''f'' then CHR 0x0C
      else if e = CHR ''n'' then CHR 0x0A else if e = CHR ''r'' then CHR 0x0D
      else if e = CHR ''t'' then CHR 0x09 else e)"

definition high_surrogate :: "nat \<Rightarrow> bool" where
  "high_surrogate r \<longleftrightarrow> 0xD800 \<le> r \<and> r < 0xDC00"

definition low_surrogate :: "nat \<Rightarrow> bool" where
  "low_surrogate r \<longleftrightarrow> 0xDC00 \<le> r \<and> r < 0xE000"

text \<open>The value of a second \<open>\u\<close> escape that directly follows the first one.\<close>

definition next_u4 :: "string \<Rightarrow> nat option" where
  "next_u4 s =
     (case s of
        c # cs \<Rightarrow> if c = backslash \<and> esc_len cs = Some 5 then Some (hex4 (take 4 (drop 1 cs))) else None
      | [] \<Rightarrow> None)"

function unquote :: "string \<Rightarrow> string" where
  "unquote [] = []"
| "unquote (c # cs) =
     (if c = backslash then
        (case esc_len cs of
           None \<Rightarrow> []
         | Some k \<Rightarrow>
             if k = 1 then esc_char (hd cs) # unquote (drop 1 cs)
             else (let r = hex4 (take 4 (drop 1 cs)); rest = drop 5 cs in
               if high_surrogate r \<or> low_surrogate r then
                 (case next_u4 rest of
                    Some r2 \<Rightarrow>
                      if high_surrogate r \<and> low_surrogate r2
                      then utf8_encode (0x10000 + (r - 0xD800) * 1024 + (r2 - 0xDC00)) @ unquote (drop 6 rest)
                      else replacement @ unquote rest
                  | None \<Rightarrow> replacement @ unquote rest)
               else utf8_encode r @ unquote rest))
      else if (of_char c :: nat) < 128 then c # unquote cs
      else (let w = utf8_width (c # cs) in
        if w = 0 then replacement @ unquote cs
        else take w (c # cs) @ unquote (drop (w - 1) cs)))"
  by pat_completeness auto
termination
  by (relation "measure length") auto

declare quote.simps [simp del] unquote.simps [simp del]

function utf8_valid :: "string \<Rightarrow> bool" where
  "utf8_valid [] = True"
| "utf8_valid (c # cs) =
     (if (of_char c :: nat) < 128 then utf8_valid cs
      else utf8_width (c # cs) \<noteq> 0 \<and> utf8_valid (drop (utf8_width (c # cs) - 1) cs))"
  by pat_completeness auto
termination
  by (relation "measure length") auto

text \<open>
  \<^verbatim>\<open>compact\<close> with HTML escaping, applied to the literal bodies inside a raw message.
\<close>

function html_escape :: "string \<Rightarrow> string" where
  "html_escape [] = []"
| "html_escape (c # cs) =
     (if c \<in> {CHR ''<'', CHR ''>'', CHR ''&''} then u_escape (of_char c) @ html_escape cs
      else (case line_sep (c # cs) of
              Some r \<Rightarrow> u_escape r @ html_escape (drop 2 cs)
            | None \<Rightarrow> c # html_escape cs))"
  by pat_completeness auto
termination
  by (relation "measure length") auto

fun json_compact :: "json \<Rightarrow> json" where
  "json_compact (JStr s) = JStr (html_escape s)"
| "json_compact (JArr js) = JArr (map json_compact js)"
| "json_compact (JObj ms) = JObj (map (\<lambda>(k, j). (html_escape k, json_compact j)) ms)"
| "json_compact j = j"

section \<open>Values of type interface{}\<close>

datatype goval =
    GNil
  | GBool bool
  | GNum string
  | GStr string
  | GArr "goval list"
  | GObj "(string \<times> goval) list"

text \<open>
  \<open>fnum\<close> maps a number literal to the text \<^verbatim>\<open>Marshal\<close> prints for the \<^verbatim>\<open>float64\<close> it denotes,
  \<open>None\<close> if the literal is out of range. Later members of an object overwrite earlier ones
  of the same name; a Go map has no order, and the list that represents it is kept sorted.
\<close>

definition map_inserts :: "('k, 'v) gomap \<Rightarrow> ('k \<times> 'v) list \<Rightarrow> ('k, 'v) gomap" where
  "map_inserts m kvs = foldl (\<lambda>m (k, v). AList.update k v m) m kvs"

definition go_map_of :: "(string \<times> 'v) list \<Rightarrow> (string, 'v) gomap" where
  "go_map_of kvs = sort_key fst (map_inserts [] kvs)"

fun to_goval :: "(string \<Rightarrow> string option) \<Rightarrow> json \<Rightarrow> goval option" where
  "to_goval fnum JNull = Some GNil"
| "to_goval fnum (JBool b) = Some (GBool b)"
| "to_goval fnum (JNum n) = map_option GNum (fnum n)"
| "to_goval fnum (JStr s) = Some (GStr (unquote s))"
| "to_goval fnum (JArr js) = map_option GArr (those (map (to_goval fnum) js))"
| "to_goval fnum (JObj ms) =
     map_option (\<lambda>vs. GObj (go_map_of vs))
       (those (map (\<lambda>(k, j). map_option (Pair (unquote k)) (to_goval fnum j)) ms))"

text \<open>\<^verbatim>\<open>Marshal\<close> sorts the keys of a map.\<close>

fun from_goval :: "goval \<Rightarrow> json" where
  "from_goval GNil = JNull"
| "from_goval (GBool b) = JBool b"
| "from_goval (GNum n) = JNum n"
| "from_goval (GStr s) = JStr (quote s)"
| "from_goval (GArr vs) = JArr (map from_goval vs)"
| "from_goval (GObj ms) =
     JObj (map (\<lambda>(k, j). (quote k, j)) (sort_key fst (map (\<lambda>(k, v). (k, from_goval v)) ms)))"

section \<open>Quoted strings are well formed and read back\<close>

lemma hex_digit_value [simp]: "d < 16 \<Longrightarrow> digit_of (hex_digit d) = Some d"
  by (auto simp: digit_of_def hex_digit_def Let_def chr_lower_def)

lemma is_hex_hex_digit [simp]: "d < 16 \<Longrightarrow> is_hex (hex_digit d)"
  by (simp add: is_hex_def)

lemma nat_hex_digits:
  fixes r :: nat
  assumes "r < 65536"
  shows "r div 4096 < 16"
    and "((r div 4096 * 16 + r div 256 mod 16) * 16 + r div 16 mod 16) * 16 + r mod 16 = r"
proof -
  define q1 where "q1 = r div 16"
  define q2 where "q2 = q1 div 16"
  define q3 where "q3 = q2 div 16"
  have q: "r div 256 = q2" "r div 4096 = q3"
    by (simp_all add: q1_def q2_def q3_def div_mult2_eq [symmetric])
  have r: "r = q1 * 16 + r mod 16" "q1 = q2 * 16 + q1 mod 16" "q2 = q3 * 16 + q2 mod 16"
    by (simp_all add: q1_def q2_def q3_def)
  show "r div 4096 < 16" using assms by auto
  show "((r div 4096 * 16 + r div 256 mod 16) * 16 + r div 16 mod 16) * 16 + r mod 16 = r"
    unfolding q q1_def [symmetric] using r by simp
qed

lemma hex4_hex_digits:
  assumes "r < 65536"
  shows "hex4 [hex_digit (r div 4096 mod 16), hex_digit (r div 256 mod 16),
     hex_digit (r div 16 mod 16), hex_digit (r mod 16)] = r"
  using nat_hex_digits [OF assms] by (simp add: hex4_def)

lemma esc_len_u_escape:
  "esc_len (CHR ''u'' # hex_digit (r div 4096 mod 16) # hex_digit (r div 256 mod 16) #
     hex_digit (r div 16 mod 16) # hex_digit (r mod 16) # t) = Some 5"
  by (simp add: esc_len_def)

text \<open>\<open>p\<close> is read as the beginning of a string body, whatever follows.\<close>

definition body_prefix :: "string \<Rightarrow> bool" where
  "body_prefix p \<longleftrightarrow> (\<forall>t. p_str (p @ t) = map_option (\<lambda>(b, r). (p @ b, r)) (p_str t))"

lemma body_prefix_append: "body_prefix p \<Longrightarrow> body_prefix q \<Longrightarrow> body_prefix (p @ q)"
  by (auto simp: body_prefix_def option.map_comp intro!: option.map_cong)

lemma body_prefix_Nil [simp]: "body_prefix []"
  by (simp add: body_prefix_def option.map_ident_strong)

lemma body_prefix_str_ok: "body_prefix p \<Longrightarrow> str_ok p"
  by (simp add: body_prefix_def str_ok_def)

lemma body_prefix_u_escape: "body_prefix (u_escape r)"
  by (simp add: body_prefix_def u_escape_def esc_len_u_escape)

lemma body_prefix_high: "\<forall>c\<in>set bs. 128 \<le> (of_char c :: nat) \<Longrightarrow> body_prefix bs"
proof (induction bs)
  case (Cons c cs)
  have "body_prefix [c]"
    using Cons.prems by (auto simp: body_prefix_def)
  with Cons show ?case using body_prefix_append [of "[c]" cs] by simp
qed simp

lemma body_prefix_quote_ascii: "body_prefix (quote_ascii c)"
proof (cases "c \<in> {dquote, backslash, CHR 0x0A, CHR 0x0D, CHR 0x09}")
  case True
  then show ?thesis
    by (auto simp: quote_ascii_def html_safe_def body_prefix_def esc_len_def)
next
  case False
  then have "quote_ascii c = [c] \<and> 32 \<le> (of_char c :: nat) \<or> quote_ascii c = u_escape (of_char c)"
    by (auto simp: quote_ascii_def html_safe_def)
  then show ?thesis
  proof
    assume "quote_ascii c = [c] \<and> 32 \<le> (of_char c :: nat)"
    with False show ?thesis by (auto simp: body_prefix_def)
  qed (simp add: body_prefix_u_escape)
qed

lemma row_matches_length: "row_matches row s \<Longrightarrow> length row \<le> length s"
  by (induction row s rule: row_matches.induct) auto

lemma row_matches_append: "row_matches row s \<Longrightarrow> row_matches row (take (length row) s @ t)"
  by (induction row s rule: row_matches.induct) auto

lemma row_matches_bytes:
  "row_matches row s \<Longrightarrow> \<forall>(lo, hi)\<in>set row. n \<le> lo \<Longrightarrow> c \<in> set (take (length row) s) \<Longrightarrow> n \<le> of_char c"
  by (induction row s rule: row_matches.induct) auto

lemma utf8_rows_lead:
  assumes "row \<in> set utf8_rows" "row' \<in> set utf8_rows" "row_matches row (c # s)" "row_matches row' (c # s')"
  shows "row = row'"
  using assms by (auto simp: utf8_rows_def)

lemma utf8_width_row:
  assumes "row \<in> set utf8_rows" and "row_matches row s"
  shows "utf8_width s = length row"
proof -
  from assms obtain row' where r: "find (\<lambda>row. row_matches row s) utf8_rows = Some row'"
    using find_None_iff by (metis option.exhaust)
  then have "row' \<in> set utf8_rows" "row_matches row' s"
    by (auto simp: find_Some_iff)
  moreover obtain c s' where "s = c # s'"
    using assms by (cases s) (auto simp: utf8_rows_def)
  ultimately have "row' = row" using assms utf8_rows_lead by blast
  with r show ?thesis by (simp add: utf8_width_def)
qed

lemma utf8_width_cases:
  assumes "utf8_width s \<noteq> 0"
  obtains row where "row \<in> set utf8_rows" "row_matches row s" "utf8_width s = length row"
  using assms by (auto simp: utf8_width_def find_Some_iff split: option.splits) (metis nth_mem)

lemma utf8_width_high:
  assumes "utf8_width s \<noteq> 0"
  shows "\<forall>c\<in>set (take (utf8_width s) s). 128 \<le> (of_char c :: nat)"
    and "utf8_width s \<le> length s"
    and "utf8_width (take (utf8_width s) s @ t) = utf8_width s"
proof -
  obtain row where row: "row \<in> set utf8_rows" "row_matches row s" "utf8_width s = length row"
    using utf8_width_cases [OF assms] .
  have "\<forall>(lo, hi)\<in>set row. 128 \<le> lo" using row(1) by (auto simp: utf8_rows_def)
  with row show "\<forall>c\<in>set (take (utf8_width s) s). 128 \<le> (of_char c :: nat)"
    using row_matches_bytes by auto
  from row show "utf8_width s \<le> length s" by (simp add: row_matches_length)
  show "utf8_width (take (utf8_width s) s @ t) = utf8_width s"
    using row row_matches_append utf8_width_row by metis
qed

lemma body_prefix_quote: "body_prefix (quote s)"
proof (induction s rule: quote.induct)
  case (2 c cs)
  show ?case
  proof (cases "(of_char c :: nat) < 128 \<or> utf8_width (c # cs) = 0")
    case True
    with 2 show ?thesis
      by (auto simp: quote.simps(2) Let_def body_prefix_append body_prefix_quote_ascii
          body_prefix_u_escape)
  next
    case False
    with 2 show ?thesis
      by (auto simp: quote.simps(2) Let_def body_prefix_append body_prefix_u_escape
          body_prefix_high utf8_width_high(1) split: option.splits simp del: take_Suc_Cons)
  qed
qed (simp add: quote.simps)

lemma str_ok_quote [simp, intro]: "str_ok (quote s)"
  by (simp add: body_prefix_str_ok body_prefix_quote)

lemma unquote_u_escape:
  assumes "r < 0xD800 \<or> (0xE000 \<le> r \<and> r < 65536)"
  shows "unquote (u_escape r @ t) = utf8_encode r @ unquote t"
proof -
  have "\<not> high_surrogate r" "\<not> low_surrogate r" "r < 65536"
    using assms by (auto simp: high_surrogate_def low_surrogate_def)
  then show ?thesis
    using hex4_hex_digits [of r] esc_len_u_escape [of r t]
    by (simp add: u_escape_def unquote.simps(2) Let_def)
qed

lemma unquote_quote_ascii:
  assumes "(of_char c :: nat) < 128"
  shows "unquote (quote_ascii c @ t) = c # unquote t"
proof (cases "c \<in> {dquote, backslash, CHR 0x0A, CHR 0x0D, CHR 0x09}")
  case True
  then show ?thesis
    by (auto simp: quote_ascii_def html_safe_def unquote.simps(2) esc_len_def esc_char_def)
next
  case False
  then have "quote_ascii c = [c] \<or> quote_ascii c = u_escape (of_char c)"
    by (auto simp: quote_ascii_def)
  then show ?thesis
  proof
    assume "quote_ascii c = [c]"
    with False assms show ?thesis by (auto simp: unquote.simps(2))
  next
    assume "quote_ascii c = u_escape (of_char c)"
    with assms show ?thesis by (simp add: unquote_u_escape utf8_encode_def)
  qed
qed

lemma unquote_multibyte:
  assumes "utf8_width s \<noteq> 0"
  shows "unquote (take (utf8_width s) s @ t) = take (utf8_width s) s @ unquote t"
proof (cases s)
  case Nil
  with assms show ?thesis by (simp add: utf8_width_def utf8_rows_def)
next
  case (Cons c cs)
  let ?w = "utf8_width s"
  obtain k where k: "?w = Suc k" using assms by (cases ?w) auto
  have "128 \<le> (of_char c :: nat)" and len: "?w \<le> length s"
    using utf8_width_high [OF assms] Cons k by auto
  then have c: "\<not> (of_char c :: nat) < 128" "c \<noteq> backslash" by auto
  have "utf8_width (c # take k cs @ t) = Suc k"
    using utf8_width_high(3) [OF assms, of t] Cons k by simp
  with c Cons k len show ?thesis by (simp add: unquote.simps(2))
qed

lemma utf8_encode_line_seps:
  "utf8_encode 0x2028 = [CHR 0xE2, CHR 0x80, CHR 0xA8]"
  "utf8_encode 0x2029 = [CHR 0xE2, CHR 0x80, CHR 0xA9]"
  by (simp_all add: utf8_encode_def char_of_eq_iff)

lemma line_sep_width:
  "line_sep s = Some r \<Longrightarrow> utf8_width s = 3 \<and> take 3 s = utf8_encode r \<and> r < 0xD800"
proof -
  assume "line_sep s = Some r"
  then obtain d t where s: "s = CHR 0xE2 # CHR 0x80 # d # t"
    and d: "d = CHR 0xA8 \<and> r = 0x2028 \<or> d = CHR 0xA9 \<and> r = 0x2029"
    by (cases s; cases "tl s"; cases "tl (tl s)") (auto simp: line_sep_def split: if_splits)
  have "row_matches [(0xE1, 0xEC), (0x80, 0xBF), (0x80, 0xBF)] s" using s d by auto
  then have "utf8_width s = 3"
    using utf8_width_row [of "[(0xE1, 0xEC), (0x80, 0xBF), (0x80, 0xBF)]" s]
    by (simp add: utf8_rows_def)
  with s d show ?thesis by (auto simp: utf8_encode_line_seps)
qed

theorem unquote_quote: "utf8_valid s \<Longrightarrow> unquote (quote s) = s"
proof (induction s rule: quote.induct)
  case 1
  show ?case by (simp add: quote.simps unquote.simps)
next
  case (2 c cs)
  show ?case
  proof (cases "(of_char c :: nat) < 128")
    case True
    with 2 show ?thesis by (simp add: quote.simps(2) unquote_quote_ascii)
  next
    case False
    let ?w = "utf8_width (c # cs)"
    have w: "?w \<noteq> 0" and IH: "unquote (quote (drop (?w - 1) cs)) = drop (?w - 1) cs"
      using False 2 by auto
    have split: "take ?w (c # cs) @ drop (?w - 1) cs = c # cs"
      using w by (cases ?w) auto
    show ?thesis
    proof (cases "line_sep (c # cs)")
      case None
      with False w IH split show ?thesis
        by (simp add: quote.simps(2) Let_def unquote_multibyte)
    next
      case (Some r)
      then have "?w = 3" "utf8_encode r = take ?w (c # cs)" "r < 0xD800"
        using line_sep_width [OF Some] by simp_all
      with Some False w IH split show ?thesis
        by (simp add: quote.simps(2) Let_def unquote_u_escape)
    qed
  qed
qed

section \<open>Unquoting produces valid UTF-8\<close>

lemma utf8_width_append:
  assumes "utf8_width s \<noteq> 0"
  shows "utf8_width (s @ t) = utf8_width s"
proof -
  obtain row where "row \<in> set utf8_rows" "row_matches row s" "utf8_width s = length row"
    using utf8_width_cases [OF assms] .
  moreover from this(2) have "row_matches row (s @ t)"
    by (induction row s rule: row_matches.induct) auto
  ultimately show ?thesis using utf8_width_row by simp
qed

lemma utf8_valid_append: "utf8_valid a \<Longrightarrow> utf8_valid b \<Longrightarrow> utf8_valid (a @ b)"
proof (induction a rule: utf8_valid.induct)
  case (2 c cs)
  show ?case
  proof (cases "(of_char c :: nat) < 128")
    case True
    with 2 show ?thesis by simp
  next
    case False
    let ?w = "utf8_width (c # cs)"
    have w: "?w \<noteq> 0" using False "2.prems" by simp
    have "utf8_width (c # cs @ b) = ?w" using utf8_width_append [OF w, of b] by simp
    moreover have "?w - 1 \<le> length cs" using utf8_width_high(2) [OF w] by simp
    ultimately show ?thesis using False 2 w by simp
  qed
qed simp

lemma utf8_valid_row:
  assumes "row \<in> set utf8_rows" and "row_matches row s" and "length s = length row"
  shows "utf8_valid s"
proof -
  have w: "utf8_width s = length s" using utf8_width_row assms by simp
  have "length s \<noteq> 0" using assms by (auto simp: utf8_rows_def)
  then obtain c cs where s: "s = c # cs" by (cases s) auto
  have "128 \<le> (of_char c :: nat)" using assms(1,2) s by (auto simp: utf8_rows_def)
  with w s show ?thesis by simp
qed

lemma utf8_valid_take: "utf8_width s \<noteq> 0 \<Longrightarrow> utf8_valid (take (utf8_width s) s)"
  by (metis append_Nil2 row_matches_append row_matches_length length_take min_absorb2 utf8_valid_row
      utf8_width_cases)

lemma utf8_valid_3:
  assumes "a < 16" "b < 64" "c < 64" "a = 0 \<Longrightarrow> 32 \<le> b" "a = 13 \<Longrightarrow> b < 32"
  shows "utf8_valid (map char_of [0xE0 + a, 0x80 + b, 0x80 + c :: nat])"
proof -
  consider "a = 0" | "1 \<le> a" "a \<le> 12" | "a = 13" | "14 \<le> a" by linarith
  then show ?thesis
  proof cases
    case 1
    with assms show ?thesis
      by (intro utf8_valid_row [of "[(0xE0, 0xE0), (0xA0, 0xBF), (0x80, 0xBF)]"])
         (simp_all add: utf8_rows_def)
  next
    case 2
    with assms show ?thesis
      by (intro utf8_valid_row [of "[(0xE1, 0xEC), (0x80, 0xBF), (0x80, 0xBF)]"])
         (simp_all add: utf8_rows_def)
  next
    case 3
    with assms show ?thesis
      by (intro utf8_valid_row [of "[(0xED, 0xED), (0x80, 0x9F), (0x80, 0xBF)]"])
         (simp_all add: utf8_rows_def)
  next
    case 4
    with assms show ?thesis
      by (intro utf8_valid_row [of "[(0xEE, 0xEF), (0x80, 0xBF), (0x80, 0xBF)]"])
         (simp_all add: utf8_rows_def)
  qed
qed

lemma utf8_valid_4:
  assumes "a < 5" "b < 64" "c < 64" "e < 64" "a = 0 \<Longrightarrow> 16 \<le> b" "a = 4 \<Longrightarrow> b < 16"
  shows "utf8_valid (map char_of [0xF0 + a, 0x80 + b, 0x80 + c, 0x80 + e :: nat])"
proof -
  consider "a = 0" | "1 \<le> a" "a \<le> 3" | "a = 4" using assms(1) by linarith
  then show ?thesis
  proof cases
    case 1
    with assms show ?thesis
      by (intro utf8_valid_row [of "[(0xF0, 0xF0), (0x90, 0xBF), (0x80, 0xBF), (0x80, 0xBF)]"])
         (simp_all add: utf8_rows_def)
  next
    case 2
    with assms show ?thesis
      by (intro utf8_valid_row [of "[(0xF1, 0xF3), (0x80, 0xBF), (0x80, 0xBF), (0x80, 0xBF)]"])
         (simp_all add: utf8_rows_def)
  next
    case 3
    with assms show ?thesis
      by (intro utf8_valid_row [of "[(0xF4, 0xF4), (0x80, 0x8F), (0x80, 0xBF), (0x80, 0xBF)]"])
         (simp_all add: utf8_rows_def)
  qed
qed

lemma utf8_valid_encode:
  assumes "r < 0xD800 \<or> (0xE000 \<le> r \<and> r < 0x110000)"
  shows "utf8_valid (utf8_encode r)"
proof -
  consider "r < 0x80" | "0x80 \<le> r" "r < 0x800" | "0x800 \<le> r" "r < 0x10000" | "0x10000 \<le> r"
    by linarith
  then show ?thesis
  proof cases
    case 1
    then show ?thesis by (simp add: utf8_encode_def)
  next
    case 2
    then have "r div 64 < 32" "2 \<le> r div 64" "r mod 64 < 64" by auto
    with 2 show ?thesis
      by (intro utf8_valid_row [of "[(0xC2, 0xDF), (0x80, 0xBF)]"])
         (simp_all add: utf8_encode_def utf8_rows_def)
  next
    case 3
    define a b where "a = r div 4096" and "b = r div 64 mod 64"
    have "r div 4096 = r div 64 div 64" by (simp add: div_mult2_eq [symmetric])
    then have r: "r div 64 = a * 64 + b" by (simp add: a_def b_def)
    have "a < 16" "a = 0 \<Longrightarrow> 32 \<le> b" "a = 13 \<Longrightarrow> b < 32"
      using r 3 assms by (auto simp: a_def)
    then have "utf8_valid (map char_of [0xE0 + a, 0x80 + b, 0x80 + r mod 64])"
      by (intro utf8_valid_3) (auto simp: b_def)
    with 3 show ?thesis by (simp add: utf8_encode_def a_def b_def)
  next
    case 4
    define a b where "a = r div 262144" and "b = r div 4096 mod 64"
    have "r div 262144 = r div 4096 div 64" by (simp add: div_mult2_eq [symmetric])
    then have r: "r div 4096 = a * 64 + b" by (simp add: a_def b_def)
    have "a < 5" "a = 0 \<Longrightarrow> 16 \<le> b" "a = 4 \<Longrightarrow> b < 16"
      using r 4 assms by (auto simp: a_def)
    then have "utf8_valid (map char_of [0xF0 + a, 0x80 + b, 0x80 + r div 64 mod 64, 0x80 + r mod 64])"
      by (intro utf8_valid_4) (auto simp: b_def)
    with 4 show ?thesis by (simp add: utf8_encode_def a_def b_def)
  qed
qed

lemma digits_value_bound:
  "digits_value b acc h = Some n \<Longrightarrow> n < (acc + 1) * b ^ length h"
proof (induction b acc h rule: digits_value.induct)
  case (2 b acc c cs)
  then obtain d where dc: "digit_of c = Some d" and d: "d < b" "digits_value b (acc * b + d) cs = Some n"
    by (auto split: option.splits if_splits)
  from "2.IH" [OF dc d] have "n < (acc * b + d + 1) * b ^ length cs" .
  also have "\<dots> \<le> ((acc + 1) * b) * b ^ length cs"
    using d(1) by (intro mult_right_mono) auto
  finally show ?case by (simp add: algebra_simps)
qed simp

lemma hex4_bound: "length h \<le> 4 \<Longrightarrow> hex4 h < 65536"
proof -
  assume "length h \<le> 4"
  then have "(16 :: nat) ^ length h \<le> 16 ^ 4" by (intro power_increasing) auto
  then show ?thesis
    using digits_value_bound [of 16 0 h] by (auto simp: hex4_def split: option.splits)
qed

lemma utf8_valid_replacement [simp]: "utf8_valid replacement"
  unfolding replacement_def by (rule utf8_valid_encode) simp

lemma next_u4_bound: "next_u4 s = Some r \<Longrightarrow> r < 65536"
  by (auto simp: next_u4_def hex4_bound split: list.splits if_splits)

lemma esc_char_ascii:
  assumes "esc_len cs = Some 1"
  shows "(of_char (esc_char (hd cs)) :: nat) < 128"
proof -
  obtain e hs where "cs = e # hs" and "(of_char e :: nat) < 128"
    using assms by (cases cs) (auto simp: esc_len_def split: if_splits)
  then show ?thesis by (simp add: esc_char_def)
qed

lemma utf8_valid_unquote_escape:
  assumes "\<And>ys. length ys \<le> length cs \<Longrightarrow> utf8_valid (unquote ys)"
  shows "utf8_valid (unquote (backslash # cs))"
proof (cases "esc_len cs")
  case None
  then show ?thesis by (simp add: unquote.simps(2))
next
  case (Some k)
  let ?r = "hex4 (take 4 (drop 1 cs))"
  have rest: "utf8_valid (unquote (drop n cs))" for n by (rule assms) simp
  show ?thesis
  proof (cases "k = 1")
    case True
    with Some rest show ?thesis by (simp add: unquote.simps(2) esc_char_ascii)
  next
    case False
    have "?r < 65536" by (rule hex4_bound) simp
    then have "\<not> (high_surrogate ?r \<or> low_surrogate ?r) \<Longrightarrow> utf8_valid (utf8_encode ?r)"
      by (intro utf8_valid_encode) (auto simp: high_surrogate_def low_surrogate_def)
    moreover have "utf8_valid (utf8_encode (0x10000 + (?r - 0xD800) * 1024 + (r2 - 0xDC00)))"
      if "high_surrogate ?r" "low_surrogate r2" for r2
      using that by (intro utf8_valid_encode) (auto simp: high_surrogate_def low_surrogate_def)
    ultimately show ?thesis
      unfolding unquote.simps(2) using Some False rest
      by (simp add: Let_def utf8_valid_append split: option.split)
  qed
qed

lemma utf8_valid_unquote: "utf8_valid (unquote s)"
proof (induction s rule: length_induct)
  case (1 s)
  show ?case
  proof (cases s)
    case Nil
    then show ?thesis by (simp add: unquote.simps)
  next
    case (Cons c cs)
    have IH: "length ys \<le> length cs \<Longrightarrow> utf8_valid (unquote ys)" for ys
      using 1 Cons by simp
    show ?thesis
    proof (cases "c = backslash")
      case True
      with Cons IH utf8_valid_unquote_escape [of cs] show ?thesis by blast
    next
      case False
      have "utf8_width (c # cs) \<noteq> 0 \<Longrightarrow> utf8_valid (take (utf8_width (c # cs)) (c # cs))"
        by (rule utf8_valid_take)
      with False Cons IH show ?thesis
        by (simp add: unquote.simps(2) Let_def utf8_valid_append)
    qed
  qed
qed

section \<open>Marshalling a decoded value and decoding it again\<close>

text \<open>
  What the service relies on of \<^verbatim>\<open>float64\<close> formatting: the text printed for a number is a
  number literal and denotes the number it was printed from.
\<close>

definition float_roundtrip :: "(string \<Rightarrow> string option) \<Rightarrow> bool" where
  "float_roundtrip fnum \<longleftrightarrow> (\<forall>x y. fnum x = Some y \<longrightarrow> num_ok y \<and> fnum y = Some y)"

fun goval_canon :: "(string \<Rightarrow> string option) \<Rightarrow> nat \<Rightarrow> goval \<Rightarrow> bool" where
  "goval_canon fnum d (GNum n) = (num_ok n \<and> fnum n = Some n)"
| "goval_canon fnum d (GStr s) = utf8_valid s"
| "goval_canon fnum d (GArr vs) = (0 < d \<and> (\<forall>v\<in>set vs. goval_canon fnum (d - 1) v))"
| "goval_canon fnum d (GObj ms) =
     (0 < d \<and> distinct (map fst ms) \<and> sorted (map fst ms) \<and>
      (\<forall>(k, v)\<in>set ms. utf8_valid k \<and> goval_canon fnum (d - 1) v))"
| "goval_canon fnum d v = True"

lemma those_map_Some: "\<forall>x\<in>set xs. f x = Some (g x) \<Longrightarrow> those (map f xs) = Some (map g xs)"
  by (induction xs) auto

lemma those_SomeD: "those xs = Some ys \<Longrightarrow> map Some ys = xs"
  by (induction xs arbitrary: ys) (auto split: option.splits)

lemma map_inserts_distinct: "distinct (map fst m) \<Longrightarrow> distinct (map fst (map_inserts m kvs))"
  by (induction kvs arbitrary: m) (auto simp: map_inserts_def distinct_update)

lemma map_inserts_fresh:
  "distinct (map fst (m @ kvs)) \<Longrightarrow> map_inserts m kvs = m @ kvs"
proof (induction kvs arbitrary: m)
  case (Cons kv kvs)
  obtain k v where kv: "kv = (k, v)" by (cases kv)
  with Cons.prems have "AList.update k v m = m @ [(k, v)]"
    by (induction m) auto
  with Cons kv show ?case by (simp add: map_inserts_def)
qed (simp add: map_inserts_def)

lemma set_update_subset: "set (AList.update k v m) \<subseteq> insert (k, v) (set m)"
  by (induction m) auto

lemma set_map_inserts: "set (map_inserts m kvs) \<subseteq> set m \<union> set kvs"
proof (induction kvs arbitrary: m)
  case (Cons kv kvs)
  obtain k v where kv: "kv = (k, v)" by (cases kv)
  have "map_inserts m (kv # kvs) = map_inserts (AList.update k v m) kvs"
    by (simp add: map_inserts_def kv)
  with Cons.IH [of "AList.update k v m"] set_update_subset [of k v m] kv show ?case by auto
qed (simp add: map_inserts_def)

lemma go_map_of_props:
  "distinct (map fst (go_map_of kvs))" "sorted (map fst (go_map_of kvs))"
  "set (go_map_of kvs) \<subseteq> set kvs"
  using map_inserts_distinct [of "[]" kvs] set_map_inserts [of "[]" kvs]
  by (auto simp: go_map_of_def distinct_map)

lemma go_map_of_id:
  "distinct (map fst ms) \<Longrightarrow> sorted (map fst ms) \<Longrightarrow> go_map_of ms = ms"
  by (simp add: go_map_of_def map_inserts_fresh sort_key_id_if_sorted)

lemma from_goval_GObj_sorted:
  "sorted (map fst ms) \<Longrightarrow>
     from_goval (GObj ms) = JObj (map (\<lambda>(k, v). (quote k, from_goval v)) ms)"
  by (simp add: sort_key_id_if_sorted comp_def case_prod_beta)

lemma json_wf_from_goval: "goval_canon fnum d v \<Longrightarrow> json_wf d (from_goval v)"
proof (induction v arbitrary: d)
  case (GObj ms)
  then show ?case
    by (auto simp del: from_goval.simps simp: from_goval_GObj_sorted)
qed auto

lemma to_goval_from_goval: "goval_canon fnum d v \<Longrightarrow> to_goval fnum (from_goval v) = Some v"
proof (induction v arbitrary: d)
  case (GStr s)
  then show ?case by (simp add: unquote_quote)
next
  case (GArr vs)
  then have "\<forall>v\<in>set vs. to_goval fnum (from_goval v) = Some v" by auto
  then have "those (map (to_goval fnum \<circ> from_goval) vs) = Some (map (\<lambda>v. v) vs)"
    by (intro those_map_Some) simp
  then show ?case by simp
next
  case (GObj ms)
  let ?f = "\<lambda>(k, j). map_option (Pair (unquote k)) (to_goval fnum j)"
  have "(?f \<circ> (\<lambda>(k, v). (quote k, from_goval v))) m = Some m" if "m \<in> set ms" for m
  proof -
    obtain k v where m: "m = (k, v)" by (cases m)
    with that GObj.prems have "utf8_valid k" "goval_canon fnum (d - 1) v" by auto
    moreover have "to_goval fnum (from_goval v) = Some v"
      by (rule GObj.IH [of m]) (use that m calculation in auto)
    ultimately show ?thesis using m by (simp add: unquote_quote)
  qed
  then have "those (map (?f \<circ> (\<lambda>(k, v). (quote k, from_goval v))) ms) = Some (map (\<lambda>m. m) ms)"
    by (intro those_map_Some) blast
  with GObj.prems show ?case
    by (simp del: from_goval.simps add: from_goval_GObj_sorted go_map_of_id)
qed auto

lemma to_goval_canon:
  assumes "float_roundtrip fnum"
  shows "json_wf d j \<Longrightarrow> to_goval fnum j = Some v \<Longrightarrow> goval_canon fnum d v"
proof (induction j arbitrary: d v)
  case (JNum n)
  with assms show ?case by (auto simp: float_roundtrip_def)
next
  case (JStr s)
  then show ?case by (auto simp: utf8_valid_unquote)
next
  case (JArr js)
  then obtain vs where vs: "those (map (to_goval fnum) js) = Some vs" "v = GArr vs" by auto
  have "goval_canon fnum (d - 1) w" if "w \<in> set vs" for w
  proof -
    from that those_SomeD [OF vs(1)] have "Some w \<in> set (map (to_goval fnum) js)"
      by (metis image_eqI list.set_map)
    then obtain j where "j \<in> set js" "to_goval fnum j = Some w" by auto
    with JArr show ?thesis by simp
  qed
  with vs JArr.prems(1) show ?case by simp
next
  case (JObj ms)
  let ?f = "\<lambda>(k, j). map_option (Pair (unquote k)) (to_goval fnum j)"
  from JObj.prems obtain vs where vs: "those (map ?f ms) = Some vs" "v = GObj (go_map_of vs)" by auto
  have el: "utf8_valid k \<and> goval_canon fnum (d - 1) w" if "(k, w) \<in> set vs" for k w
  proof -
    from that those_SomeD [OF vs(1)] have "Some (k, w) \<in> set (map ?f ms)"
      by (metis image_eqI list.set_map)
    then obtain rk j where m: "(rk, j) \<in> set ms" "to_goval fnum j = Some w" "k = unquote rk"
      by (auto simp: eq_commute [of "Some _"])
    then have "goval_canon fnum (d - 1) w"
      using JObj.IH [of "(rk, j)" j "d - 1" w] JObj.prems(1) by auto
    with m show ?thesis by (simp add: utf8_valid_unquote)
  qed
  with vs JObj.prems(1) go_map_of_props [of vs] show ?case by auto
qed auto

end
