(* ===== verification/Decode.thy ===== *)
theory Decode
  imports JsonValue
begin

text \<open>
  \<^verbatim>\<open>decode/evm_rpc.go\<close>: the tables of JSON-RPC methods, the encoding of block tags as
  negative numbers, the decoding of a request body into an envelope, and the extraction of
  the block number a request refers to. Parameters of the model: \<open>newInt\<close> for
  \<^verbatim>\<open>cosmosmath.NewIntFromString\<close>, \<open>hexToHash\<close> for \<^verbatim>\<open>common.HexToHash\<close>, \<open>headerByHash\<close> for the
  block getter (the number of the header, or an error), \<open>fnum\<close> for float64 formatting.
\<close>

section \<open>Tables\<close>

definition BlockTagLatest :: string where "BlockTagLatest = ''latest''"
definition BlockTagPending :: string where "BlockTagPending = ''pending''"
definition BlockTagEarliest :: string where "BlockTagEarliest = ''earliest''"
definition BlockTagFinalized :: string where "BlockTagFinalized = ''finalized''"
definition BlockTagSafe :: string where "BlockTagSafe = ''safe''"
definition BlockTagEmpty :: string where "BlockTagEmpty = ''empty''"

lemmas block_tags = BlockTagLatest_def BlockTagPending_def BlockTagEarliest_def
  BlockTagFinalized_def BlockTagSafe_def BlockTagEmpty_def

definition CacheableByBlockNumberMethods :: "string list" where
  "CacheableByBlockNumberMethods =
     [''eth_getBalance'', ''eth_getStorageAt'', ''eth_getTransactionCount'',
      ''eth_getBlockTransactionCountByNumber'', ''eth_getUncleCountByBlockNumber'', ''eth_getCode'',
      ''eth_getBlockByNumber'', ''eth_getTransactionByBlockNumberAndIndex'',
      ''eth_getUncleByBlockNumberAndIndex'', ''eth_call'']"

definition CacheableByBlockHashMethods :: "string list" where
  "CacheableByBlockHashMethods =
     [''eth_getBlockTransactionCountByHash'', ''eth_getUncleCountByBlockHash'', ''eth_getBlockByHash'',
      ''eth_getUncleByBlockHashAndIndex'', ''eth_getTransactionByBlockHashAndIndex'']"

definition StaticMethods :: "string list" where
  "StaticMethods = [''eth_chainId'', ''net_version'']"

definition CacheableByTxHashMethods :: "string list" where
  "CacheableByTxHashMethods = [''eth_getTransactionReceipt'', ''eth_getTransactionByHash'']"

definition NoHistoryMethods :: "string list" where
  "NoHistoryMethods =
     [''web3_clientVersion'', ''web3_sha3'', ''net_version'', ''net_listening'', ''net_peerCount'',
      ''eth_protocolVersion'', ''eth_syncing'', ''eth_coinbase'', ''eth_chainId'', ''eth_mining'',
      ''eth_hashrate'', ''eth_gasPrice'', ''eth_accounts'', ''eth_blockNumber'', ''eth_sign'',
      ''eth_signTransaction'', ''eth_sendTransaction'', ''eth_sendRawTransaction'']"

definition OtherCacheableMethods :: "string list" where
  "OtherCacheableMethods =
     [''web3_clientVersion'', ''web3_sha3'', ''net_version'', ''net_listening'', ''net_peerCount'',
      ''eth_protocolVersion'', ''eth_syncing'', ''eth_coinbase'', ''eth_mining'', ''eth_hashrate'',
      ''eth_gasPrice'', ''eth_accounts'', ''eth_blockNumber'', ''eth_getTransactionByHash'',
      ''eth_getTransactionReceipt'', ''eth_getCompilers'', ''eth_getFilterChanges'',
      ''eth_getFilterLogs'', ''eth_getLogs'', ''eth_getWork'']"

definition CacheableEthMethods :: "string list" where
  "CacheableEthMethods =
     (CacheableByBlockNumberMethods @ CacheableByBlockHashMethods) @ OtherCacheableMethods"

definition MethodNameToBlockNumberParamIndex :: "(string, nat) gomap" where
  "MethodNameToBlockNumberParamIndex =
     [(''eth_getBalance'', 1), (''eth_getStorageAt'', 2), (''eth_getTransactionCount'', 1),
      (''eth_getBlockTransactionCountByNumber'', 0), (''eth_getUncleCountByBlockNumber'', 0),
      (''eth_getCode'', 1), (''eth_getBlockByNumber'', 0),
      (''eth_getTransactionByBlockNumberAndIndex'', 0), (''eth_getUncleByBlockNumberAndIndex'', 1),
      (''eth_call'', 1)]"

definition MethodNameToBlockHashParamIndex :: "(string, nat) gomap" where
  "MethodNameToBlockHashParamIndex =
     [(''eth_getBlockTransactionCountByHash'', 0), (''eth_getUncleCountByBlockHash'', 0),
      (''eth_getBlockByHash'', 0), (''eth_getUncleByBlockHashAndIndex'', 0),
      (''eth_getTransactionByBlockHashAndIndex'', 0)]"

definition BlockTagToNumberCodec :: "(string, int) gomap" where
  "BlockTagToNumberCodec =
     [(BlockTagLatest, -1), (BlockTagPending, -2), (BlockTagEarliest, -3),
      (BlockTagFinalized, -4), (BlockTagSafe, -5), (BlockTagEmpty, -6)]"

text \<open>Reading the codec at a key: Go gives the zero value for a missing one.\<close>

definition codec_at :: "string \<Rightarrow> int" where
  "codec_at tag = (case map_of BlockTagToNumberCodec tag of Some n \<Rightarrow> n | None \<Rightarrow> 0)"

section \<open>Method predicates\<close>

text \<open>The five loops that compare the method with each entry and stop at the first hit.\<close>

fun scan_methods :: "string \<Rightarrow> string list \<Rightarrow> bool" where
  "scan_methods method [] = False"
| "scan_methods method (m # ms) = (if method = m then True else scan_methods method ms)"

definition MethodHasBlockNumberParam :: "string \<Rightarrow> bool" where
  "MethodHasBlockNumberParam method = scan_methods method CacheableByBlockNumberMethods"

definition MethodHasBlockHashParam :: "string \<Rightarrow> bool" where
  "MethodHasBlockHashParam method = scan_methods method CacheableByBlockHashMethods"

definition IsMethodStatic :: "string \<Rightarrow> bool" where
  "IsMethodStatic method = scan_methods method StaticMethods"

definition MethodHasTxHashParam :: "string \<Rightarrow> bool" where
  "MethodHasTxHashParam method = scan_methods method CacheableByTxHashMethods"

definition MethodRequiresNoHistory :: "string \<Rightarrow> bool" where
  "MethodRequiresNoHistory method = scan_methods method NoHistoryMethods"

section \<open>The request envelope\<close>

datatype decode_error =
    ErrInvalidEthAPIRequest
  | ErrUncachaebleByBlockNumberEthRequest
  | ErrUncachaebleByBlockHashEthRequest
  | ErrBlockNumberParam
  | ErrBlockHashParam
  | ErrUnparsableTag string
  | ErrOutOfRange string
  | ErrHeaderByHash string
  | ErrLookupFromHash decode_error
  | ErrJson

text \<open>A nil \<^verbatim>\<open>Params\<close> slice is \<open>None\<close>: it marshals as \<^verbatim>\<open>null\<close>, an empty one as \<^verbatim>\<open>[]\<close>.\<close>

record EVMRPCRequestEnvelope =
  JSONRPCVersion :: string
  ID :: goval
  Method :: string
  Params :: "goval list option"

definition zero_envelope :: EVMRPCRequestEnvelope where
  "zero_envelope = \<lparr>JSONRPCVersion = [], ID = GNil, Method = [], Params = None\<rparr>"

text \<open>
  Field lookup of \<^verbatim>\<open>json.Unmarshal\<close>: an exact name or one equal under case folding. Besides
  the ASCII letters, U+017F folds to S and U+212A to K.
\<close>

function fold_name :: "string \<Rightarrow> string" where
  "fold_name [] = []"
| "fold_name (c # cs) =
     (if c = CHR 0xC5 \<and> take 1 cs = [CHR 0xBF] then CHR ''S'' # fold_name (drop 1 cs)
      else if c = CHR 0xE2 \<and> take 2 cs = [CHR 0x84, CHR 0xAA] then CHR ''K'' # fold_name (drop 2 cs)
      else (if 97 \<le> (of_char c :: nat) \<and> (of_char c :: nat) \<le> 122
            then char_of (of_char c - 32 :: nat) else c) # fold_name cs)"
  by pat_completeness auto
termination
  by (relation "measure length") auto

definition key_is :: "string \<Rightarrow> string \<Rightarrow> bool" where
  "key_is k name \<longleftrightarrow> fold_name k = fold_name name"

fun set_string :: "string \<Rightarrow> json \<Rightarrow> string option" where
  "set_string old JNull = Some old"
| "set_string old (JStr s) = Some (unquote s)"
| "set_string old _ = None"

fun set_params :: "(string \<Rightarrow> string option) \<Rightarrow> json \<Rightarrow> goval list option option" where
  "set_params fnum JNull = Some None"
| "set_params fnum (JArr js) = map_option Some (those (map (to_goval fnum) js))"
| "set_params fnum _ = None"

definition set_field ::
  "(string \<Rightarrow> string option) \<Rightarrow> EVMRPCRequestEnvelope \<Rightarrow> string \<times> json \<Rightarrow> EVMRPCRequestEnvelope option" where
  "set_field fnum e m =
     (case m of (rawk, j) \<Rightarrow>
       let k = unquote rawk in
       if key_is k ''jsonrpc'' then map_option (\<lambda>s. e\<lparr>JSONRPCVersion := s\<rparr>) (set_string (JSONRPCVersion e) j)
       else if key_is k ''ID'' then map_option (\<lambda>v. e\<lparr>ID := v\<rparr>) (to_goval fnum j)
       else if key_is k ''Method'' then map_option (\<lambda>s. e\<lparr>Method := s\<rparr>) (set_string (Method e) j)
       else if key_is k ''Params'' then map_option (\<lambda>p. e\<lparr>Params := p\<rparr>) (set_params fnum j)
       else Some e)"

fun set_fields ::
  "(string \<Rightarrow> string option) \<Rightarrow> EVMRPCRequestEnvelope \<Rightarrow> (string \<times> json) list \<Rightarrow> EVMRPCRequestEnvelope option" where
  "set_fields fnum e [] = Some e"
| "set_fields fnum e (m # ms) =
     (case set_field fnum e m of None \<Rightarrow> None | Some e' \<Rightarrow> set_fields fnum e' ms)"

fun unmarshal_envelope :: "(string \<Rightarrow> string option) \<Rightarrow> json \<Rightarrow> EVMRPCRequestEnvelope option" where
  "unmarshal_envelope fnum JNull = Some zero_envelope"
| "unmarshal_envelope fnum (JObj ms) = set_fields fnum zero_envelope ms"
| "unmarshal_envelope fnum _ = None"

definition DecodeEVMRPCRequest ::
  "(string \<Rightarrow> string option) \<Rightarrow> bytes \<Rightarrow> (decode_error, EVMRPCRequestEnvelope) result" where
  "DecodeEVMRPCRequest fnum body =
     (case json_parse body of
        None \<Rightarrow> Err ErrJson
      | Some j \<Rightarrow> (case unmarshal_envelope fnum j of None \<Rightarrow> Err ErrJson | Some e \<Rightarrow> Ok e))"

text \<open>A list of pointers: a \<^verbatim>\<open>null\<close> element decodes to a nil pointer.\<close>

fun unmarshal_pointer :: "(string \<Rightarrow> string option) \<Rightarrow> json \<Rightarrow> EVMRPCRequestEnvelope option option" where
  "unmarshal_pointer fnum JNull = Some None"
| "unmarshal_pointer fnum j = map_option Some (unmarshal_envelope fnum j)"

definition DecodeEVMRPCRequestList ::
  "(string \<Rightarrow> string option) \<Rightarrow> bytes \<Rightarrow> (decode_error, EVMRPCRequestEnvelope option list) result" where
  "DecodeEVMRPCRequestList fnum body =
     (case json_parse body of
        Some JNull \<Rightarrow> Ok []
      | Some (JArr js) \<Rightarrow>
          (case those (map (unmarshal_pointer fnum) js) of None \<Rightarrow> Err ErrJson | Some es \<Rightarrow> Ok es)
      | _ \<Rightarrow> Err ErrJson)"

text \<open>\<^verbatim>\<open>json.Marshal\<close> of an envelope and of its parameters.\<close>

definition marshal_params :: "goval list option \<Rightarrow> json" where
  "marshal_params ps = (case ps of None \<Rightarrow> JNull | Some vs \<Rightarrow> JArr (map from_goval vs))"

definition marshal_envelope :: "EVMRPCRequestEnvelope \<Rightarrow> json" where
  "marshal_envelope e =
     JObj [(''jsonrpc'', JStr (quote (JSONRPCVersion e))), (''ID'', from_goval (ID e)),
           (''Method'', JStr (quote (Method e))), (''Params'', marshal_params (Params e))]"

section \<open>Block numbers\<close>

text \<open>\<open>params[i]\<close> on a slice: \<open>None\<close> stands for the index panic.\<close>

definition param_at :: "goval list option \<Rightarrow> nat \<Rightarrow> goval option" where
  "param_at params i =
     (case params of None \<Rightarrow> None | Some ps \<Rightarrow> if i < length ps then Some (ps ! i) else None)"

definition blockParamToInt64 :: "(string \<Rightarrow> int option) \<Rightarrow> string \<Rightarrow> (decode_error, int) result" where
  "blockParamToInt64 newInt blockParam =
     (case newInt blockParam of
        None \<Rightarrow> Err (ErrUnparsableTag blockParam)
      | Some n \<Rightarrow> if \<not> in_int64 n then Err (ErrOutOfRange blockParam) else Ok n)"

definition ParseBlockNumberFromParams ::
  "(string \<Rightarrow> int option) \<Rightarrow> string \<Rightarrow> goval list option \<Rightarrow> (decode_error, int) result" where
  "ParseBlockNumberFromParams newInt methodName params =
     (case map_of MethodNameToBlockNumberParamIndex methodName of
        None \<Rightarrow> Err ErrUncachaebleByBlockNumberEthRequest
      | Some paramIndex \<Rightarrow>
          (case param_at params paramIndex of
             None \<Rightarrow> Panic IndexOutOfRange
           | Some GNil \<Rightarrow> Ok (codec_at ''empty'')
           | Some (GStr tag) \<Rightarrow>
               (case map_of BlockTagToNumberCodec tag of
                  Some blockNumber \<Rightarrow> Ok blockNumber
                | None \<Rightarrow> blockParamToInt64 newInt tag)
           | Some _ \<Rightarrow> Err ErrBlockNumberParam))"

definition lookupBlockNumberFromHashParam ::
  "(string \<Rightarrow> 'hash) \<Rightarrow> ('hash \<Rightarrow> string + int) \<Rightarrow> string \<Rightarrow> goval list option \<Rightarrow> (decode_error, int) result" where
  "lookupBlockNumberFromHashParam hexToHash headerByHash methodName params =
     (case map_of MethodNameToBlockHashParamIndex methodName of
        None \<Rightarrow> Err ErrUncachaebleByBlockHashEthRequest
      | Some paramIndex \<Rightarrow>
          (case param_at params paramIndex of
             None \<Rightarrow> Panic IndexOutOfRange
           | Some (GStr blockHash) \<Rightarrow>
               (case headerByHash (hexToHash blockHash) of
                  Inl err \<Rightarrow> Err (ErrHeaderByHash err)
                | Inr number \<Rightarrow> Ok (int64_wrap number))
           | Some _ \<Rightarrow> Err ErrBlockHashParam))"

definition ExtractBlockNumberFromEVMRPCRequest ::
  "(string \<Rightarrow> int option) \<Rightarrow> (string \<Rightarrow> 'hash) \<Rightarrow> ('hash \<Rightarrow> string + int) \<Rightarrow>
    EVMRPCRequestEnvelope \<Rightarrow> (decode_error, int) result" where
  "ExtractBlockNumberFromEVMRPCRequest newInt hexToHash headerByHash r =
     (if Method r = [] then Err ErrInvalidEthAPIRequest
      else if MethodHasBlockNumberParam (Method r)
        then ParseBlockNumberFromParams newInt (Method r) (Params r)
      else if MethodHasBlockHashParam (Method r)
        then (case lookupBlockNumberFromHashParam hexToHash headerByHash (Method r) (Params r) of
                Err e \<Rightarrow> Err (ErrLookupFromHash e)
              | res \<Rightarrow> res)
      else Err ErrUncachaebleByBlockNumberEthRequest)"

section \<open>Facts about the tables\<close>

lemma scan_methods_iff: "scan_methods m ms \<longleftrightarrow> m \<in> set ms"
  by (induction ms) auto

lemmas method_preds = MethodHasBlockNumberParam_def MethodHasBlockHashParam_def IsMethodStatic_def
  MethodHasTxHashParam_def MethodRequiresNoHistory_def scan_methods_iff

lemmas method_tables = CacheableByBlockNumberMethods_def CacheableByBlockHashMethods_def
  StaticMethods_def CacheableByTxHashMethods_def NoHistoryMethods_def

lemma codec_at_simps [simp]:
  "codec_at ''latest'' = -1" "codec_at ''pending'' = -2" "codec_at ''earliest'' = -3"
  "codec_at ''finalized'' = -4" "codec_at ''safe'' = -5" "codec_at ''empty'' = -6"
  by (simp_all add: codec_at_def BlockTagToNumberCodec_def block_tags)

lemma codec_range: "map_of BlockTagToNumberCodec tag = Some n \<Longrightarrow> -6 \<le> n \<and> n \<le> -1"
  by (auto simp: BlockTagToNumberCodec_def split: if_splits)

lemma codec_in_int64: "map_of BlockTagToNumberCodec tag = Some n \<Longrightarrow> in_int64 n"
  using codec_range [of tag n] by (auto simp: int64_defs)

lemma block_number_index_keys:
  "map fst MethodNameToBlockNumberParamIndex = CacheableByBlockNumberMethods"
  by (simp add: MethodNameToBlockNumberParamIndex_def CacheableByBlockNumberMethods_def)

lemma block_hash_index_keys:
  "map fst MethodNameToBlockHashParamIndex = CacheableByBlockHashMethods"
  by (simp add: MethodNameToBlockHashParamIndex_def CacheableByBlockHashMethods_def)

lemma MethodHasBlockNumberParam_iff:
  "MethodHasBlockNumberParam m \<longleftrightarrow> (\<exists>i. map_of MethodNameToBlockNumberParamIndex m = Some i)"
  unfolding method_preds block_number_index_keys [symmetric]
  by (metis list.set_map map_of_eq_None_iff not_None_eq)

lemma MethodHasBlockHashParam_iff:
  "MethodHasBlockHashParam m \<longleftrightarrow> (\<exists>i. map_of MethodNameToBlockHashParamIndex m = Some i)"
  unfolding method_preds block_hash_index_keys [symmetric]
  by (metis list.set_map map_of_eq_None_iff not_None_eq)

lemma method_classes_disjoint:
  "MethodHasBlockNumberParam m \<Longrightarrow> \<not> MethodHasBlockHashParam m \<and> \<not> IsMethodStatic m \<and>
     \<not> MethodHasTxHashParam m \<and> \<not> MethodRequiresNoHistory m"
  "MethodHasBlockHashParam m \<Longrightarrow> \<not> IsMethodStatic m \<and> \<not> MethodHasTxHashParam m \<and> \<not> MethodRequiresNoHistory m"
  "MethodHasTxHashParam m \<Longrightarrow> \<not> IsMethodStatic m \<and> \<not> MethodRequiresNoHistory m"
  by (auto simp: method_preds method_tables)

section \<open>Facts about block numbers\<close>

lemma param_at_None: "param_at ps i = None \<longleftrightarrow> length (case ps of None \<Rightarrow> [] | Some l \<Rightarrow> l) \<le> i"
  by (auto simp: param_at_def split: option.splits)

lemma blockParamToInt64_cases:
  "blockParamToInt64 newInt t = Ok n \<longleftrightarrow> newInt t = Some n \<and> in_int64 n"
  "blockParamToInt64 newInt t \<noteq> Panic p"
  by (auto simp: blockParamToInt64_def split: option.splits)

lemma ParseBlockNumber_panic_iff:
  "ParseBlockNumberFromParams newInt m ps = Panic p \<longleftrightarrow>
     p = IndexOutOfRange \<and> (\<exists>i. map_of MethodNameToBlockNumberParamIndex m = Some i \<and> param_at ps i = None)"
  by (auto simp: ParseBlockNumberFromParams_def blockParamToInt64_cases split: option.splits goval.splits)

lemma ParseBlockNumber_Ok_iff:
  "ParseBlockNumberFromParams newInt m ps = Ok n \<longleftrightarrow>
     (\<exists>i v. map_of MethodNameToBlockNumberParamIndex m = Some i \<and> param_at ps i = Some v \<and>
        (v = GNil \<and> n = -6 \<or>
         (\<exists>tag. v = GStr tag \<and>
           (map_of BlockTagToNumberCodec tag = Some n \<or>
            map_of BlockTagToNumberCodec tag = None \<and> newInt tag = Some n \<and> in_int64 n))))"
  by (auto simp: ParseBlockNumberFromParams_def blockParamToInt64_cases split: option.splits goval.splits)

lemma ParseBlockNumber_Ok_method: "ParseBlockNumberFromParams newInt m ps = Ok n \<Longrightarrow> MethodHasBlockNumberParam m"
  by (auto simp: ParseBlockNumber_Ok_iff MethodHasBlockNumberParam_iff)

lemma ParseBlockNumber_in_int64: "ParseBlockNumberFromParams newInt m ps = Ok n \<Longrightarrow> in_int64 n"
  by (auto simp: ParseBlockNumber_Ok_iff dest: codec_in_int64) (simp_all add: int64_defs)

section \<open>Marshalling a decoded envelope and decoding it again\<close>

lemma unquote_plain:
  "\<forall>c\<in>set s. c \<noteq> backslash \<and> (of_char c :: nat) < 128 \<Longrightarrow> unquote s = s"
  by (induction s) (simp_all add: unquote.simps)

lemma str_ok_plain:
  assumes "\<forall>c\<in>set s. c \<noteq> backslash \<and> c \<noteq> dquote \<and> 32 \<le> (of_char c :: nat)"
  shows "str_ok s"
  unfolding str_ok_def using assms by (induction s) auto

definition envelope_canon :: "(string \<Rightarrow> string option) \<Rightarrow> EVMRPCRequestEnvelope \<Rightarrow> bool" where
  "envelope_canon fnum e \<longleftrightarrow> utf8_valid (JSONRPCVersion e) \<and> utf8_valid (Method e) \<and>
     goval_canon fnum (max_nesting - 1) (ID e) \<and>
     (\<forall>vs. Params e = Some vs \<longrightarrow> (\<forall>v\<in>set vs. goval_canon fnum (max_nesting - 2) v))"

lemma set_fields_canon:
  assumes "float_roundtrip fnum" and "\<forall>(k, j)\<in>set ms. json_wf (max_nesting - 1) j"
    and "envelope_canon fnum e" and "set_fields fnum e ms = Some e'"
  shows "envelope_canon fnum e'"
  using assms(2-4)
proof (induction ms arbitrary: e)
  case (Cons m ms)
  obtain k j where m: "m = (k, j)" by (cases m)
  from Cons.prems obtain e1 where e1: "set_field fnum e m = Some e1" "set_fields fnum e1 ms = Some e'"
    by (auto split: option.splits)
  have wf: "json_wf (max_nesting - 1) j" using Cons.prems m by simp
  have str: "set_string old j = Some s \<Longrightarrow> utf8_valid old \<Longrightarrow> utf8_valid s" for old s
    by (cases j) (auto simp: utf8_valid_unquote)
  have val: "to_goval fnum j = Some v \<Longrightarrow> goval_canon fnum (max_nesting - 1) v" for v
    using to_goval_canon [OF assms(1) wf] .
  have par: "set_params fnum j = Some (Some vs) \<Longrightarrow> \<forall>v\<in>set vs. goval_canon fnum (max_nesting - 2) v" for vs
    using to_goval_canon [OF assms(1) wf, of "GArr vs"] by (cases j) (auto simp: max_nesting_def)
  have "envelope_canon fnum e1"
    using e1(1) m Cons.prems(2) str val par
    by (auto simp: set_field_def envelope_canon_def Let_def split: if_splits)
  with Cons e1 show ?case by auto
qed simp

lemma unmarshal_canon:
  assumes "float_roundtrip fnum" and "json_wf max_nesting j" and "unmarshal_envelope fnum j = Some e"
  shows "envelope_canon fnum e"
proof -
  have zero: "envelope_canon fnum zero_envelope" by (simp add: envelope_canon_def zero_envelope_def)
  show ?thesis
  proof (cases j)
    case (JObj ms)
    with assms(2) have "\<forall>(k, j)\<in>set ms. json_wf (max_nesting - 1) j" by auto
    with JObj assms(3) show ?thesis
      using set_fields_canon [OF assms(1) _ zero, of ms e] by simp
  qed (use assms zero in auto)
qed

lemma marshal_envelope_wf: "envelope_canon fnum e \<Longrightarrow> json_wf max_nesting (marshal_envelope e)"
  by (auto simp: marshal_envelope_def envelope_canon_def marshal_params_def max_nesting_def
      intro!: str_ok_plain json_wf_from_goval split: option.splits)

lemma envelope_keys:
  "unquote ''jsonrpc'' = ''jsonrpc''" "unquote ''ID'' = ''ID''"
  "unquote ''Method'' = ''Method''" "unquote ''Params'' = ''Params''"
  by (simp_all add: unquote_plain)

lemma set_params_marshal:
  assumes "envelope_canon fnum e"
  shows "set_params fnum (marshal_params (Params e)) = Some (Params e)"
proof (cases "Params e")
  case None
  then show ?thesis by (simp add: marshal_params_def)
next
  case (Some vs)
  with assms have "\<forall>v\<in>set vs. to_goval fnum (from_goval v) = Some v"
    by (auto simp: envelope_canon_def intro: to_goval_from_goval)
  then have "those (map (to_goval fnum \<circ> from_goval) vs) = Some (map (\<lambda>v. v) vs)"
    by (intro those_map_Some) simp
  with Some show ?thesis by (simp add: marshal_params_def)
qed

lemma unmarshal_marshal_envelope:
  assumes "envelope_canon fnum e"
  shows "unmarshal_envelope fnum (marshal_envelope e) = Some e"
proof -
  have "to_goval fnum (from_goval (ID e)) = Some (ID e)"
    using assms by (auto simp: envelope_canon_def intro: to_goval_from_goval)
  then show ?thesis
    using assms set_params_marshal [OF assms]
    by (simp add: marshal_envelope_def set_field_def envelope_keys key_is_def unquote_quote
        envelope_canon_def zero_envelope_def Let_def)
qed

text \<open>Concrete functions in the place of the number parameters, for the examples.\<close>

definition sample_num :: "string \<Rightarrow> string option" where
  "sample_num s = (if s = ''1'' then Some ''1'' else None)"

lemma sample_num_roundtrip: "float_roundtrip sample_num"
proof -
  have "num_ok ''1''" by code_simp
  then show ?thesis by (auto simp: float_roundtrip_def sample_num_def)
qed

definition newInt_decimal :: "string \<Rightarrow> int option" where
  "newInt_decimal s = map_option int (digits_value 10 0 s)"

section \<open>Properties\<close>

text \<open>C21: Decoding a request body and marshalling the envelope again loses nothing: the
  re-marshalled body, which the batch middleware sends to the backend, decodes to the same
  envelope. (Assumes only that printing a float64 and reading it back gives the same number.)\<close>

theorem decode_marshal_roundtrip:
  assumes "float_roundtrip fnum"
    and "DecodeEVMRPCRequest fnum body = Ok e"
  shows "DecodeEVMRPCRequest fnum (json_print (marshal_envelope e)) = Ok e"
proof -
  from assms(2) obtain j where "json_parse body = Some j" "unmarshal_envelope fnum j = Some e"
    by (auto simp: DecodeEVMRPCRequest_def split: option.splits)
  with assms(1) have canon: "envelope_canon fnum e"
    by (auto intro: unmarshal_canon json_parse_wf)
  then show ?thesis
    by (simp add: DecodeEVMRPCRequest_def json_parse_print [OF marshal_envelope_wf [OF canon]]
        unmarshal_marshal_envelope)
qed

theorem decode_marshal_roundtrip_witness:
  "DecodeEVMRPCRequest sample_num (json_print (marshal_envelope
      \<lparr>JSONRPCVersion = ''2.0'', ID = GNum ''1'', Method = ''eth_getCode'', Params = Some [GStr ''0xab'', GNil]\<rparr>)) =
    Ok \<lparr>JSONRPCVersion = ''2.0'', ID = GNum ''1'', Method = ''eth_getCode'', Params = Some [GStr ''0xab'', GNil]\<rparr>"
proof (rule decode_marshal_roundtrip [OF sample_num_roundtrip])
  show "DecodeEVMRPCRequest sample_num
      (CHR 0x7B # dquote # ''id'' @ dquote # '':1,'' @ dquote # ''jsonrpc'' @ dquote # '':'' @ dquote # ''2.0'' @ dquote #
       '','' @ dquote # ''method'' @ dquote # '':'' @ dquote # ''eth_getCode'' @ dquote # '','' @ dquote # ''params'' @ dquote # '':['' @
       dquote # ''0xab'' @ dquote # '',null]'' @ [CHR 0x7D]) =
    Ok \<lparr>JSONRPCVersion = ''2.0'', ID = GNum ''1'', Method = ''eth_getCode'', Params = Some [GStr ''0xab'', GNil]\<rparr>"
    by code_simp
qed

text \<open>Parsing the block number of a request panics, with an index out of range, exactly when
  the method has a block number position and the parameter list ends before it; every other
  request gets a number or an error value.\<close>

theorem block_number_panic_iff_params_short:
  "is_panic (ParseBlockNumberFromParams newInt m ps) \<longleftrightarrow>
     (\<exists>i. map_of MethodNameToBlockNumberParamIndex m = Some i \<and>
          length (case ps of None \<Rightarrow> [] | Some l \<Rightarrow> l) \<le> i)"
  by (simp add: is_panic_iff ParseBlockNumber_panic_iff param_at_None)

text \<open>C22: The number extracted from a request is exactly the one its block parameter names: each of the six
  tags has its own code, a missing value has the code of the empty tag, any other string is read
  as a number, which must be an int64. A parameter of another type, a literal that is not a
  number or does not fit, and a method without a block parameter give no number.\<close>

theorem parsed_block_number_meaning:
  "ParseBlockNumberFromParams newInt m ps = Ok n \<longleftrightarrow>
    MethodHasBlockNumberParam m \<and> in_int64 n \<and>
    (\<exists>i v. map_of MethodNameToBlockNumberParamIndex m = Some i \<and> param_at ps i = Some v \<and>
      (v = GNil \<and> n = -6 \<or>
       (\<exists>s. v = GStr s \<and>
         ((s, n) \<in> {(''latest'', -1), (''pending'', -2), (''earliest'', -3), (''finalized'', -4), (''safe'', -5), (''empty'', -6)} \<or>
          s \<notin> {''latest'', ''pending'', ''earliest'', ''finalized'', ''safe'', ''empty''} \<and> newInt s = Some n))))"
proof -
  have tag: "map_of BlockTagToNumberCodec s = Some k \<longleftrightarrow>
      (s, k) \<in> {(''latest'', -1), (''pending'', -2), (''earliest'', -3), (''finalized'', -4), (''safe'', -5), (''empty'', -6)}" for s k
    by (subst map_of_eq_Some_iff) (simp_all add: BlockTagToNumberCodec_def block_tags)
  have no_tag: "map_of BlockTagToNumberCodec s = None \<longleftrightarrow>
      s \<notin> {''latest'', ''pending'', ''earliest'', ''finalized'', ''safe'', ''empty''}" for s
    by (subst map_of_eq_None_iff) (simp add: BlockTagToNumberCodec_def block_tags)
  have guarded: "(A \<Longrightarrow> M) \<Longrightarrow> (A \<Longrightarrow> I) \<Longrightarrow> (I \<Longrightarrow> A = X) \<Longrightarrow> A \<longleftrightarrow> M \<and> I \<and> X" for A M I X by blast
  show ?thesis
  proof (rule guarded [OF ParseBlockNumber_Ok_method ParseBlockNumber_in_int64])
    assume "in_int64 n"
    then show "ParseBlockNumberFromParams newInt m ps = Ok n \<longleftrightarrow>
      (\<exists>i v. map_of MethodNameToBlockNumberParamIndex m = Some i \<and> param_at ps i = Some v \<and>
        (v = GNil \<and> n = -6 \<or>
         (\<exists>s. v = GStr s \<and>
           ((s, n) \<in> {(''latest'', -1), (''pending'', -2), (''earliest'', -3), (''finalized'', -4), (''safe'', -5), (''empty'', -6)} \<or>
            s \<notin> {''latest'', ''pending'', ''earliest'', ''finalized'', ''safe'', ''empty''} \<and> newInt s = Some n))))"
      by (simp only: ParseBlockNumber_Ok_iff tag no_tag simp_thms)
  qed
qed

theorem parsed_block_number_meaning_witness:
  "ParseBlockNumberFromParams newInt_decimal ''eth_getBlockByNumber'' (Some [GStr ''earliest'']) = Ok (-3) \<and>
   ParseBlockNumberFromParams newInt_decimal ''eth_getBlockByNumber'' (Some [GStr ''5'']) = Ok 5"
proof -
  have "MethodHasBlockNumberParam ''eth_getBlockByNumber''" "in_int64 5" "in_int64 (-3)" "newInt_decimal ''5'' = Some 5"
    "map_of MethodNameToBlockNumberParamIndex ''eth_getBlockByNumber'' = Some 0"
    "param_at (Some [GStr ''earliest'']) 0 = Some (GStr ''earliest'')" "param_at (Some [GStr ''5'']) 0 = Some (GStr ''5'')"
    by code_simp+
  then show ?thesis unfolding parsed_block_number_meaning by simp
qed

end
