(* ===== verification/IntervalMap.thy ===== *)
theory IntervalMap
  imports Strconv
begin

text \<open>
  \<^verbatim>\<open>config/intervalmap.go\<close>: the table of shard endpoints of one host. A table maps the last
  block height of each shard to the URL of the shard's backend; \<open>Lookup\<close> finds, by binary
  search over the sorted endpoints, the shard whose interval contains a height. The locale
  \<open>interval_lookup\<close> states what its client, the shard router, relies on.
\<close>

section \<open>Data\<close>

text \<open>
  A parsed URL is represented by the text its \<^verbatim>\<open>String\<close> method returns. A pointer to a URL
  carries the address of the allocation beside the (never mutated) URL it points to, because
  \<^verbatim>\<open>service/shard.go\<close> uses the pointers as map keys.
\<close>

type_synonym URL = string

datatype urlptr = UrlPtr (ptr_addr: nat) (ptr_url: URL)

record IntervalURLMap =
  UrlByEndHeight :: "(uint64, urlptr) gomap"
  endpoints :: "uint64 list"

section \<open>Operations\<close>

text \<open>\<^verbatim>\<open>sort.Search\<close>: the library's loop, with its overflow-free midpoint.\<close>

function sort_Search_loop :: "(nat \<Rightarrow> bool) \<Rightarrow> nat \<Rightarrow> nat \<Rightarrow> nat" where
  "sort_Search_loop f i j =
     (if i < j then
        (let h = (i + j) div 2 in
         if \<not> f h then sort_Search_loop f (h + 1) j else sort_Search_loop f i h)
      else i)"
  by pat_completeness auto
termination
  by (relation "measure (\<lambda>(f, i, j). j - i)") auto

declare sort_Search_loop.simps [simp del]

definition sort_Search :: "nat \<Rightarrow> (nat \<Rightarrow> bool) \<Rightarrow> nat" where
  "sort_Search n f = sort_Search_loop f 0 n"

definition NewIntervalURLMap :: "(uint64, urlptr) gomap \<Rightarrow> IntervalURLMap" where
  "NewIntervalURLMap urlByEndHeight =
     \<lparr>UrlByEndHeight = urlByEndHeight, endpoints = sort (map fst urlByEndHeight)\<rparr>"

definition Lookup :: "IntervalURLMap \<Rightarrow> uint64 \<Rightarrow> urlptr option \<times> uint64 \<times> bool" where
  "Lookup im num =
     (let es = endpoints im; i = sort_Search (length es) (\<lambda>i. num \<le> es ! i) in
      if i < length es \<and> num \<le> es ! i
      then (map_of (UrlByEndHeight im) (es ! i), es ! i, True)
      else (None, 0, False))"

text \<open>
  The invariant every table built by \<open>NewIntervalURLMap\<close> has: distinct keys, and the
  endpoints are exactly the keys in increasing order.
\<close>

definition interval_wf :: "IntervalURLMap \<Rightarrow> bool" where
  "interval_wf im \<longleftrightarrow> map_wf (UrlByEndHeight im) \<and>
     endpoints im = sort (map fst (UrlByEndHeight im))"

section \<open>Binary search\<close>

lemma sort_Search_loop_spec:
  assumes "\<And>a b. a \<le> b \<Longrightarrow> b < n \<Longrightarrow> f a \<Longrightarrow> f b"
    and "i \<le> j" and "j \<le> n"
    and "\<And>k. k < i \<Longrightarrow> \<not> f k" and "j < n \<Longrightarrow> f j"
  shows "sort_Search_loop f i j \<le> n \<and>
    (\<forall>k < sort_Search_loop f i j. \<not> f k) \<and>
    (sort_Search_loop f i j < n \<longrightarrow> f (sort_Search_loop f i j))"
  using assms
proof (induction f i j rule: sort_Search_loop.induct)
  case (1 f i j)
  show ?case
  proof (cases "i < j")
    case False
    then have "sort_Search_loop f i j = i" by (simp add: sort_Search_loop.simps [of f i j])
    with False "1.prems" show ?thesis by auto
  next
    case True
    let ?h = "(i + j) div 2"
    have h: "i \<le> ?h" "?h < j" "?h < n" using True "1.prems"(3) by auto
    show ?thesis
    proof (cases "f ?h")
      case True
      have "sort_Search_loop f i j = sort_Search_loop f i ?h"
        using \<open>i < j\<close> True by (simp add: sort_Search_loop.simps [of f i j] Let_def)
      moreover have "sort_Search_loop f i ?h \<le> n \<and> (\<forall>k < sort_Search_loop f i ?h. \<not> f k) \<and>
          (sort_Search_loop f i ?h < n \<longrightarrow> f (sort_Search_loop f i ?h))"
        by (rule "1.IH"(2)) (use \<open>i < j\<close> True h "1.prems" in auto)
      ultimately show ?thesis by simp
    next
      case False
      have below: "\<not> f k" if "k < ?h + 1" for k
        using that False h(3) "1.prems"(1) [of k ?h] by auto
      have "sort_Search_loop f i j = sort_Search_loop f (?h + 1) j"
        using \<open>i < j\<close> False by (simp add: sort_Search_loop.simps [of f i j] Let_def)
      moreover have "sort_Search_loop f (?h + 1) j \<le> n \<and>
          (\<forall>k < sort_Search_loop f (?h + 1) j. \<not> f k) \<and>
          (sort_Search_loop f (?h + 1) j < n \<longrightarrow> f (sort_Search_loop f (?h + 1) j))"
        by (rule "1.IH"(1)) (use \<open>i < j\<close> False h below "1.prems" in auto)
      ultimately show ?thesis by simp
    qed
  qed
qed

lemma sort_Search_spec:
  assumes "\<And>a b. a \<le> b \<Longrightarrow> b < n \<Longrightarrow> f a \<Longrightarrow> f b"
  shows "sort_Search n f \<le> n" and "k < sort_Search n f \<Longrightarrow> \<not> f k"
    and "sort_Search n f < n \<Longrightarrow> f (sort_Search n f)"
  using sort_Search_loop_spec [of n f 0 n] assms by (auto simp: sort_Search_def)

section \<open>The contract of the table\<close>

locale interval_lookup =
  fixes find :: "'m \<Rightarrow> uint64 \<Rightarrow> 'u option \<times> uint64 \<times> bool"
    and ends :: "'m \<Rightarrow> uint64 set"
    and url_at :: "'m \<Rightarrow> uint64 \<Rightarrow> 'u option"
    and invar :: "'m \<Rightarrow> bool"
  assumes find_found: "invar m \<Longrightarrow> find m h = (u, e, True) \<Longrightarrow>
      e \<in> ends m \<and> h \<le> e \<and> (\<forall>e'\<in>ends m. h \<le> e' \<longrightarrow> e \<le> e') \<and> u = url_at m e"
    and find_missing: "invar m \<Longrightarrow> find m h = (u, e, False) \<Longrightarrow>
      u = None \<and> e = 0 \<and> (\<forall>e'\<in>ends m. e' < h)"
    and url_defined: "invar m \<Longrightarrow> e \<in> ends m \<Longrightarrow> \<exists>u. url_at m e = Some u"
begin

lemma found_iff: "invar m \<Longrightarrow> (\<exists>u e. find m h = (u, e, True)) \<longleftrightarrow> (\<exists>e\<in>ends m. h \<le> e)"
  using find_found [of m h] find_missing [of m h] by (cases "find m h") (metis not_less)

lemma found_url: "invar m \<Longrightarrow> find m h = (u, e, True) \<Longrightarrow> \<exists>p. u = Some p \<and> url_at m e = Some p"
  using find_found [of m h u e] url_defined [of m e] by auto

lemma same_interval:
  assumes "invar m" and "find m h = (u, e, True)" and "h \<le> h'" and "h' \<le> e"
  shows "find m h' = (u, e, True)"
proof -
  obtain u' e' b where r: "find m h' = (u', e', b)" by (cases "find m h'")
  from assms have e: "e \<in> ends m" and least: "\<forall>x\<in>ends m. h \<le> x \<longrightarrow> e \<le> x" and u: "u = url_at m e"
    using find_found by blast+
  have b using r e assms(1,4) find_missing by (cases b) (auto dest: leD)
  with r assms(1) have "e' \<in> ends m" "h' \<le> e'" "\<forall>x\<in>ends m. h' \<le> x \<longrightarrow> e' \<le> x" "u' = url_at m e'"
    using find_found [of m h' u' e'] by auto
  with e least assms(3,4) have "e' = e" by (meson order_antisym order_trans)
  with r u \<open>u' = url_at m e'\<close> \<open>b\<close> show ?thesis by simp
qed

lemma found_mono:
  assumes "invar m" and "find m h = (u, e, True)" and "find m h' = (u', e', True)" and "h \<le> h'"
  shows "e \<le> e'"
  using assms find_found by (meson order_trans)

end

section \<open>The implementation meets the contract\<close>

lemma NewIntervalURLMap_wf [simp, intro]: "map_wf m \<Longrightarrow> interval_wf (NewIntervalURLMap m)"
  by (simp add: interval_wf_def NewIntervalURLMap_def)

lemma interval_wf_endpoints:
  assumes "interval_wf im"
  shows "sorted (endpoints im)" and "distinct (endpoints im)"
    and "set (endpoints im) = fst ` set (UrlByEndHeight im)"
  using assms by (auto simp: interval_wf_def map_wf_def)

lemma Lookup_search:
  fixes num :: uint64
  assumes "interval_wf im"
  defines "i \<equiv> sort_Search (length (endpoints im)) (\<lambda>i. num \<le> endpoints im ! i)"
  shows "i \<le> length (endpoints im)"
    and "k < i \<Longrightarrow> endpoints im ! k < num"
    and "i < length (endpoints im) \<Longrightarrow> num \<le> endpoints im ! i"
proof -
  let ?f = "\<lambda>i. num \<le> endpoints im ! i"
  have mono: "?f b" if "a \<le> b" "b < length (endpoints im)" "?f a" for a b
    using that interval_wf_endpoints(1) [OF assms(1)] by (meson order_trans sorted_nth_mono)
  show "i \<le> length (endpoints im)"
    unfolding i_def by (rule sort_Search_spec(1)) (rule mono)
  show "k < i \<Longrightarrow> endpoints im ! k < num"
    using sort_Search_spec(2) [of "length (endpoints im)" ?f k, OF mono]
    by (simp add: i_def not_le)
  show "i < length (endpoints im) \<Longrightarrow> num \<le> endpoints im ! i"
    unfolding i_def by (rule sort_Search_spec(3) [of _ ?f]) (rule mono)
qed

lemma Lookup_found:
  assumes "interval_wf im" and "Lookup im num = (u, e, True)"
  shows "e \<in> set (endpoints im) \<and> num \<le> e \<and> (\<forall>e'\<in>set (endpoints im). num \<le> e' \<longrightarrow> e \<le> e') \<and>
    u = map_of (UrlByEndHeight im) e"
proof -
  let ?es = "endpoints im"
  let ?i = "sort_Search (length ?es) (\<lambda>i. num \<le> ?es ! i)"
  from assms(2) have i: "?i < length ?es" "num \<le> ?es ! ?i" "e = ?es ! ?i"
    "u = map_of (UrlByEndHeight im) e"
    by (auto simp: Lookup_def Let_def split: if_splits)
  have "e \<le> e'" if "e' \<in> set ?es" "num \<le> e'" for e'
  proof -
    from that(1) obtain k where k: "k < length ?es" "e' = ?es ! k" by (auto simp: in_set_conv_nth)
    with that(2) Lookup_search(2) [OF assms(1), of k num] have "?i \<le> k" by (meson not_le not_less)
    with k i interval_wf_endpoints(1) [OF assms(1)] show ?thesis by (simp add: sorted_nth_mono)
  qed
  with i show ?thesis by auto
qed

lemma Lookup_missing:
  assumes "interval_wf im" and "Lookup im num = (u, e, False)"
  shows "u = None \<and> e = 0 \<and> (\<forall>e'\<in>set (endpoints im). e' < num)"
proof -
  let ?es = "endpoints im"
  let ?i = "sort_Search (length ?es) (\<lambda>i. num \<le> ?es ! i)"
  from assms(2) have "\<not> (?i < length ?es \<and> num \<le> ?es ! ?i)" and u: "u = None" "e = 0"
    by (auto simp: Lookup_def Let_def split: if_splits)
  with Lookup_search(3) [OF assms(1), of num] have i: "length ?es \<le> ?i" by linarith
  have "e' < num" if "e' \<in> set ?es" for e'
  proof -
    from that obtain k where "k < length ?es" "e' = ?es ! k" by (auto simp: in_set_conv_nth)
    with i Lookup_search(2) [OF assms(1), of k num] show ?thesis by simp
  qed
  with u show ?thesis by simp
qed

interpretation shards: interval_lookup Lookup "\<lambda>im. set (endpoints im)"
  "\<lambda>im. map_of (UrlByEndHeight im)" interval_wf
proof (unfold_locales, goal_cases)
  case (1 m h u e) then show ?case by (rule Lookup_found)
next
  case (2 m h u e) then show ?case by (rule Lookup_missing)
next
  case (3 m e)
  then have "e \<in> fst ` set (UrlByEndHeight m)" by (simp add: interval_wf_endpoints(3))
  then show ?case using map_of_eq_None_iff [of "UrlByEndHeight m" e] by auto
qed

end
