(* ===== verification/ConfigData.thy ===== *)
theory ConfigData
  imports IntervalMap
begin

text \<open>
  \<^verbatim>\<open>config/config.go\<close>, data part: the configuration record, the names of the environment
  variables and the default values. Durations are int64 nanoseconds, plain integers are
  64-bit, a URL is the text of its \<^verbatim>\<open>String\<close> method.
\<close>

section \<open>The configuration\<close>

record Config =
  ProxyServicePort :: string
  LogLevel :: string
  ProxyBackendHostURLMapRaw :: string
  ProxyBackendHostURLMapParsed :: "(string, URL) gomap"
  EnableHeightBasedRouting :: bool
  ProxyPruningBackendHostURLMapRaw :: string
  ProxyPruningBackendHostURLMap :: "(string, URL) gomap"
  EnableShardedRouting :: bool
  ProxyShardBackendHostURLMapRaw :: string
  ProxyShardBackendHostURLMap :: "(string, IntervalURLMap) gomap"
  ProxyMaximumBatchSize :: int
  EvmQueryServiceURL :: string
  DatabaseName :: string
  DatabaseEndpointURL :: string
  DatabaseUserName :: string
  DatabasePassword :: string
  DatabaseReadTimeoutSeconds :: int
  DatabaseWriteTimeoutSeconds :: int
  DatabaseSSLEnabled :: bool
  DatabaseQueryLoggingEnabled :: bool
  DatabaseMaxIdleConnections :: int
  DatabaseConnectionMaxIdleSeconds :: int
  DatabaseMaxOpenConnections :: int
  RunDatabaseMigrations :: bool
  HTTPReadTimeoutSeconds :: int
  HTTPWriteTimeoutSeconds :: int
  MetricCompactionRoutineInterval :: int
  MetricCollectionEnabled :: bool
  MetricPartitioningRoutineInterval :: int
  MetricPartitioningRoutineDelayFirstRun :: int
  MetricPartitioningPrefillPeriodDays :: int
  MetricPruningEnabled :: bool
  MetricPruningRoutineInterval :: int
  MetricPruningRoutineDelayFirstRun :: int
  MetricPruningMaxRequestMetricsHistoryDays :: int
  MetricDatabaseEnabled :: bool
  CacheEnabled :: bool
  RedisEndpointURL :: string
  RedisPassword :: string
  CacheMethodHasBlockNumberParamTTL :: int
  CacheMethodHasBlockHashParamTTL :: int
  CacheStaticMethodTTL :: int
  CacheMethodHasTxHashParamTTL :: int
  CachePrefix :: string
  WhitelistedHeaders :: "string list"
  DefaultAccessControlAllowOriginValue :: string
  HostnameToAccessControlAllowOriginValueMapRaw :: string
  HostnameToAccessControlAllowOriginValueMap :: "(string, string) gomap"

section \<open>Environment variable names and defaults\<close>

definition LOG_LEVEL_ENVIRONMENT_KEY :: string where "LOG_LEVEL_ENVIRONMENT_KEY = ''LOG_LEVEL''"
definition DEFAULT_LOG_LEVEL :: string where "DEFAULT_LOG_LEVEL = ''INFO''"
definition PROXY_BACKEND_HOST_URL_MAP_ENVIRONMENT_KEY :: string where "PROXY_BACKEND_HOST_URL_MAP_ENVIRONMENT_KEY = ''PROXY_BACKEND_HOST_URL_MAP''"
definition PROXY_HEIGHT_BASED_ROUTING_ENABLED_KEY :: string where "PROXY_HEIGHT_BASED_ROUTING_ENABLED_KEY = ''PROXY_HEIGHT_BASED_ROUTING_ENABLED''"
definition PROXY_PRUNING_BACKEND_HOST_URL_MAP_ENVIRONMENT_KEY :: string where "PROXY_PRUNING_BACKEND_HOST_URL_MAP_ENVIRONMENT_KEY = ''PROXY_PRUNING_BACKEND_HOST_URL_MAP''"
definition PROXY_SHARDED_ROUTING_ENABLED_ENVIRONMENT_KEY :: string where "PROXY_SHARDED_ROUTING_ENABLED_ENVIRONMENT_KEY = ''PROXY_SHARDED_ROUTING_ENABLED''"
definition PROXY_SHARD_BACKEND_HOST_URL_MAP_ENVIRONMENT_KEY :: string where "PROXY_SHARD_BACKEND_HOST_URL_MAP_ENVIRONMENT_KEY = ''PROXY_SHARD_BACKEND_HOST_URL_MAP''"
definition PROXY_MAXIMUM_BATCH_SIZE_ENVIRONMENT_KEY :: string where "PROXY_MAXIMUM_BATCH_SIZE_ENVIRONMENT_KEY = ''PROXY_MAXIMUM_REQ_BATCH_SIZE''"
definition DEFAULT_PROXY_MAXIMUM_BATCH_SIZE :: int where "DEFAULT_PROXY_MAXIMUM_BATCH_SIZE = 500"
definition PROXY_SERVICE_PORT_ENVIRONMENT_KEY :: string where "PROXY_SERVICE_PORT_ENVIRONMENT_KEY = ''PROXY_SERVICE_PORT''"
definition DATABASE_NAME_ENVIRONMENT_KEY :: string where "DATABASE_NAME_ENVIRONMENT_KEY = ''DATABASE_NAME''"
definition DATABASE_ENDPOINT_URL_ENVIRONMENT_KEY :: string where "DATABASE_ENDPOINT_URL_ENVIRONMENT_KEY = ''DATABASE_ENDPOINT_URL''"
definition DATABASE_USERNAME_ENVIRONMENT_KEY :: string where "DATABASE_USERNAME_ENVIRONMENT_KEY = ''DATABASE_USERNAME''"
definition DATABASE_PASSWORD_ENVIRONMENT_KEY :: string where "DATABASE_PASSWORD_ENVIRONMENT_KEY = ''DATABASE_PASSWORD''"
definition DATABASE_SSL_ENABLED_ENVIRONMENT_KEY :: string where "DATABASE_SSL_ENABLED_ENVIRONMENT_KEY = ''DATABASE_SSL_ENABLED''"
definition DATABASE_QUERY_LOGGING_ENABLED_ENVIRONMENT_KEY :: string where "DATABASE_QUERY_LOGGING_ENABLED_ENVIRONMENT_KEY = ''DATABASE_QUERY_LOGGING_ENABLED''"
definition RUN_DATABASE_MIGRATIONS_ENVIRONMENT_KEY :: string where "RUN_DATABASE_MIGRATIONS_ENVIRONMENT_KEY = ''RUN_DATABASE_MIGRATIONS''"
definition DEFAULT_HTTP_READ_TIMEOUT :: int where "DEFAULT_HTTP_READ_TIMEOUT = 30"
definition DEFAULT_HTTP_WRITE_TIMEOUT :: int where "DEFAULT_HTTP_WRITE_TIMEOUT = 60"
definition HTTP_READ_TIMEOUT_ENVIRONMENT_KEY :: string where "HTTP_READ_TIMEOUT_ENVIRONMENT_KEY = ''HTTP_READ_TIMEOUT_SECONDS''"
definition HTTP_WRITE_TIMEOUT_ENVIRONMENT_KEY :: string where "HTTP_WRITE_TIMEOUT_ENVIRONMENT_KEY = ''HTTP_WRITE_TIMEOUT_SECONDS''"
definition METRIC_COMPACTION_ROUTINE_INTERVAL_ENVIRONMENT_KEY :: string where "METRIC_COMPACTION_ROUTINE_INTERVAL_ENVIRONMENT_KEY = ''METRIC_COMPACTION_ROUTINE_INTERVAL_SECONDS''"
definition METRIC_COLLECTION_ENABLED_ENVIRONMENT_KEY :: string where "METRIC_COLLECTION_ENABLED_ENVIRONMENT_KEY = ''METRIC_COLLECTION_ENABLED''"
definition DEFAULT_METRIC_COLLECTION_ENABLED :: bool where "DEFAULT_METRIC_COLLECTION_ENABLED = True"
definition DEFAULT_METRIC_COMPACTION_ROUTINE_INTERVAL_SECONDS :: int where "DEFAULT_METRIC_COMPACTION_ROUTINE_INTERVAL_SECONDS = 3600"
definition METRIC_PARTITIONING_ROUTINE_INTERVAL_SECONDS_ENVIRONMENT_KEY :: string where "METRIC_PARTITIONING_ROUTINE_INTERVAL_SECONDS_ENVIRONMENT_KEY = ''METRIC_PARTITIONING_ROUTINE_INTERVAL_SECONDS''"
definition DEFAULT_METRIC_PARTITIONING_ROUTINE_INTERVAL_SECONDS :: int where "DEFAULT_METRIC_PARTITIONING_ROUTINE_INTERVAL_SECONDS = 86400"
definition METRIC_PARTITIONING_ROUTINE_DELAY_FIRST_RUN_SECONDS_ENVIRONMENT_KEY :: string where "METRIC_PARTITIONING_ROUTINE_DELAY_FIRST_RUN_SECONDS_ENVIRONMENT_KEY = ''METRIC_PARTITIONING_ROUTINE_DELAY_FIRST_RUN_SECONDS''"
definition DEFAULT_METRIC_PARTITIONING_ROUTINE_DELAY_FIRST_RUN_SECONDS :: int where "DEFAULT_METRIC_PARTITIONING_ROUTINE_DELAY_FIRST_RUN_SECONDS = 10"
definition METRIC_PARTITIONING_PREFILL_PERIOD_DAYS_ENVIRONMENT_KEY :: string where "METRIC_PARTITIONING_PREFILL_PERIOD_DAYS_ENVIRONMENT_KEY = ''METRIC_PARTITIONING_PREFILL_PERIOD_DAYS''"
definition DEFAULT_METRIC_PARTITIONING_PREFILL_PERIOD_DAYS :: int where "DEFAULT_METRIC_PARTITIONING_PREFILL_PERIOD_DAYS = 7"
definition METRIC_PRUNING_ENABLED_ENVIRONMENT_KEY :: string where "METRIC_PRUNING_ENABLED_ENVIRONMENT_KEY = ''METRIC_PRUNING_ENABLED''"
definition DEFAULT_METRIC_PRUNING_ENABLED :: bool where "DEFAULT_METRIC_PRUNING_ENABLED = True"
definition METRIC_PRUNING_ROUTINE_INTERVAL_SECONDS_ENVIRONMENT_KEY :: string where "METRIC_PRUNING_ROUTINE_INTERVAL_SECONDS_ENVIRONMENT_KEY = ''METRIC_PRUNING_ROUTINE_INTERVAL_SECONDS''"
definition METRIC_DATABASE_ENABLED_ENVIRONMENT_KEY :: string where "METRIC_DATABASE_ENABLED_ENVIRONMENT_KEY = ''METRIC_DATABASE_ENABLED''"
definition DEFAULT_METRIC_DATABASE_ENABLED :: bool where "DEFAULT_METRIC_DATABASE_ENABLED = True"
definition DEFAULT_METRIC_PRUNING_ROUTINE_INTERVAL_SECONDS :: int where "DEFAULT_METRIC_PRUNING_ROUTINE_INTERVAL_SECONDS = 86400"
definition METRIC_PRUNING_ROUTINE_DELAY_FIRST_RUN_SECONDS_ENVIRONMENT_KEY :: string where "METRIC_PRUNING_ROUTINE_DELAY_FIRST_RUN_SECONDS_ENVIRONMENT_KEY = ''METRIC_PRUNING_ROUTINE_DELAY_FIRST_RUN_SECONDS''"
definition DEFAULT_METRIC_PRUNING_ROUTINE_DELAY_FIRST_RUN_SECONDS :: int where "DEFAULT_METRIC_PRUNING_ROUTINE_DELAY_FIRST_RUN_SECONDS = 10"
definition METRIC_PRUNING_MAX_REQUEST_METRICS_HISTORY_DAYS_ENVIRONMENT_KEY :: string where "METRIC_PRUNING_MAX_REQUEST_METRICS_HISTORY_DAYS_ENVIRONMENT_KEY = ''METRIC_PRUNING_MAX_REQUEST_METRICS_HISTORY_DAYS''"
definition DEFAULT_METRIC_PRUNING_MAX_REQUEST_METRICS_HISTORY_DAYS :: int where "DEFAULT_METRIC_PRUNING_MAX_REQUEST_METRICS_HISTORY_DAYS = 45"
definition EVM_QUERY_SERVICE_ENVIRONMENT_KEY :: string where "EVM_QUERY_SERVICE_ENVIRONMENT_KEY = ''EVM_QUERY_SERVICE_URL''"
definition DATABASE_MAX_IDLE_CONNECTIONS_ENVIRONMENT_KEY :: string where "DATABASE_MAX_IDLE_CONNECTIONS_ENVIRONMENT_KEY = ''DATABASE_MAX_IDLE_CONNECTIONS''"
definition DEFAULT_DATABASE_MAX_IDLE_CONNECTIONS :: int where "DEFAULT_DATABASE_MAX_IDLE_CONNECTIONS = 20"
definition DATABASE_CONNECTION_MAX_IDLE_SECONDS_ENVIRONMENT_KEY :: string where "DATABASE_CONNECTION_MAX_IDLE_SECONDS_ENVIRONMENT_KEY = ''DATABASE_CONNECTION_MAX_IDLE_SECONDS''"
definition DEFAULT_DATABASE_CONNECTION_MAX_IDLE_SECONDS :: int where "DEFAULT_DATABASE_CONNECTION_MAX_IDLE_SECONDS = 5"
definition DATABASE_MAX_OPEN_CONNECTIONS_ENVIRONMENT_KEY :: string where "DATABASE_MAX_OPEN_CONNECTIONS_ENVIRONMENT_KEY = ''DATABASE_MAX_OPEN_CONNECTIONS''"
definition DEFAULT_DATABASE_MAX_OPEN_CONNECTIONS :: int where "DEFAULT_DATABASE_MAX_OPEN_CONNECTIONS = 100"
definition DATABASE_READ_TIMEOUT_SECONDS_ENVIRONMENT_KEY :: string where "DATABASE_READ_TIMEOUT_SECONDS_ENVIRONMENT_KEY = ''DATABASE_READ_TIMEOUT_SECONDS''"
definition DEFAULT_DATABASE_READ_TIMEOUT_SECONDS :: int where "DEFAULT_DATABASE_READ_TIMEOUT_SECONDS = 60"
definition DATABASE_WRITE_TIMEOUT_SECONDS_ENVIRONMENT_KEY :: string where "DATABASE_WRITE_TIMEOUT_SECONDS_ENVIRONMENT_KEY = ''DATABASE_WRITE_TIMEOUT_SECONDS''"
definition DEFAULT_DATABASE_WRITE_TIMEOUT_SECONDS :: int where "DEFAULT_DATABASE_WRITE_TIMEOUT_SECONDS = 10"
definition CACHE_ENABLED_ENVIRONMENT_KEY :: string where "CACHE_ENABLED_ENVIRONMENT_KEY = ''CACHE_ENABLED''"
definition REDIS_ENDPOINT_URL_ENVIRONMENT_KEY :: string where "REDIS_ENDPOINT_URL_ENVIRONMENT_KEY = ''REDIS_ENDPOINT_URL''"
definition REDIS_PASSWORD_ENVIRONMENT_KEY :: string where "REDIS_PASSWORD_ENVIRONMENT_KEY = ''REDIS_PASSWORD''"
definition CACHE_METHOD_HAS_BLOCK_NUMBER_PARAM_TTL_ENVIRONMENT_KEY :: string where "CACHE_METHOD_HAS_BLOCK_NUMBER_PARAM_TTL_ENVIRONMENT_KEY = ''CACHE_METHOD_HAS_BLOCK_NUMBER_PARAM_TTL_SECONDS''"
definition CACHE_METHOD_HAS_BLOCK_HASH_PARAM_TTL_ENVIRONMENT_KEY :: string where "CACHE_METHOD_HAS_BLOCK_HASH_PARAM_TTL_ENVIRONMENT_KEY = ''CACHE_METHOD_HAS_BLOCK_HASH_PARAM_TTL_SECONDS''"
definition CACHE_STATIC_METHOD_TTL_ENVIRONMENT_KEY :: string where "CACHE_STATIC_METHOD_TTL_ENVIRONMENT_KEY = ''CACHE_STATIC_METHOD_TTL_SECONDS''"
definition CACHE_METHOD_HAS_TX_HASH_PARAM_TTL_ENVIRONMENT_KEY :: string where "CACHE_METHOD_HAS_TX_HASH_PARAM_TTL_ENVIRONMENT_KEY = ''CACHE_METHOD_HAS_TX_HASH_PARAM_TTL_SECONDS''"
definition CACHE_PREFIX_ENVIRONMENT_KEY :: string where "CACHE_PREFIX_ENVIRONMENT_KEY = ''CACHE_PREFIX''"
definition WHITELISTED_HEADERS_ENVIRONMENT_KEY :: string where "WHITELISTED_HEADERS_ENVIRONMENT_KEY = ''WHITELISTED_HEADERS''"
definition DEFAULT_ACCESS_CONTROL_ALLOW_ORIGIN_VALUE_ENVIRONMENT_KEY :: string where "DEFAULT_ACCESS_CONTROL_ALLOW_ORIGIN_VALUE_ENVIRONMENT_KEY = ''DEFAULT_ACCESS_CONTROL_ALLOW_ORIGIN_VALUE''"
definition HOSTNAME_TO_ACCESS_CONTROL_ALLOW_ORIGIN_VALUE_MAP_ENVIRONMENT_KEY :: string where "HOSTNAME_TO_ACCESS_CONTROL_ALLOW_ORIGIN_VALUE_MAP_ENVIRONMENT_KEY = ''HOSTNAME_TO_ACCESS_CONTROL_ALLOW_ORIGIN_VALUE_MAP''"

lemmas env_keys =
  LOG_LEVEL_ENVIRONMENT_KEY_def
  PROXY_BACKEND_HOST_URL_MAP_ENVIRONMENT_KEY_def
  PROXY_HEIGHT_BASED_ROUTING_ENABLED_KEY_def
  PROXY_PRUNING_BACKEND_HOST_URL_MAP_ENVIRONMENT_KEY_def
  PROXY_SHARDED_ROUTING_ENABLED_ENVIRONMENT_KEY_def
  PROXY_SHARD_BACKEND_HOST_URL_MAP_ENVIRONMENT_KEY_def
  PROXY_MAXIMUM_BATCH_SIZE_ENVIRONMENT_KEY_def
  PROXY_SERVICE_PORT_ENVIRONMENT_KEY_def
  DATABASE_NAME_ENVIRONMENT_KEY_def
  DATABASE_ENDPOINT_URL_ENVIRONMENT_KEY_def
  DATABASE_USERNAME_ENVIRONMENT_KEY_def
  DATABASE_PASSWORD_ENVIRONMENT_KEY_def
  DATABASE_SSL_ENABLED_ENVIRONMENT_KEY_def
  DATABASE_QUERY_LOGGING_ENABLED_ENVIRONMENT_KEY_def
  RUN_DATABASE_MIGRATIONS_ENVIRONMENT_KEY_def
  HTTP_READ_TIMEOUT_ENVIRONMENT_KEY_def
  HTTP_WRITE_TIMEOUT_ENVIRONMENT_KEY_def
  METRIC_COMPACTION_ROUTINE_INTERVAL_ENVIRONMENT_KEY_def
  METRIC_COLLECTION_ENABLED_ENVIRONMENT_KEY_def
  METRIC_PARTITIONING_ROUTINE_INTERVAL_SECONDS_ENVIRONMENT_KEY_def
  METRIC_PARTITIONING_ROUTINE_DELAY_FIRST_RUN_SECONDS_ENVIRONMENT_KEY_def
  METRIC_PARTITIONING_PREFILL_PERIOD_DAYS_ENVIRONMENT_KEY_def
  METRIC_PRUNING_ENABLED_ENVIRONMENT_KEY_def
  METRIC_PRUNING_ROUTINE_INTERVAL_SECONDS_ENVIRONMENT_KEY_def
  METRIC_DATABASE_ENABLED_ENVIRONMENT_KEY_def
  METRIC_PRUNING_ROUTINE_DELAY_FIRST_RUN_SECONDS_ENVIRONMENT_KEY_def
  METRIC_PRUNING_MAX_REQUEST_METRICS_HISTORY_DAYS_ENVIRONMENT_KEY_def
  EVM_QUERY_SERVICE_ENVIRONMENT_KEY_def
  DATABASE_MAX_IDLE_CONNECTIONS_ENVIRONMENT_KEY_def
  DATABASE_CONNECTION_MAX_IDLE_SECONDS_ENVIRONMENT_KEY_def
  DATABASE_MAX_OPEN_CONNECTIONS_ENVIRONMENT_KEY_def
  DATABASE_READ_TIMEOUT_SECONDS_ENVIRONMENT_KEY_def
  DATABASE_WRITE_TIMEOUT_SECONDS_ENVIRONMENT_KEY_def
  CACHE_ENABLED_ENVIRONMENT_KEY_def
  REDIS_ENDPOINT_URL_ENVIRONMENT_KEY_def
  REDIS_PASSWORD_ENVIRONMENT_KEY_def
  CACHE_METHOD_HAS_BLOCK_NUMBER_PARAM_TTL_ENVIRONMENT_KEY_def
  CACHE_METHOD_HAS_BLOCK_HASH_PARAM_TTL_ENVIRONMENT_KEY_def
  CACHE_STATIC_METHOD_TTL_ENVIRONMENT_KEY_def
  CACHE_METHOD_HAS_TX_HASH_PARAM_TTL_ENVIRONMENT_KEY_def
  CACHE_PREFIX_ENVIRONMENT_KEY_def
  WHITELISTED_HEADERS_ENVIRONMENT_KEY_def
  DEFAULT_ACCESS_CONTROL_ALLOW_ORIGIN_VALUE_ENVIRONMENT_KEY_def
  HOSTNAME_TO_ACCESS_CONTROL_ALLOW_ORIGIN_VALUE_MAP_ENVIRONMENT_KEY_def

lemmas env_defaults =
  DEFAULT_LOG_LEVEL_def
  DEFAULT_PROXY_MAXIMUM_BATCH_SIZE_def
  DEFAULT_HTTP_READ_TIMEOUT_def
  DEFAULT_HTTP_WRITE_TIMEOUT_def
  DEFAULT_METRIC_COLLECTION_ENABLED_def
  DEFAULT_METRIC_COMPACTION_ROUTINE_INTERVAL_SECONDS_def
  DEFAULT_METRIC_PARTITIONING_ROUTINE_INTERVAL_SECONDS_def
  DEFAULT_METRIC_PARTITIONING_ROUTINE_DELAY_FIRST_RUN_SECONDS_def
  DEFAULT_METRIC_PARTITIONING_PREFILL_PERIOD_DAYS_def
  DEFAULT_METRIC_PRUNING_ENABLED_def
  DEFAULT_METRIC_DATABASE_ENABLED_def
  DEFAULT_METRIC_PRUNING_ROUTINE_INTERVAL_SECONDS_def
  DEFAULT_METRIC_PRUNING_ROUTINE_DELAY_FIRST_RUN_SECONDS_def
  DEFAULT_METRIC_PRUNING_MAX_REQUEST_METRICS_HISTORY_DAYS_def
  DEFAULT_DATABASE_MAX_IDLE_CONNECTIONS_def
  DEFAULT_DATABASE_CONNECTION_MAX_IDLE_SECONDS_def
  DEFAULT_DATABASE_MAX_OPEN_CONNECTIONS_def
  DEFAULT_DATABASE_READ_TIMEOUT_SECONDS_def
  DEFAULT_DATABASE_WRITE_TIMEOUT_SECONDS_def

end
