(* ===== verification/Config.thy ===== *)
theory Config
  imports ConfigData
begin

text \<open>
  \<^verbatim>\<open>config/config.go\<close> and \<^verbatim>\<open>config/validate.go\<close>: reading the configuration from the
  environment, parsing the routing tables and validating the result. An environment is a
  partial function from names to values. \<open>parseURL\<close> stands for \<^verbatim>\<open>url.Parse\<close> followed by the
  \<^verbatim>\<open>String\<close> method of the parsed URL; \<open>None\<close> is a parse error.
\<close>

section \<open>Reading environment variables\<close>

type_synonym environment = "string \<Rightarrow> string option"

definition getenv :: "environment \<Rightarrow> string \<Rightarrow> string" where
  "getenv env key = (case env key of Some v \<Rightarrow> v | None \<Rightarrow> [])"

definition EnvOrDefault :: "environment \<Rightarrow> string \<Rightarrow> string \<Rightarrow> string" where
  "EnvOrDefault env key fallback = (case env key of Some v \<Rightarrow> v | None \<Rightarrow> fallback)"

definition EnvOrDefaultBool :: "environment \<Rightarrow> string \<Rightarrow> bool \<Rightarrow> bool" where
  "EnvOrDefaultBool env key fallback =
     (case env key of
        Some v \<Rightarrow> (case ParseBool v of None \<Rightarrow> fallback | Some b \<Rightarrow> b)
      | None \<Rightarrow> fallback)"

definition EnvOrDefaultInt64 :: "environment \<Rightarrow> string \<Rightarrow> int \<Rightarrow> int" where
  "EnvOrDefaultInt64 env key fallback =
     (case env key of
        Some v \<Rightarrow> (case ParseInt0 v of None \<Rightarrow> fallback | Some i \<Rightarrow> i)
      | None \<Rightarrow> fallback)"

definition EnvOrDefaultInt :: "environment \<Rightarrow> string \<Rightarrow> int \<Rightarrow> int" where
  "EnvOrDefaultInt env key fallback =
     (case env key of
        Some v \<Rightarrow> (case Atoi v of None \<Rightarrow> fallback | Some i \<Rightarrow> i)
      | None \<Rightarrow> fallback)"

text \<open>\<^verbatim>\<open>time.Duration(n) * time.Second\<close>: an int64 product of nanoseconds, which can wrap.\<close>

definition time_Second :: int where "time_Second = 1000000000"

definition seconds :: "int \<Rightarrow> int" where
  "seconds n = int64_wrap (n * time_Second)"

section \<open>Errors\<close>

text \<open>
  An error value is a list of causes: \<^verbatim>\<open>errors.Join\<close> appends, \<open>[]\<close> is the nil error and
  \<^verbatim>\<open>errors.Is\<close> looks for a member.
\<close>

datatype config_error =
    ErrEmptyHostMap
  | ErrEmptyHostnameToHeaderValueMap
  | ErrZeroMappings string
  | ErrMapEntry string
  | ErrShardDefinition string
  | ErrShardSequence string string
  | ErrShardEndHeight string string
  | ErrShardDuplicate string uint64
  | ErrShardOrder string uint64 uint64
  | ErrShardRoute string uint64 string
  | ErrInvalidValue string string
  | ErrMissingDefaultHost string string
  | ErrPrefillDays int
  | ErrTTL string int
  | ErrMustNotContainColon string
  | ErrMustNotBeEmpty string

section \<open>Routing tables\<close>

definition PROXY_BACKEND_HOST_URL_MAP_ENTRY_DELIMITER :: char where
  "PROXY_BACKEND_HOST_URL_MAP_ENTRY_DELIMITER = CHR '',''"

definition PROXY_BACKEND_HOST_URL_MAP_SUB_COMPONENT_DELIMITER :: char where
  "PROXY_BACKEND_HOST_URL_MAP_SUB_COMPONENT_DELIMITER = CHR ''>''"

lemmas delimiters = PROXY_BACKEND_HOST_URL_MAP_ENTRY_DELIMITER_def
  PROXY_BACKEND_HOST_URL_MAP_SUB_COMPONENT_DELIMITER_def

text \<open>
  The parsers of the two \<open>host>value,host>value\<close> tables. They go on after a bad entry and
  return the map built so far together with all errors; \<^verbatim>\<open>ReadConfig\<close> uses the map anyway.
\<close>

fun parse_host_urls ::
  "(string \<Rightarrow> URL option) \<Rightarrow> (string, URL) gomap \<Rightarrow> config_error list \<Rightarrow> string list \<Rightarrow>
    (string, URL) gomap \<times> config_error list" where
  "parse_host_urls parseURL hostURLMap errs [] = (hostURLMap, errs)"
| "parse_host_urls parseURL hostURLMap errs (entry # entries) =
     (case strings_Split entry PROXY_BACKEND_HOST_URL_MAP_SUB_COMPONENT_DELIMITER of
        [host, rawBackendURL] \<Rightarrow>
          (case parseURL rawBackendURL of
             None \<Rightarrow> parse_host_urls parseURL hostURLMap (errs @ [ErrMapEntry entry]) entries
           | Some u \<Rightarrow> parse_host_urls parseURL (AList.update host u hostURLMap) errs entries)
      | _ \<Rightarrow> parse_host_urls parseURL hostURLMap (errs @ [ErrMapEntry entry]) entries)"

definition ParseRawProxyBackendHostURLMap ::
  "(string \<Rightarrow> URL option) \<Rightarrow> string \<Rightarrow> (string, URL) gomap \<times> config_error list" where
  "ParseRawProxyBackendHostURLMap parseURL raw =
     (let entries = strings_Split raw PROXY_BACKEND_HOST_URL_MAP_ENTRY_DELIMITER in
      if raw = [] \<or> length entries < 1 then ([], [ErrEmptyHostMap, ErrZeroMappings raw])
      else parse_host_urls parseURL [] [] entries)"

fun parse_host_values ::
  "(string, string) gomap \<Rightarrow> config_error list \<Rightarrow> string list \<Rightarrow> (string, string) gomap \<times> config_error list" where
  "parse_host_values m errs [] = (m, errs)"
| "parse_host_values m errs (entry # entries) =
     (case strings_Split entry PROXY_BACKEND_HOST_URL_MAP_SUB_COMPONENT_DELIMITER of
        [hostname, headerValue] \<Rightarrow> parse_host_values (AList.update hostname headerValue m) errs entries
      | _ \<Rightarrow> parse_host_values m (errs @ [ErrMapEntry entry]) entries)"

definition ParseRawHostnameToHeaderValueMap :: "string \<Rightarrow> (string, string) gomap \<times> config_error list" where
  "ParseRawHostnameToHeaderValueMap raw =
     (let entries = strings_Split raw PROXY_BACKEND_HOST_URL_MAP_ENTRY_DELIMITER in
      if raw = [] \<or> length entries < 1
      then ([], [ErrEmptyHostnameToHeaderValueMap, ErrZeroMappings raw])
      else parse_host_values [] [] entries)"

text \<open>
  The shards of one host, two strings at a time: end height and backend. \<open>next\<close> is the
  address of the next URL allocation. An odd rest cannot occur after the length check.
\<close>

fun parse_shards ::
  "(string \<Rightarrow> URL option) \<Rightarrow> string \<Rightarrow> nat \<Rightarrow> uint64 \<Rightarrow> (uint64, urlptr) gomap \<Rightarrow> string list \<Rightarrow>
    (config_error, (uint64, urlptr) gomap \<times> nat) result" where
  "parse_shards parseURL host next prevMaxHeight backendByEndHeight (h # u # rest) =
     (case ParseUint10 h of
        None \<Rightarrow> Err (ErrShardEndHeight host h)
      | Some endHeight \<Rightarrow>
          if endHeight = 0 then Err (ErrShardEndHeight host h)
          else if map_of backendByEndHeight endHeight \<noteq> None then Err (ErrShardDuplicate host endHeight)
          else if endHeight < prevMaxHeight then Err (ErrShardOrder host endHeight prevMaxHeight)
          else (case parseURL u of
                  None \<Rightarrow> Err (ErrShardRoute host endHeight u)
                | Some route \<Rightarrow>
                    if route = [] then Err (ErrShardRoute host endHeight u)
                    else parse_shards parseURL host (next + 1) endHeight
                      (AList.update endHeight (UrlPtr next route) backendByEndHeight) rest))"
| "parse_shards parseURL host next prevMaxHeight backendByEndHeight _ = Ok (backendByEndHeight, next)"

fun parse_shard_hosts ::
  "(string \<Rightarrow> URL option) \<Rightarrow> nat \<Rightarrow> (string, IntervalURLMap) gomap \<Rightarrow> string list \<Rightarrow>
    (string, IntervalURLMap) gomap \<times> config_error list" where
  "parse_shard_hosts parseURL next parsed [] = (parsed, [])"
| "parse_shard_hosts parseURL next parsed (hc # hcs) =
     (case strings_Split hc (CHR ''>'') of
        [host, spec] \<Rightarrow>
          (let endpointBackendValues = strings_Split spec (CHR ''|'') in
           if length endpointBackendValues mod 2 \<noteq> 0 then (parsed, [ErrShardSequence host spec])
           else (case parse_shards parseURL host next 0 [] endpointBackendValues of
                   Ok (backendByEndHeight, next') \<Rightarrow>
                     parse_shard_hosts parseURL next'
                       (AList.update host (NewIntervalURLMap backendByEndHeight) parsed) hcs
                 | Err e \<Rightarrow> (parsed, [e])
                 | Panic p \<Rightarrow> (parsed, [])))
      | _ \<Rightarrow> (parsed, [ErrShardDefinition hc]))"

definition ParseRawShardRoutingBackendHostURLMap ::
  "(string \<Rightarrow> URL option) \<Rightarrow> string \<Rightarrow> (string, IntervalURLMap) gomap \<times> config_error list" where
  "ParseRawShardRoutingBackendHostURLMap parseURL raw =
     (if raw = [] then ([], []) else parse_shard_hosts parseURL 0 [] (strings_Split raw (CHR '','')))"

section \<open>ReadConfig\<close>

definition ReadConfig :: "(string \<Rightarrow> URL option) \<Rightarrow> environment \<Rightarrow> Config" where
  "ReadConfig parseURL env =
     (let rawBackend = getenv env PROXY_BACKEND_HOST_URL_MAP_ENVIRONMENT_KEY;
          rawPruning = getenv env PROXY_PRUNING_BACKEND_HOST_URL_MAP_ENVIRONMENT_KEY;
          rawShards = getenv env PROXY_SHARD_BACKEND_HOST_URL_MAP_ENVIRONMENT_KEY;
          whitelistedHeaders = getenv env WHITELISTED_HEADERS_ENVIRONMENT_KEY;
          rawOrigins = getenv env HOSTNAME_TO_ACCESS_CONTROL_ALLOW_ORIGIN_VALUE_MAP_ENVIRONMENT_KEY
      in \<lparr>
        ProxyServicePort = getenv env PROXY_SERVICE_PORT_ENVIRONMENT_KEY,
        LogLevel = EnvOrDefault env LOG_LEVEL_ENVIRONMENT_KEY DEFAULT_LOG_LEVEL,
        ProxyBackendHostURLMapRaw = rawBackend,
        ProxyBackendHostURLMapParsed = fst (ParseRawProxyBackendHostURLMap parseURL rawBackend),
        EnableHeightBasedRouting = EnvOrDefaultBool env PROXY_HEIGHT_BASED_ROUTING_ENABLED_KEY False,
        ProxyPruningBackendHostURLMapRaw = rawPruning,
        ProxyPruningBackendHostURLMap = fst (ParseRawProxyBackendHostURLMap parseURL rawPruning),
        EnableShardedRouting = EnvOrDefaultBool env PROXY_HEIGHT_BASED_ROUTING_ENABLED_KEY False,
        ProxyShardBackendHostURLMapRaw = rawShards,
        ProxyShardBackendHostURLMap = fst (ParseRawShardRoutingBackendHostURLMap parseURL rawShards),
        ProxyMaximumBatchSize = EnvOrDefaultInt env PROXY_MAXIMUM_BATCH_SIZE_ENVIRONMENT_KEY DEFAULT_PROXY_MAXIMUM_BATCH_SIZE,
        EvmQueryServiceURL = getenv env EVM_QUERY_SERVICE_ENVIRONMENT_KEY,
        DatabaseName = getenv env DATABASE_NAME_ENVIRONMENT_KEY,
        DatabaseEndpointURL = getenv env DATABASE_ENDPOINT_URL_ENVIRONMENT_KEY,
        DatabaseUserName = getenv env DATABASE_USERNAME_ENVIRONMENT_KEY,
        DatabasePassword = getenv env DATABASE_PASSWORD_ENVIRONMENT_KEY,
        DatabaseReadTimeoutSeconds = EnvOrDefaultInt64 env DATABASE_READ_TIMEOUT_SECONDS_ENVIRONMENT_KEY DEFAULT_DATABASE_READ_TIMEOUT_SECONDS,
        DatabaseWriteTimeoutSeconds = EnvOrDefaultInt64 env DATABASE_WRITE_TIMEOUT_SECONDS_ENVIRONMENT_KEY DEFAULT_DATABASE_WRITE_TIMEOUT_SECONDS,
        DatabaseSSLEnabled = EnvOrDefaultBool env DATABASE_SSL_ENABLED_ENVIRONMENT_KEY False,
        DatabaseQueryLoggingEnabled = EnvOrDefaultBool env DATABASE_QUERY_LOGGING_ENABLED_ENVIRONMENT_KEY True,
        DatabaseMaxIdleConnections = EnvOrDefaultInt64 env DATABASE_MAX_IDLE_CONNECTIONS_ENVIRONMENT_KEY DEFAULT_DATABASE_MAX_IDLE_CONNECTIONS,
        DatabaseConnectionMaxIdleSeconds = EnvOrDefaultInt64 env DATABASE_CONNECTION_MAX_IDLE_SECONDS_ENVIRONMENT_KEY DEFAULT_DATABASE_CONNECTION_MAX_IDLE_SECONDS,
        DatabaseMaxOpenConnections = EnvOrDefaultInt64 env DATABASE_MAX_OPEN_CONNECTIONS_ENVIRONMENT_KEY DEFAULT_DATABASE_MAX_OPEN_CONNECTIONS,
        RunDatabaseMigrations = EnvOrDefaultBool env RUN_DATABASE_MIGRATIONS_ENVIRONMENT_KEY False,
        HTTPReadTimeoutSeconds = EnvOrDefaultInt64 env HTTP_READ_TIMEOUT_ENVIRONMENT_KEY DEFAULT_HTTP_READ_TIMEOUT,
        HTTPWriteTimeoutSeconds = EnvOrDefaultInt64 env HTTP_WRITE_TIMEOUT_ENVIRONMENT_KEY DEFAULT_HTTP_WRITE_TIMEOUT,
        MetricCompactionRoutineInterval = seconds (EnvOrDefaultInt env METRIC_COMPACTION_ROUTINE_INTERVAL_ENVIRONMENT_KEY DEFAULT_METRIC_COMPACTION_ROUTINE_INTERVAL_SECONDS),
        MetricCollectionEnabled = EnvOrDefaultBool env METRIC_COLLECTION_ENABLED_ENVIRONMENT_KEY DEFAULT_METRIC_COLLECTION_ENABLED,
        MetricPartitioningRoutineInterval = seconds (EnvOrDefaultInt env METRIC_PARTITIONING_ROUTINE_INTERVAL_SECONDS_ENVIRONMENT_KEY DEFAULT_METRIC_PARTITIONING_ROUTINE_INTERVAL_SECONDS),
        MetricPartitioningRoutineDelayFirstRun = seconds (EnvOrDefaultInt env METRIC_PARTITIONING_ROUTINE_DELAY_FIRST_RUN_SECONDS_ENVIRONMENT_KEY DEFAULT_METRIC_PARTITIONING_ROUTINE_DELAY_FIRST_RUN_SECONDS),
        MetricPartitioningPrefillPeriodDays = EnvOrDefaultInt env METRIC_PARTITIONING_PREFILL_PERIOD_DAYS_ENVIRONMENT_KEY DEFAULT_METRIC_PARTITIONING_PREFILL_PERIOD_DAYS,
        MetricPruningEnabled = EnvOrDefaultBool env METRIC_PRUNING_ENABLED_ENVIRONMENT_KEY DEFAULT_METRIC_PRUNING_ENABLED,
        MetricPruningRoutineInterval = seconds (EnvOrDefaultInt env METRIC_PRUNING_ROUTINE_INTERVAL_SECONDS_ENVIRONMENT_KEY DEFAULT_METRIC_PRUNING_ROUTINE_INTERVAL_SECONDS),
        MetricPruningRoutineDelayFirstRun = seconds (EnvOrDefaultInt env METRIC_PRUNING_ROUTINE_DELAY_FIRST_RUN_SECONDS_ENVIRONMENT_KEY DEFAULT_METRIC_PRUNING_ROUTINE_DELAY_FIRST_RUN_SECONDS),
        MetricPruningMaxRequestMetricsHistoryDays = EnvOrDefaultInt env METRIC_PRUNING_MAX_REQUEST_METRICS_HISTORY_DAYS_ENVIRONMENT_KEY DEFAULT_METRIC_PRUNING_MAX_REQUEST_METRICS_HISTORY_DAYS,
        MetricDatabaseEnabled = EnvOrDefaultBool env METRIC_DATABASE_ENABLED_ENVIRONMENT_KEY DEFAULT_METRIC_DATABASE_ENABLED,
        CacheEnabled = EnvOrDefaultBool env CACHE_ENABLED_ENVIRONMENT_KEY False,
        RedisEndpointURL = getenv env REDIS_ENDPOINT_URL_ENVIRONMENT_KEY,
        RedisPassword = getenv env REDIS_PASSWORD_ENVIRONMENT_KEY,
        CacheMethodHasBlockNumberParamTTL = seconds (EnvOrDefaultInt env CACHE_METHOD_HAS_BLOCK_NUMBER_PARAM_TTL_ENVIRONMENT_KEY 0),
        CacheMethodHasBlockHashParamTTL = seconds (EnvOrDefaultInt env CACHE_METHOD_HAS_BLOCK_HASH_PARAM_TTL_ENVIRONMENT_KEY 0),
        CacheStaticMethodTTL = seconds (EnvOrDefaultInt env CACHE_STATIC_METHOD_TTL_ENVIRONMENT_KEY 0),
        CacheMethodHasTxHashParamTTL = seconds (EnvOrDefaultInt env CACHE_METHOD_HAS_TX_HASH_PARAM_TTL_ENVIRONMENT_KEY 0),
        CachePrefix = getenv env CACHE_PREFIX_ENVIRONMENT_KEY,
        WhitelistedHeaders = (if whitelistedHeaders = [] then [] else strings_Split whitelistedHeaders (CHR '','')),
        DefaultAccessControlAllowOriginValue = getenv env DEFAULT_ACCESS_CONTROL_ALLOW_ORIGIN_VALUE_ENVIRONMENT_KEY,
        HostnameToAccessControlAllowOriginValueMapRaw = rawOrigins,
        HostnameToAccessControlAllowOriginValueMap = fst (ParseRawHostnameToHeaderValueMap rawOrigins)\<rparr>)"

definition GetAccessControlAllowOriginValue :: "Config \<Rightarrow> string \<Rightarrow> string" where
  "GetAccessControlAllowOriginValue cfg hostname =
     (case map_of (HostnameToAccessControlAllowOriginValueMap cfg) hostname of
        Some headerValue \<Rightarrow> headerValue
      | None \<Rightarrow> DefaultAccessControlAllowOriginValue cfg)"

section \<open>Validation\<close>

definition ValidLogLevels :: "string list" where
  "ValidLogLevels = [''TRACE'', ''DEBUG'', ''INFO'', ''ERROR'']"

definition MaxMetricPartitioningPrefillPeriodDays :: int where
  "MaxMetricPartitioningPrefillPeriodDays = 28"

definition checkTTLConfig :: "int \<Rightarrow> string \<Rightarrow> config_error list" where
  "checkTTLConfig cacheTTL cacheTTLKey =
     (if cacheTTL > 0 then [] else if cacheTTL = -1 then [] else [ErrTTL cacheTTLKey cacheTTL])"

definition validateHostURLMap :: "(string \<Rightarrow> URL option) \<Rightarrow> string \<Rightarrow> bool \<Rightarrow> config_error list" where
  "validateHostURLMap parseURL raw allowEmpty =
     (let err = snd (ParseRawProxyBackendHostURLMap parseURL raw) in
      if allowEmpty \<and> ErrEmptyHostMap \<in> set err then [] else err)"

definition validateHostnameToHeaderValueMap :: "string \<Rightarrow> bool \<Rightarrow> config_error list" where
  "validateHostnameToHeaderValueMap raw allowEmpty =
     (let err = snd (ParseRawHostnameToHeaderValueMap raw) in
      if allowEmpty \<and> ErrEmptyHostnameToHeaderValueMap \<in> set err then [] else err)"

definition validateShardRoutingBackendHostURLMap :: "(string \<Rightarrow> URL option) \<Rightarrow> string \<Rightarrow> config_error list" where
  "validateShardRoutingBackendHostURLMap parseURL raw =
     snd (ParseRawShardRoutingBackendHostURLMap parseURL raw)"

fun validateDefaultHostMapContainsHosts ::
  "string \<Rightarrow> (string, URL) gomap \<Rightarrow> (string, URL) gomap \<Rightarrow> config_error list" where
  "validateDefaultHostMapContainsHosts mapName defaultHostsMap [] = []"
| "validateDefaultHostMapContainsHosts mapName defaultHostsMap ((host, u) # hosts) =
     (if map_of defaultHostsMap host = None then [ErrMissingDefaultHost host mapName]
      else validateDefaultHostMapContainsHosts mapName defaultHostsMap hosts)"

text \<open>\<open>invalid key raw err\<close>: the causes joined when a validator returned a non-nil error.\<close>

definition invalid :: "string \<Rightarrow> string \<Rightarrow> config_error list \<Rightarrow> config_error list" where
  "invalid key raw err = (if err = [] then [] else ErrInvalidValue key raw # err)"

definition Validate :: "(string \<Rightarrow> URL option) \<Rightarrow> Config \<Rightarrow> config_error list" where
  "Validate parseURL config =
     (if LogLevel config \<in> set ValidLogLevels then []
      else [ErrInvalidValue LOG_LEVEL_ENVIRONMENT_KEY (LogLevel config)]) @
     invalid PROXY_BACKEND_HOST_URL_MAP_ENVIRONMENT_KEY (ProxyBackendHostURLMapRaw config)
       (validateHostURLMap parseURL (ProxyBackendHostURLMapRaw config) False) @
     invalid PROXY_PRUNING_BACKEND_HOST_URL_MAP_ENVIRONMENT_KEY (ProxyPruningBackendHostURLMapRaw config)
       (validateHostURLMap parseURL (ProxyPruningBackendHostURLMapRaw config) True) @
     invalid PROXY_SHARD_BACKEND_HOST_URL_MAP_ENVIRONMENT_KEY (ProxyShardBackendHostURLMapRaw config)
       (validateShardRoutingBackendHostURLMap parseURL (ProxyShardBackendHostURLMapRaw config)) @
     validateDefaultHostMapContainsHosts PROXY_PRUNING_BACKEND_HOST_URL_MAP_ENVIRONMENT_KEY
       (ProxyBackendHostURLMapParsed config) (ProxyPruningBackendHostURLMap config) @
     (if Atoi (ProxyServicePort config) = None
      then [ErrInvalidValue PROXY_SERVICE_PORT_ENVIRONMENT_KEY (ProxyServicePort config)] else []) @
     (if MetricPartitioningPrefillPeriodDays config > MaxMetricPartitioningPrefillPeriodDays \<or>
         MetricPartitioningPrefillPeriodDays config < 1
      then [ErrPrefillDays (MetricPartitioningPrefillPeriodDays config)] else []) @
     (if RedisEndpointURL config = [] then [ErrMustNotBeEmpty REDIS_ENDPOINT_URL_ENVIRONMENT_KEY] else []) @
     checkTTLConfig (CacheMethodHasBlockNumberParamTTL config)
       CACHE_METHOD_HAS_BLOCK_NUMBER_PARAM_TTL_ENVIRONMENT_KEY @
     checkTTLConfig (CacheMethodHasBlockHashParamTTL config)
       CACHE_METHOD_HAS_BLOCK_HASH_PARAM_TTL_ENVIRONMENT_KEY @
     checkTTLConfig (CacheStaticMethodTTL config) CACHE_STATIC_METHOD_TTL_ENVIRONMENT_KEY @
     checkTTLConfig (CacheMethodHasTxHashParamTTL config)
       CACHE_METHOD_HAS_TX_HASH_PARAM_TTL_ENVIRONMENT_KEY @
     (if CHR '':'' \<in> set (CachePrefix config) then [ErrMustNotContainColon CACHE_PREFIX_ENVIRONMENT_KEY] else []) @
     (if CachePrefix config = [] then [ErrMustNotBeEmpty CACHE_PREFIX_ENVIRONMENT_KEY] else []) @
     invalid HOSTNAME_TO_ACCESS_CONTROL_ALLOW_ORIGIN_VALUE_MAP_ENVIRONMENT_KEY
       (HostnameToAccessControlAllowOriginValueMapRaw config)
       (validateHostnameToHeaderValueMap (HostnameToAccessControlAllowOriginValueMapRaw config) True)"

section \<open>What the shard parser guarantees\<close>

text \<open>
  A shard table under construction: heights strictly increase, none is zero and none exceeds
  the last one read; the URL pointers are fresh allocations of increasing address.
\<close>

definition shard_table :: "nat \<Rightarrow> nat \<Rightarrow> (uint64, urlptr) gomap \<Rightarrow> bool" where
  "shard_table lo hi m \<longleftrightarrow> sorted_wrt (<) (map fst m) \<and> 0 \<notin> fst ` set m \<and>
     distinct (map (ptr_addr \<circ> snd) m) \<and>
     (\<forall>(e, p)\<in>set m. lo \<le> ptr_addr p \<and> ptr_addr p < hi \<and> ptr_url p \<noteq> [])"

lemma shard_table_wf: "shard_table lo hi m \<Longrightarrow> map_wf m"
  by (auto simp: shard_table_def map_wf_def strict_sorted_iff)

lemma shard_table_snoc:
  assumes "shard_table lo hi m" and "\<forall>e\<in>fst ` set m. e \<le> prev" and "prev \<le> e" and "e \<notin> fst ` set m"
    and "e \<noteq> 0" and "u \<noteq> []" and "lo \<le> hi"
  shows "shard_table lo (hi + 1) (m @ [(e, UrlPtr hi u)])"
proof -
  have "\<forall>e'\<in>fst ` set m. e' < e"
    using assms(2-4) by (metis order_less_le order_trans)
  moreover have "\<forall>q\<in>snd ` set m. ptr_addr q < hi"
    using assms(1) by (auto simp: shard_table_def)
  ultimately show ?thesis
    using assms by (fastforce simp: shard_table_def sorted_wrt_append)
qed

lemma parse_shards_table:
  assumes "parse_shards parseURL host next prev m xs = Ok (m', next')"
    and "shard_table lo next m" and "\<forall>e\<in>fst ` set m. e \<le> prev" and "lo \<le> next"
  shows "shard_table lo next' m' \<and> next \<le> next' \<and> set m \<subseteq> set m'"
  using assms
proof (induction parseURL host "next" prev m xs rule: parse_shards.induct)
  case (1 parseURL host "next" prev m h u rest)
  from "1.prems"(1) obtain e route where r: "ParseUint10 h = Some e" "e \<noteq> 0" "map_of m e = None"
      "\<not> e < prev" "parseURL u = Some route" "route \<noteq> []"
    and rec: "parse_shards parseURL host (next + 1) e (AList.update e (UrlPtr next route) m) rest = Ok (m', next')"
    by (auto split: option.splits if_splits)
  have upd: "AList.update e (UrlPtr next route) m = m @ [(e, UrlPtr next route)]"
    using r(3) by (rule map_of_None_update)
  have "e \<notin> fst ` set m" using r(3) by (simp add: map_of_eq_None_iff)
  with "1.prems" r have "shard_table lo (next + 1) (m @ [(e, UrlPtr next route)])"
    by (intro shard_table_snoc [of lo "next" m prev]) auto
  moreover have "\<forall>x\<in>fst ` set (m @ [(e, UrlPtr next route)]). x \<le> e"
    using "1.prems"(3) r(4) by (auto dest: order_trans)
  ultimately have "shard_table lo next' m' \<and> next + 1 \<le> next' \<and> set (m @ [(e, UrlPtr next route)]) \<subseteq> set m'"
    using "1.IH" [OF r(1) r(2), simplified r(3), OF _ r(4) r(5) r(6)] rec "1.prems"(4) upd by simp
  then show ?case by simp
qed auto

lemma parse_shards_Ok_nonempty:
  assumes "parse_shards parseURL host next prev m xs = Ok (m', next')" and "m \<noteq> [] \<or> 2 \<le> length xs"
  shows "m' \<noteq> []"
  using assms
proof (induction parseURL host "next" prev m xs rule: parse_shards.induct)
  case (1 parseURL host "next" prev m h u rest)
  then show ?case by (auto split: option.splits if_splits simp: update_nonempty)
qed auto

definition shard_entry :: "IntervalURLMap \<Rightarrow> bool" where
  "shard_entry im \<longleftrightarrow> (\<exists>lo hi. shard_table lo hi (UrlByEndHeight im)) \<and> UrlByEndHeight im \<noteq> [] \<and>
     im = NewIntervalURLMap (UrlByEndHeight im)"

lemma shard_entry_NewIntervalURLMap:
  "shard_table lo hi m \<Longrightarrow> m \<noteq> [] \<Longrightarrow> shard_entry (NewIntervalURLMap m)"
  by (auto simp: shard_entry_def NewIntervalURLMap_def)

lemma shard_entry_interval_wf: "shard_entry im \<Longrightarrow> interval_wf im"
  unfolding shard_entry_def by (metis NewIntervalURLMap_wf shard_table_wf)

lemma shard_entry_endpoints:
  assumes "shard_entry im"
  shows "endpoints im = map fst (UrlByEndHeight im)" and "sorted_wrt (<) (endpoints im)"
    and "0 \<notin> set (endpoints im)" and "endpoints im \<noteq> []"
    and "\<And>e p. map_of (UrlByEndHeight im) e = Some p \<Longrightarrow> ptr_url p \<noteq> []"
proof -
  have srt: "sorted_wrt (<) (map fst (UrlByEndHeight im))" and new: "im = NewIntervalURLMap (UrlByEndHeight im)"
    and zero: "0 \<notin> fst ` set (UrlByEndHeight im)" and ne: "UrlByEndHeight im \<noteq> []"
    and urls: "\<forall>(e, p)\<in>set (UrlByEndHeight im). ptr_url p \<noteq> []"
    using assms by (auto simp: shard_entry_def shard_table_def)
  from srt have "sort (map fst (UrlByEndHeight im)) = map fst (UrlByEndHeight im)"
    by (simp add: strict_sorted_imp_sorted sorted_sort_id)
  then show eq: "endpoints im = map fst (UrlByEndHeight im)"
    by (subst new) (simp add: NewIntervalURLMap_def)
  show "sorted_wrt (<) (endpoints im)" "0 \<notin> set (endpoints im)" "endpoints im \<noteq> []"
    using srt zero ne by (simp_all add: eq)
  show "\<And>e p. map_of (UrlByEndHeight im) e = Some p \<Longrightarrow> ptr_url p \<noteq> []"
    using urls by (auto dest: map_of_SomeD)
qed

lemma strings_Split_length: "1 \<le> length (strings_Split s c)"
  by (cases "strings_Split s c") auto

lemma parse_shard_hosts_entries:
  assumes "\<forall>(h, im)\<in>set parsed. shard_entry im"
  shows "\<forall>(h, im)\<in>set (fst (parse_shard_hosts parseURL next parsed hcs)). shard_entry im"
  using assms
proof (induction parseURL "next" parsed hcs rule: parse_shard_hosts.induct)
  case (2 parseURL "next" parsed hc hcs)
  show ?case
  proof (cases "\<exists>host spec m next'. strings_Split hc (CHR ''>'') = [host, spec] \<and>
      length (strings_Split spec (CHR ''|'')) mod 2 = 0 \<and>
      parse_shards parseURL host next 0 [] (strings_Split spec (CHR ''|'')) = Ok (m, next')")
    case True
    then obtain host spec m next' where sp: "strings_Split hc (CHR ''>'') = [host, spec]"
      and ev: "length (strings_Split spec (CHR ''|'')) mod 2 = 0"
      and ok: "parse_shards parseURL host next 0 [] (strings_Split spec (CHR ''|'')) = Ok (m, next')"
      by (elim exE conjE)
    have "2 \<le> length (strings_Split spec (CHR ''|''))"
      using ev strings_Split_length [of spec "CHR ''|''"] by presburger
    then have "m \<noteq> []" using parse_shards_Ok_nonempty [OF ok] by simp
    moreover have "shard_table next next' m"
      using parse_shards_table [OF ok, of "next"] by (simp add: shard_table_def)
    ultimately have "shard_entry (NewIntervalURLMap m)" by (intro shard_entry_NewIntervalURLMap)
    with "2.prems" have "\<forall>(h, im)\<in>set (AList.update host (NewIntervalURLMap m) parsed). shard_entry im"
      by (auto dest!: update_memD)
    then show ?thesis using "2.IH" sp ev ok by simp
  next
    case False
    then show ?thesis using "2.prems" 
      by (auto split: list.splits result.splits prod.splits simp: Let_def)
  qed
qed simp

section \<open>Writing a shard table and reading it back\<close>

text \<open>
  The text form of a shard configuration, one \<open>host>end|url|end|url\<close> group per host, and the
  conditions under which it is a configuration: heights increase from a non-zero one, every
  URL is a non-empty one that parses, and no host or URL contains a separator.
\<close>

definition render_shards :: "(uint64 \<times> URL) list \<Rightarrow> string" where
  "render_shards shards =
     strings_Join (concat (map (\<lambda>(e, u). [show_nat (unat e), u]) shards)) ''|''"

definition render_shard_hosts :: "(string \<times> (uint64 \<times> URL) list) list \<Rightarrow> string" where
  "render_shard_hosts hosts =
     strings_Join (map (\<lambda>(h, shards). h @ ''>'' @ render_shards shards) hosts) '',''"

definition separators :: "char set" where
  "separators = {CHR '','', CHR ''>'', CHR ''|''}"

definition shards_ok :: "(string \<Rightarrow> URL option) \<Rightarrow> (uint64 \<times> URL) list \<Rightarrow> bool" where
  "shards_ok parseURL shards \<longleftrightarrow> shards \<noteq> [] \<and> sorted_wrt (<) (map fst shards) \<and>
     (\<forall>(e, u)\<in>set shards. e \<noteq> 0 \<and> u \<noteq> [] \<and> parseURL u = Some u \<and> set u \<inter> separators = {})"

fun alloc :: "nat \<Rightarrow> (uint64 \<times> URL) list \<Rightarrow> (uint64, urlptr) gomap" where
  "alloc next [] = []"
| "alloc next ((e, u) # shards) = (e, UrlPtr next u) # alloc (next + 1) shards"

lemma alloc_urls: "map (\<lambda>(e, p). (e, ptr_url p)) (alloc next shards) = shards"
  by (induction "next" shards rule: alloc.induct) auto

lemma alloc_keys: "map fst (alloc next shards) = map fst shards"
  by (induction "next" shards rule: alloc.induct) auto

lemma parse_shards_render:
  assumes "sorted_wrt (<) (map fst m @ map fst shards)" and "\<forall>(e, u)\<in>set shards. prev \<le> e"
    and "\<forall>(e, u)\<in>set shards. e \<noteq> 0 \<and> u \<noteq> [] \<and> parseURL u = Some u"
  shows "parse_shards parseURL host next prev m (concat (map (\<lambda>(e, u). [show_nat (unat e), u]) shards)) =
    Ok (m @ alloc next shards, next + length shards)"
  using assms
proof (induction shards arbitrary: "next" prev m)
  case (Cons s shards)
  obtain e u where s: "s = (e, u)" by (cases s)
  have new: "e \<notin> fst ` set m" using Cons.prems(1) s by (auto simp: sorted_wrt_append)
  then have "map_of m e = None" "AList.update e (UrlPtr next u) m = m @ [(e, UrlPtr next u)]"
    by (simp_all add: map_of_eq_None_iff update_new)
  moreover have "\<forall>(e', u)\<in>set shards. e \<le> e'"
    using Cons.prems(1) s by (auto simp: sorted_wrt_append)
  moreover have "sorted_wrt (<) (map fst (m @ [(e, UrlPtr next u)]) @ map fst shards)"
    using Cons.prems(1) s by simp
  ultimately show ?case
    using Cons.IH [of "m @ [(e, UrlPtr next u)]" e "next + 1"] Cons.prems s
    by (auto simp: ParseUint10_show_unat not_less)
qed simp

lemma show_nat_no_separators: "set (show_nat n) \<inter> separators = {}"
  using show_nat_avoids by (auto simp: separators_def)

lemma render_shards_pieces:
  assumes "shards_ok parseURL shards"
  shows "strings_Split (render_shards shards) (CHR ''|'') =
      concat (map (\<lambda>(e, u). [show_nat (unat e), u]) shards)"
    and "CHR '','' \<notin> set (render_shards shards)" and "CHR ''>'' \<notin> set (render_shards shards)"
proof -
  let ?ps = "concat (map (\<lambda>(e, u). [show_nat (unat e), u]) shards)"
  have sep: "\<forall>p\<in>set ?ps. set p \<inter> separators = {}"
    using assms show_nat_no_separators by (auto simp: shards_ok_def)
  have "?ps \<noteq> []" using assms by (cases shards) (auto simp: shards_ok_def)
  with sep show "strings_Split (render_shards shards) (CHR ''|'') = ?ps"
    unfolding render_shards_def by (intro strings_Split_Join) (auto simp: separators_def)
  have "set (render_shards shards) \<subseteq> (\<Union>p\<in>set ?ps. set p) \<union> {CHR ''|''}"
    unfolding render_shards_def using set_strings_Join [of ?ps "''|''"] by simp
  with sep show "CHR '','' \<notin> set (render_shards shards)" "CHR ''>'' \<notin> set (render_shards shards)"
    unfolding separators_def by fastforce+
qed

lemma length_render_pieces: "length (concat (map (\<lambda>(e, u). [show_nat (unat e), u]) shards)) = 2 * length shards"
  by (induction shards) auto

lemma parse_shard_hosts_render:
  assumes "\<forall>(h, shards)\<in>set hosts. CHR ''>'' \<notin> set h \<and> shards_ok parseURL shards"
    and "distinct (map fst hosts)" and "fst ` set parsed \<inter> fst ` set hosts = {}"
  shows "\<exists>entries. parse_shard_hosts parseURL next parsed
      (map (\<lambda>(h, shards). h @ ''>'' @ render_shards shards) hosts) = (parsed @ entries, []) \<and>
    list_all2 (\<lambda>(h, im) (h', shards). h = h' \<and> (\<exists>n. im = NewIntervalURLMap (alloc n shards))) entries hosts"
  using assms
proof (induction hosts arbitrary: "next" parsed)
  case (Cons hs hosts)
  obtain h shards where hs: "hs = (h, shards)" by (cases hs)
  let ?im = "NewIntervalURLMap (alloc next shards)"
  have ok: "shards_ok parseURL shards" and h: "CHR ''>'' \<notin> set h" using Cons.prems hs by auto
  have split: "strings_Split (h @ CHR ''>'' # render_shards shards) (CHR ''>'') = [h, render_shards shards]"
    using h render_shards_pieces(3) [OF ok] by (simp add: strings_Split_append strings_Split_no_sep)
  have shard: "parse_shards parseURL h next 0 [] (strings_Split (render_shards shards) (CHR ''|'')) =
      Ok (alloc next shards, next + length shards)"
    unfolding render_shards_pieces(1) [OF ok]
    using parse_shards_render [of "[]" shards 0 parseURL h "next"] ok by (auto simp: shards_ok_def)
  have "h \<notin> fst ` set parsed" using Cons.prems hs by auto
  then have upd: "AList.update h ?im parsed = parsed @ [(h, ?im)]" by (rule update_new)
  have "\<exists>entries. parse_shard_hosts parseURL (next + length shards) (parsed @ [(h, ?im)])
      (map (\<lambda>(h, shards). h @ ''>'' @ render_shards shards) hosts) = ((parsed @ [(h, ?im)]) @ entries, []) \<and>
    list_all2 (\<lambda>(h, im) (h', shards). h = h' \<and> (\<exists>n. im = NewIntervalURLMap (alloc n shards))) entries hosts"
    using Cons.prems hs by (intro Cons.IH) auto
  then obtain entries where e: "parse_shard_hosts parseURL (next + length shards) (parsed @ [(h, ?im)])
      (map (\<lambda>(h, shards). h @ ''>'' @ render_shards shards) hosts) = ((parsed @ [(h, ?im)]) @ entries, [])"
    "list_all2 (\<lambda>(h, im) (h', shards). h = h' \<and> (\<exists>n. im = NewIntervalURLMap (alloc n shards))) entries hosts"
    by (elim exE conjE)
  have "parse_shard_hosts parseURL next parsed
      (map (\<lambda>(h, shards). h @ ''>'' @ render_shards shards) (hs # hosts)) = (parsed @ (h, ?im) # entries, [])"
    using e(1) split shard upd hs length_render_pieces [of shards]
    by (simp add: render_shards_pieces(1) [OF ok])
  with e(2) hs show ?case by (intro exI [of _ "(h, ?im) # entries"]) auto
qed simp

section \<open>What a valid configuration guarantees\<close>

lemma validateDefaultHostMapContainsHosts_Nil:
  "validateDefaultHostMapContainsHosts name d m = [] \<longleftrightarrow> fst ` set m \<subseteq> fst ` set d"
  by (induction name d m rule: validateDefaultHostMapContainsHosts.induct)
     (auto simp: map_of_eq_None_iff)

lemma invalid_Nil [simp]: "invalid key raw err = [] \<longleftrightarrow> err = []"
  by (simp add: invalid_def)

lemma checkTTLConfig_Nil: "checkTTLConfig ttl key = [] \<longleftrightarrow> ttl > 0 \<or> ttl = -1"
  by (simp add: checkTTLConfig_def)

lemmas Validate_Nil_simps = Validate_def validateDefaultHostMapContainsHosts_Nil checkTTLConfig_Nil
  MaxMetricPartitioningPrefillPeriodDays_def

text \<open>A product with \<^verbatim>\<open>time.Second\<close> is even, whatever wraps around: it is never \<open>-1\<close>.\<close>

lemma seconds_even: "even (seconds n)"
  by (simp add: seconds_def int64_wrap_def time_Second_def dvd_mod_iff)

lemma seconds_not_minus_one: "seconds n \<noteq> -1"
  using seconds_even [of n] by auto

lemma parse_host_urls_wf: "map_wf m \<Longrightarrow> map_wf (fst (parse_host_urls parseURL m errs entries))"
  by (induction parseURL m errs entries rule: parse_host_urls.induct) (auto split: list.splits option.splits)

lemma ParseRawProxyBackendHostURLMap_wf: "map_wf (fst (ParseRawProxyBackendHostURLMap parseURL raw))"
  by (simp add: ParseRawProxyBackendHostURLMap_def Let_def parse_host_urls_wf)

lemma parse_shard_hosts_wf: "map_wf m \<Longrightarrow> map_wf (fst (parse_shard_hosts parseURL next m hcs))"
  by (induction parseURL "next" m hcs rule: parse_shard_hosts.induct)
     (auto split: list.splits result.splits simp: Let_def)

lemma ParseRawShardRouting_wf: "map_wf (fst (ParseRawShardRoutingBackendHostURLMap parseURL raw))"
  by (simp add: ParseRawShardRoutingBackendHostURLMap_def parse_shard_hosts_wf)

lemma ParseRawShardRouting_entries:
  "map_of (fst (ParseRawShardRoutingBackendHostURLMap parseURL raw)) host = Some im \<Longrightarrow> shard_entry im"
  using parse_shard_hosts_entries [of "[]" parseURL 0 "strings_Split raw (CHR '','')"]
  by (auto simp: ParseRawShardRoutingBackendHostURLMap_def dest!: map_of_SomeD split: if_splits)

lemma ReadConfig_maps:
  "ProxyBackendHostURLMapParsed (ReadConfig parseURL env) =
     fst (ParseRawProxyBackendHostURLMap parseURL (ProxyBackendHostURLMapRaw (ReadConfig parseURL env)))"
  "ProxyPruningBackendHostURLMap (ReadConfig parseURL env) =
     fst (ParseRawProxyBackendHostURLMap parseURL (ProxyPruningBackendHostURLMapRaw (ReadConfig parseURL env)))"
  "ProxyShardBackendHostURLMap (ReadConfig parseURL env) =
     fst (ParseRawShardRoutingBackendHostURLMap parseURL (ProxyShardBackendHostURLMapRaw (ReadConfig parseURL env)))"
  by (simp_all add: ReadConfig_def Let_def)

section \<open>Properties\<close>

text \<open>C23: Whatever text the shard map is read from, and however its parsing ends, every table
  in the result is a partition of the heights: the end heights strictly increase, none is
  zero, there is at least one, and each has a non-empty backend URL.\<close>

theorem parsed_shard_table_wf:
  assumes "map_of (fst (ParseRawShardRoutingBackendHostURLMap parseURL raw)) host = Some im"
  shows "interval_wf im \<and> endpoints im \<noteq> [] \<and> sorted_wrt (<) (endpoints im) \<and> 0 \<notin> set (endpoints im) \<and>
    (\<forall>e\<in>set (endpoints im). \<exists>p. map_of (UrlByEndHeight im) e = Some p \<and> ptr_url p \<noteq> [])"
proof -
  have entry: "shard_entry im" using assms by (rule ParseRawShardRouting_entries)
  note ends = shard_entry_endpoints [OF entry] and wf = shard_entry_interval_wf [OF entry]
  have "\<exists>p. map_of (UrlByEndHeight im) e = Some p \<and> ptr_url p \<noteq> []" if "e \<in> set (endpoints im)" for e
    using shards.url_defined [OF wf that] ends(5) by auto
  with ends wf show ?thesis by blast
qed

theorem parsed_shard_table_wf_witness:
  "0 \<notin> set (endpoints (NewIntervalURLMap [(10, UrlPtr 0 ''http://a''), (20, UrlPtr 1 ''http://b'')]))"
proof -
  have "map_of (fst (ParseRawShardRoutingBackendHostURLMap Some ''h>10|http://a|20|http://b'')) ''h'' =
      Some (NewIntervalURLMap [(10, UrlPtr 0 ''http://a''), (20, UrlPtr 1 ''http://b'')])"
    by (simp add: ParseRawShardRoutingBackendHostURLMap_def ParseUint10_def digit_of_def chr_lower_def
        max_uint64_def Let_def)
  from parsed_shard_table_wf [OF this] show ?thesis by blast
qed

text \<open>C24: A shard configuration written in the documented form is read back exactly: no error,
  and every host gets the table of its end heights and URLs.\<close>

theorem shard_map_roundtrip:
  assumes "distinct (map fst hosts)"
    and "\<forall>(h, shards)\<in>set hosts. set h \<inter> separators = {} \<and> shards_ok parseURL shards"
    and "(host, shards) \<in> set hosts"
  shows "snd (ParseRawShardRoutingBackendHostURLMap parseURL (render_shard_hosts hosts)) = [] \<and>
    (\<exists>im. map_of (fst (ParseRawShardRoutingBackendHostURLMap parseURL (render_shard_hosts hosts))) host = Some im \<and>
       map (\<lambda>(e, p). (e, ptr_url p)) (UrlByEndHeight im) = shards \<and> endpoints im = map fst shards)"
proof -
  let ?ps = "map (\<lambda>(h, shards). h @ ''>'' @ render_shards shards) hosts"
  let ?R = "\<lambda>(h, im) (h', shards). h = h' \<and> (\<exists>n. im = NewIntervalURLMap (alloc n shards))"
  have "\<exists>entries. parse_shard_hosts parseURL 0 [] ?ps = ([] @ entries, []) \<and> list_all2 ?R entries hosts"
    using assms(1,2) by (intro parse_shard_hosts_render) (auto simp: separators_def)
  then obtain entries where e: "parse_shard_hosts parseURL 0 [] ?ps = (entries, [])" "list_all2 ?R entries hosts"
    by auto
  have "?ps \<noteq> []" using assms(3) by auto
  moreover have "\<forall>p\<in>set ?ps. CHR '','' \<notin> set p"
    using assms(2) render_shards_pieces(2) by (fastforce simp: separators_def)
  ultimately have split: "strings_Split (render_shard_hosts hosts) (CHR '','') = ?ps"
    unfolding render_shard_hosts_def by (rule strings_Split_Join)
  have "length (render_shard_hosts hosts) \<noteq> 0"
  proof
    assume "length (render_shard_hosts hosts) = 0"
    then have "?ps = [[]]" using split by simp
    then show False by (cases hosts) auto
  qed
  then have parse: "ParseRawShardRoutingBackendHostURLMap parseURL (render_shard_hosts hosts) = (entries, [])"
    using e(1) split by (simp add: ParseRawShardRoutingBackendHostURLMap_def)
  from e(2) have "map fst entries = map fst hosts"
    by (induction rule: list_all2_induct) auto
  then have dist: "distinct (map fst entries)" using assms(1) by simp
  from e(2) assms(3) obtain im n where "(host, im) \<in> set entries" and im: "im = NewIntervalURLMap (alloc n shards)"
    by (fastforce simp: list_all2_conv_all_nth in_set_conv_nth)
  then have "map_of entries host = Some im" using dist by simp
  moreover have "map (\<lambda>(e, p). (e, ptr_url p)) (UrlByEndHeight im) = shards"
    using im by (simp add: NewIntervalURLMap_def alloc_urls)
  moreover have "shards_ok parseURL shards" using assms(2,3) by auto
  then have "endpoints im = map fst shards"
    using im by (simp add: NewIntervalURLMap_def alloc_keys shards_ok_def sorted_sort_id strict_sorted_imp_sorted)
  ultimately show ?thesis using parse by auto
qed

theorem shard_map_roundtrip_witness:
  "snd (ParseRawShardRoutingBackendHostURLMap Some
     (render_shard_hosts [(''h'', [(10, ''http://a''), (20, ''http://b'')])])) = []"
  using shard_map_roundtrip [of "[(''h'', [(10, ''http://a''), (20, ''http://b'')])]" Some "''h''"
      "[(10, ''http://a''), (20, ''http://b'')]"]
  by (simp add: shards_ok_def separators_def)

text \<open>What a configuration that passes validation guarantees: a known log level, a numeric port,
  a prefill period between 1 and 28 days, a Redis address, cache lifetimes that are positive
  or the \<open>-1\<close> marker, a non-empty cache prefix without a colon, a default backend for
  every host that has a pruning backend, and routing tables that parse without an error.\<close>

theorem Validate_guarantees:
  assumes "Validate parseURL config = []"
  shows "LogLevel config \<in> set ValidLogLevels \<and> (\<exists>port. Atoi (ProxyServicePort config) = Some port) \<and>
    1 \<le> MetricPartitioningPrefillPeriodDays config \<and> MetricPartitioningPrefillPeriodDays config \<le> 28 \<and>
    RedisEndpointURL config \<noteq> [] \<and>
    (\<forall>ttl\<in>{CacheMethodHasBlockNumberParamTTL config, CacheMethodHasBlockHashParamTTL config,
        CacheStaticMethodTTL config, CacheMethodHasTxHashParamTTL config}. ttl > 0 \<or> ttl = -1) \<and>
    CachePrefix config \<noteq> [] \<and> CHR '':'' \<notin> set (CachePrefix config) \<and>
    fst ` set (ProxyPruningBackendHostURLMap config) \<subseteq> fst ` set (ProxyBackendHostURLMapParsed config) \<and>
    snd (ParseRawShardRoutingBackendHostURLMap parseURL (ProxyShardBackendHostURLMapRaw config)) = [] \<and>
    snd (ParseRawProxyBackendHostURLMap parseURL (ProxyBackendHostURLMapRaw config)) = []"
  using assms by (auto simp: Validate_Nil_simps validateShardRoutingBackendHostURLMap_def
      validateHostURLMap_def split: if_splits)

text \<open>A small environment that passes validation.\<close>

definition sample_env :: environment where
  "sample_env = map_of
     [(PROXY_SERVICE_PORT_ENVIRONMENT_KEY, ''7777''),
      (PROXY_BACKEND_HOST_URL_MAP_ENVIRONMENT_KEY, ''h>http://d''),
      (PROXY_PRUNING_BACKEND_HOST_URL_MAP_ENVIRONMENT_KEY, ''h>http://p''),
      (PROXY_SHARD_BACKEND_HOST_URL_MAP_ENVIRONMENT_KEY, ''h>10|http://a|20|http://b''),
      (PROXY_HEIGHT_BASED_ROUTING_ENABLED_KEY, ''true''),
      (REDIS_ENDPOINT_URL_ENVIRONMENT_KEY, ''redis:6379''),
      (CACHE_METHOD_HAS_BLOCK_NUMBER_PARAM_TTL_ENVIRONMENT_KEY, ''600''),
      (CACHE_METHOD_HAS_BLOCK_HASH_PARAM_TTL_ENVIRONMENT_KEY, ''600''),
      (CACHE_STATIC_METHOD_TTL_ENVIRONMENT_KEY, ''600''),
      (CACHE_METHOD_HAS_TX_HASH_PARAM_TTL_ENVIRONMENT_KEY, ''600''),
      (CACHE_PREFIX_ENVIRONMENT_KEY, ''local'')]"

lemma sample_env_valid: "Validate Some (ReadConfig Some sample_env) = []"
  by (simp add: sample_env_def ReadConfig_def Let_def env_keys env_defaults getenv_def EnvOrDefault_def
      EnvOrDefaultInt_def Validate_def ValidLogLevels_def validateHostURLMap_def
      validateShardRoutingBackendHostURLMap_def validateHostnameToHeaderValueMap_def
      ParseRawProxyBackendHostURLMap_def delimiters ParseRawShardRoutingBackendHostURLMap_def
      ParseRawHostnameToHeaderValueMap_def ParseUint10_def digit_of_def chr_lower_def max_uint64_def
      Atoi_def signed_in_range_def checkTTLConfig_def seconds_def int64_wrap_def time_Second_def
      MaxMetricPartitioningPrefillPeriodDays_def)

lemma sample_config_maps:
  "ProxyBackendHostURLMapParsed (ReadConfig Some sample_env) = [(''h'', ''http://d'')]"
  "ProxyPruningBackendHostURLMap (ReadConfig Some sample_env) = [(''h'', ''http://p'')]"
  "ProxyShardBackendHostURLMap (ReadConfig Some sample_env) =
     [(''h'', NewIntervalURLMap [(10, UrlPtr 0 ''http://a''), (20, UrlPtr 1 ''http://b'')])]"
  "EnableHeightBasedRouting (ReadConfig Some sample_env)" "EnableShardedRouting (ReadConfig Some sample_env)"
  by (simp_all add: sample_env_def ReadConfig_def Let_def env_keys getenv_def EnvOrDefaultBool_def ParseBool_def
      ParseRawProxyBackendHostURLMap_def delimiters ParseRawShardRoutingBackendHostURLMap_def
      ParseUint10_def digit_of_def chr_lower_def max_uint64_def)

theorem Validate_guarantees_witness:
  "CachePrefix (ReadConfig Some sample_env) \<noteq> []"
  using Validate_guarantees [OF sample_env_valid] by blast

lemma valid_lifetimes:
  assumes "Validate parseURL (ReadConfig parseURL env) = []"
  shows "\<forall>ttl\<in>{CacheMethodHasBlockNumberParamTTL (ReadConfig parseURL env),
          CacheMethodHasBlockHashParamTTL (ReadConfig parseURL env),
          CacheStaticMethodTTL (ReadConfig parseURL env),
          CacheMethodHasTxHashParamTTL (ReadConfig parseURL env)}. ttl > 0"
proof -
  let ?c = "ReadConfig parseURL env"
  have "\<forall>ttl\<in>{CacheMethodHasBlockNumberParamTTL ?c, CacheMethodHasBlockHashParamTTL ?c,
      CacheStaticMethodTTL ?c, CacheMethodHasTxHashParamTTL ?c}. \<exists>n. ttl = seconds n"
    by (auto simp: ReadConfig_def Let_def)
  moreover from assms have "\<forall>ttl\<in>{CacheMethodHasBlockNumberParamTTL ?c, CacheMethodHasBlockHashParamTTL ?c,
      CacheStaticMethodTTL ?c, CacheMethodHasTxHashParamTTL ?c}. ttl > 0 \<or> ttl = -1"
    by (simp add: Validate_Nil_simps)
  ultimately show ?thesis using seconds_not_minus_one by metis
qed

text \<open>C25: The documented marker \<open>-1\<close> (cache indefinitely) cannot be configured: the environment value is
  multiplied by a second, so validation rejects it, and with a configuration that is read from
  an environment and passes validation every cache lifetime is positive.\<close>

theorem indefinite_cache_ttl_rejected:
  "(Validate parseURL (ReadConfig parseURL env) = [] \<longrightarrow>
      (\<forall>ttl\<in>{CacheMethodHasBlockNumberParamTTL (ReadConfig parseURL env),
          CacheMethodHasBlockHashParamTTL (ReadConfig parseURL env),
          CacheStaticMethodTTL (ReadConfig parseURL env),
          CacheMethodHasTxHashParamTTL (ReadConfig parseURL env)}. ttl > 0)) \<and>
   (env CACHE_STATIC_METHOD_TTL_ENVIRONMENT_KEY = Some ''-1'' \<longrightarrow>
      ErrTTL CACHE_STATIC_METHOD_TTL_ENVIRONMENT_KEY (-1000000000)
        \<in> set (Validate parseURL (ReadConfig parseURL env)))"
proof (rule conjI, blast dest: valid_lifetimes, intro impI)
  assume "env CACHE_STATIC_METHOD_TTL_ENVIRONMENT_KEY = Some ''-1''"
  then have "CacheStaticMethodTTL (ReadConfig parseURL env) = -1000000000"
    by (simp add: ReadConfig_def Let_def EnvOrDefaultInt_def Atoi_def signed_in_range_def digit_of_def
        chr_lower_def seconds_def int64_wrap_def time_Second_def)
  then show "ErrTTL CACHE_STATIC_METHOD_TTL_ENVIRONMENT_KEY (-1000000000)
      \<in> set (Validate parseURL (ReadConfig parseURL env))"
    by (simp add: Validate_def checkTTLConfig_def)
qed

theorem indefinite_cache_ttl_rejected_witness:
  "CacheStaticMethodTTL (ReadConfig Some sample_env) > 0 \<and>
   Validate Some (ReadConfig Some (sample_env(CACHE_STATIC_METHOD_TTL_ENVIRONMENT_KEY \<mapsto> ''-1''))) \<noteq> []"
  using indefinite_cache_ttl_rejected [of Some sample_env] sample_env_valid
    indefinite_cache_ttl_rejected [of Some "sample_env(CACHE_STATIC_METHOD_TTL_ENVIRONMENT_KEY \<mapsto> ''-1'')"]
  by fastforce

text \<open>The switch for sharded routing is not the documented one: the configuration takes it from
  the variable of height-based routing, and the variable \<^verbatim>\<open>PROXY_SHARDED_ROUTING_ENABLED\<close> has
  no influence on any field.\<close>

theorem sharded_routing_switch_ignored:
  "EnableShardedRouting (ReadConfig parseURL env) = EnableHeightBasedRouting (ReadConfig parseURL env) \<and>
   ReadConfig parseURL (env(PROXY_SHARDED_ROUTING_ENABLED_ENVIRONMENT_KEY := v)) = ReadConfig parseURL env"
  by (simp add: ReadConfig_def Let_def getenv_def EnvOrDefault_def EnvOrDefaultInt_def
      EnvOrDefaultInt64_def EnvOrDefaultBool_def env_keys)

end
