(* ===== verification/Database.thy ===== *)
theory Database
  imports Strconv
begin

text \<open>
  \<^verbatim>\<open>clients/database\<close>: the request metric as the service and as the Postgres client know it
  (\<^verbatim>\<open>interface.go\<close>, \<^verbatim>\<open>postgres/types.go\<close>), the client that does nothing (\<^verbatim>\<open>noop/database.go\<close>) and
  the queries of \<^verbatim>\<open>postgres/request_metric.go\<close>. The database itself is a parameter: the result
  the query builder hands back is an argument of the operations. A time is an integer number
  of nanoseconds since the zero time.
\<close>

section \<open>Metrics\<close>

record ProxiedRequestMetric =
  MetricID :: int
  MethodName :: string
  BlockNumber :: "int option"
  ResponseLatencyMilliseconds :: int
  Hostname :: string
  RequestIP :: string
  RequestTime :: int
  UserAgent :: "string option"
  Referer :: "string option"
  Origin :: "string option"
  ResponseBackend :: string
  ResponseBackendRoute :: string
  CacheHit :: bool
  PartOfBatch :: bool

record pg_ProxiedRequestMetric =
  pg_ID :: int
  pg_MethodName :: string
  pg_BlockNumber :: "int option"
  pg_ResponseLatencyMilliseconds :: int
  pg_Hostname :: string
  pg_RequestIP :: string
  pg_RequestTime :: int
  pg_UserAgent :: "string option"
  pg_Referer :: "string option"
  pg_Origin :: "string option"
  pg_ResponseBackend :: string
  pg_ResponseBackendRoute :: string
  pg_CacheHit :: bool
  pg_PartOfBatch :: bool

definition ToProxiedRequestMetric :: "pg_ProxiedRequestMetric \<Rightarrow> ProxiedRequestMetric" where
  "ToProxiedRequestMetric prm =
     \<lparr>MetricID = pg_ID prm, MethodName = pg_MethodName prm, BlockNumber = pg_BlockNumber prm,
      ResponseLatencyMilliseconds = pg_ResponseLatencyMilliseconds prm, Hostname = pg_Hostname prm,
      RequestIP = pg_RequestIP prm, RequestTime = pg_RequestTime prm, UserAgent = pg_UserAgent prm,
      Referer = pg_Referer prm, Origin = pg_Origin prm, ResponseBackend = pg_ResponseBackend prm,
      ResponseBackendRoute = pg_ResponseBackendRoute prm, CacheHit = pg_CacheHit prm,
      PartOfBatch = pg_PartOfBatch prm\<rparr>"

definition convertProxiedRequestMetric :: "ProxiedRequestMetric \<Rightarrow> pg_ProxiedRequestMetric" where
  "convertProxiedRequestMetric metric =
     \<lparr>pg_ID = MetricID metric, pg_MethodName = MethodName metric, pg_BlockNumber = BlockNumber metric,
      pg_ResponseLatencyMilliseconds = ResponseLatencyMilliseconds metric, pg_Hostname = Hostname metric,
      pg_RequestIP = RequestIP metric, pg_RequestTime = RequestTime metric, pg_UserAgent = UserAgent metric,
      pg_Referer = Referer metric, pg_Origin = Origin metric, pg_ResponseBackend = ResponseBackend metric,
      pg_ResponseBackendRoute = ResponseBackendRoute metric, pg_CacheHit = CacheHit metric,
      pg_PartOfBatch = PartOfBatch metric\<rparr>"

lemma ToProxiedRequestMetric_convert [simp]: "ToProxiedRequestMetric (convertProxiedRequestMetric m) = m"
  by (simp add: ToProxiedRequestMetric_def convertProxiedRequestMetric_def)

lemma convert_ToProxiedRequestMetric [simp]: "convertProxiedRequestMetric (ToProxiedRequestMetric p) = p"
  by (simp add: ToProxiedRequestMetric_def convertProxiedRequestMetric_def)

section \<open>The interface of a metrics database\<close>

text \<open>
  The interface is the record of its operations over a database state \<open>'d\<close>. An error is its
  message, \<open>None\<close> the nil error. \<open>noop\<close> is the client used when no database is configured.
\<close>

type_synonym error = "string option"

record 'd MetricsDatabase =
  db_SaveProxiedRequestMetric :: "'d \<Rightarrow> ProxiedRequestMetric \<Rightarrow> 'd \<times> error"
  db_ListProxiedRequestMetricsWithPagination ::
    "'d \<Rightarrow> int \<Rightarrow> int \<Rightarrow> (unit, ProxiedRequestMetric list \<times> int \<times> error) result"
  db_CountAttachedProxiedRequestMetricPartitions :: "'d \<Rightarrow> int \<times> error"
  db_GetLastCreatedAttachedProxiedRequestMetricsPartitionName :: "'d \<Rightarrow> string \<times> error"
  db_DeleteProxiedRequestMetricsOlderThanNDays :: "'d \<Rightarrow> int \<Rightarrow> 'd \<times> error"
  db_HealthCheck :: "'d \<Rightarrow> error"
  db_Partition :: "'d \<Rightarrow> int \<Rightarrow> 'd \<times> error"

definition noop_SaveProxiedRequestMetric :: "'d \<Rightarrow> ProxiedRequestMetric \<Rightarrow> 'd \<times> error" where
  "noop_SaveProxiedRequestMetric d metric = (d, None)"

definition noop_ListProxiedRequestMetricsWithPagination ::
  "'d \<Rightarrow> int \<Rightarrow> int \<Rightarrow> (unit, ProxiedRequestMetric list \<times> int \<times> error) result" where
  "noop_ListProxiedRequestMetricsWithPagination d cursor limit = Ok ([], 0, None)"

definition noop :: "'d MetricsDatabase" where
  "noop =
     \<lparr>db_SaveProxiedRequestMetric = noop_SaveProxiedRequestMetric,
      db_ListProxiedRequestMetricsWithPagination = noop_ListProxiedRequestMetricsWithPagination,
      db_CountAttachedProxiedRequestMetricPartitions = (\<lambda>d. (0, None)),
      db_GetLastCreatedAttachedProxiedRequestMetricsPartitionName = (\<lambda>d. ([], None)),
      db_DeleteProxiedRequestMetricsOlderThanNDays = (\<lambda>d n. (d, None)),
      db_HealthCheck = (\<lambda>d. None),
      db_Partition = (\<lambda>d prefillPeriodDays. (d, None))\<rparr>"

section \<open>The Postgres client's queries\<close>

text \<open>
  A table is the list of its rows in insertion order. \<open>exec_insert\<close> stands for the insert
  query: the new table and an error, if any.
\<close>

type_synonym metric_table = "pg_ProxiedRequestMetric list"

definition SaveProxiedRequestMetric ::
  "('d \<Rightarrow> pg_ProxiedRequestMetric \<Rightarrow> 'd \<times> error) \<Rightarrow> 'd \<Rightarrow> ProxiedRequestMetric \<Rightarrow> 'd \<times> error" where
  "SaveProxiedRequestMetric exec_insert db metric = exec_insert db (convertProxiedRequestMetric metric)"

text \<open>
  One page of metrics. \<open>scanAndCount cursor limit\<close> stands for the query builder's
  \<^verbatim>\<open>ScanAndCount\<close>: the rows scanned, the count and an error, if any. Reading the row of index
  \<open>count - 1\<close> panics when fewer rows were scanned.
\<close>

definition ListProxiedRequestMetricsWithPagination ::
  "(int \<Rightarrow> int \<Rightarrow> metric_table \<times> int \<times> error) \<Rightarrow> int \<Rightarrow> int \<Rightarrow>
    (unit, ProxiedRequestMetric list \<times> int \<times> error) result" where
  "ListProxiedRequestMetricsWithPagination scanAndCount cursor limit =
     (case scanAndCount cursor limit of (rows, count, err) \<Rightarrow>
        let metrics = map ToProxiedRequestMetric rows in
        if count = limit
        then (if 1 \<le> count \<and> count \<le> int (length rows)
              then Ok (metrics, pg_ID (rows ! nat (count - 1)), err)
              else Panic IndexOutOfRange)
        else Ok (metrics, 0, err))"

text \<open>
  What the query builder documents of \<^verbatim>\<open>ScanAndCount\<close>: the rows are the first \<open>limit\<close> rows
  after the cursor, and the count is the number of all rows after the cursor, without the limit.
\<close>

definition scans_and_counts :: "metric_table \<Rightarrow> (int \<Rightarrow> int \<Rightarrow> metric_table \<times> int \<times> error) \<Rightarrow> bool" where
  "scans_and_counts table scanAndCount \<longleftrightarrow>
     (\<forall>cursor limit. 0 < limit \<longrightarrow>
        scanAndCount cursor limit =
          (take (nat limit) (filter (\<lambda>row. cursor < pg_ID row) table),
           int (length (filter (\<lambda>row. cursor < pg_ID row) table)), None))"

section \<open>Properties\<close>

text \<open>C39: A page never panics, holds the first \<open>limit\<close> metrics after the cursor, and its next
  cursor is non-zero exactly when the rows after the cursor number exactly \<open>limit\<close>: with more
  rows left the cursor is 0, although the comment says 0 means that no more pages exist.\<close>

theorem pagination_cursor:
  fixes cursor :: int
  assumes "scans_and_counts table scanAndCount" and "0 < limit"
    and "\<forall>row\<in>set table. 0 < pg_ID row"
  defines "after \<equiv> filter (\<lambda>row. cursor < pg_ID row) table"
  shows "\<exists>next. ListProxiedRequestMetricsWithPagination scanAndCount cursor limit =
      Ok (map ToProxiedRequestMetric (take (nat limit) after), next, None) \<and>
    (next \<noteq> 0 \<longleftrightarrow> int (length after) = limit) \<and>
    (next \<noteq> 0 \<longrightarrow> next = pg_ID (last after))"
proof -
  have scan: "scanAndCount cursor limit = (take (nat limit) after, int (length after), None)"
    using assms(1,2) by (simp add: scans_and_counts_def after_def)
  show ?thesis
  proof (cases "int (length after) = limit")
    case True
    then have len: "nat limit = length after" "after \<noteq> []" using assms(2) by auto
    then have last: "after ! (length after - 1) = last after" by (simp add: last_conv_nth)
    have "last after \<in> set table" using len(2) last_in_set [of after] by (auto simp: after_def)
    then have "0 < pg_ID (last after)" using assms(3) by simp
    moreover have "1 \<le> limit" using assms(2) by simp
    ultimately show ?thesis using True len last
      by (simp add: ListProxiedRequestMetricsWithPagination_def scan nat_diff_distrib Let_def)
  next
    case False
    then show ?thesis by (simp add: ListProxiedRequestMetricsWithPagination_def scan Let_def)
  qed
qed

text \<open>Rows and a query function for examples.\<close>

definition sample_row :: "int \<Rightarrow> pg_ProxiedRequestMetric" where
  "sample_row i =
     \<lparr>pg_ID = i, pg_MethodName = ''eth_chainId'', pg_BlockNumber = None, pg_ResponseLatencyMilliseconds = 1,
      pg_Hostname = ''h'', pg_RequestIP = ''10.0.0.1'', pg_RequestTime = 0, pg_UserAgent = None,
      pg_Referer = None, pg_Origin = None, pg_ResponseBackend = ''DEFAULT'',
      pg_ResponseBackendRoute = ''http://d'', pg_CacheHit = False, pg_PartOfBatch = False\<rparr>"

definition scan_table :: "metric_table \<Rightarrow> int \<Rightarrow> int \<Rightarrow> metric_table \<times> int \<times> error" where
  "scan_table table cursor limit =
     (take (nat limit) (filter (\<lambda>row. cursor < pg_ID row) table),
      int (length (filter (\<lambda>row. cursor < pg_ID row) table)), None)"

theorem pagination_cursor_witness:
  "ListProxiedRequestMetricsWithPagination (scan_table (map sample_row [1, 2, 3])) 0 2 =
     Ok (map (ToProxiedRequestMetric \<circ> sample_row) [1, 2], 0, None)"
  using pagination_cursor [of "map sample_row [1, 2, 3]" "scan_table (map sample_row [1, 2, 3])" 2 0]
  by (simp add: scans_and_counts_def scan_table_def sample_row_def)

end
