(* ===== verification/Http.thy ===== *)
theory Http
  imports Decode Config Database
begin

text \<open>
  The parts of \<^verbatim>\<open>net/http\<close> and \<^verbatim>\<open>context\<close> the service is written against: headers with
  canonical keys, request contexts, requests, the two response writers that reach the
  handlers (the server's own and the batch middleware's \<^verbatim>\<open>fakeResponseWriter\<close>), the state a
  handler can change, and the type of a handler. The locale \<open>response_writer\<close> states the
  contract of a response writer.
\<close>

section \<open>Headers\<close>

type_synonym Header = "(string, string list) gomap"

text \<open>
  \<^verbatim>\<open>CanonicalMIMEHeaderKey\<close>: letters after a hyphen (and the first) in upper case, the others in
  lower case; a name with a byte that is not allowed in a header name stays as it is.
\<close>

definition header_token :: "char \<Rightarrow> bool" where
  "header_token c \<longleftrightarrow>
     (let n = (of_char c :: nat) in
      48 \<le> n \<and> n \<le> 57 \<or> 65 \<le> n \<and> n \<le> 90 \<or> 97 \<le> n \<and> n \<le> 122 \<or>
      n \<in> {33, 35, 36, 37, 38, 39, 42, 43, 45, 46, 94, 95, 96, 124, 126})"

definition header_case :: "bool \<Rightarrow> char \<Rightarrow> char" where
  "header_case up c =
     (let n = (of_char c :: nat) in
      if up \<and> 97 \<le> n \<and> n \<le> 122 then char_of (n - 32)
      else if \<not> up \<and> 65 \<le> n \<and> n \<le> 90 then char_of (n + 32) else c)"

fun canonical_letters :: "bool \<Rightarrow> string \<Rightarrow> string" where
  "canonical_letters up [] = []"
| "canonical_letters up (c # cs) = header_case up c # canonical_letters (c = CHR ''-'') cs"

definition canonical_key :: "string \<Rightarrow> string" where
  "canonical_key k = (if list_all header_token k then canonical_letters True k else k)"

definition header_values :: "Header \<Rightarrow> string \<Rightarrow> string list" where
  "header_values h k = (case map_of h k of Some vs \<Rightarrow> vs | None \<Rightarrow> [])"

definition Header_Get :: "Header \<Rightarrow> string \<Rightarrow> string" where
  "Header_Get h k = (case header_values h (canonical_key k) of v # vs \<Rightarrow> v | [] \<Rightarrow> [])"

definition Header_Set :: "string \<Rightarrow> string \<Rightarrow> Header \<Rightarrow> Header" where
  "Header_Set k v h = AList.update (canonical_key k) [v] h"

definition Header_Add :: "string \<Rightarrow> string \<Rightarrow> Header \<Rightarrow> Header" where
  "Header_Add k v h = AList.update (canonical_key k) (header_values h (canonical_key k) @ [v]) h"

definition Header_Del :: "string \<Rightarrow> Header \<Rightarrow> Header" where
  "Header_Del k h = AList.delete (canonical_key k) h"

lemma header_case_code:
  "(of_char (header_case up c) :: nat) =
     (let n = (of_char c :: nat) in
      if up \<and> 97 \<le> n \<and> n \<le> 122 then n - 32 else if \<not> up \<and> 65 \<le> n \<and> n \<le> 90 then n + 32 else n)"
  by (auto simp: header_case_def Let_def intro!: mod_less)

lemma char_eq_code: "x = y \<longleftrightarrow> (of_char x :: nat) = of_char y"
  by (simp add: of_char_eq_iff)

lemma header_case_hyphen: "header_case up c = CHR ''-'' \<longleftrightarrow> c = CHR ''-''"
  unfolding char_eq_code header_case_code Let_def by simp arith

lemma header_case_token: "header_token (header_case up c) = header_token c"
  unfolding header_token_def header_case_code Let_def by simp arith

lemma header_case_idem: "header_case up (header_case up c) = header_case up c"
  unfolding char_eq_code header_case_code Let_def by simp arith

lemma canonical_letters_token: "list_all header_token (canonical_letters up k) = list_all header_token k"
  by (induction up k rule: canonical_letters.induct) (auto simp: header_case_token)

lemma canonical_letters_idem: "canonical_letters up (canonical_letters up k) = canonical_letters up k"
  by (induction up k rule: canonical_letters.induct) (auto simp: header_case_idem header_case_hyphen)

lemma canonical_key_idem [simp]: "canonical_key (canonical_key k) = canonical_key k"
  by (simp add: canonical_key_def canonical_letters_token canonical_letters_idem)

lemma header_values_update [simp]:
  "header_values (AList.update k vs h) k' = (if k' = k then vs else header_values h k')"
  by (simp add: header_values_def update_conv')

lemma header_values_delete [simp]:
  "header_values (AList.delete k h) k' = (if k' = k then [] else header_values h k')"
  by (simp add: header_values_def delete_conv')

lemma header_values_Set: "header_values (Header_Set k v h) k' = (if k' = canonical_key k then [v] else header_values h k')"
  by (simp add: Header_Set_def)

lemma header_values_Add:
  "header_values (Header_Add k v h) k' =
     (if k' = canonical_key k then header_values h k' @ [v] else header_values h k')"
  by (simp add: Header_Add_def)

lemma Header_Get_Set [simp]:
  "Header_Get (Header_Set k v h) k' = (if canonical_key k' = canonical_key k then v else Header_Get h k')"
  by (simp add: Header_Get_def Header_Set_def)

lemma Header_Get_Del [simp]:
  "Header_Get (Header_Del k h) k' = (if canonical_key k' = canonical_key k then [] else Header_Get h k')"
  by (simp add: Header_Get_def Header_Del_def)

lemma Header_Get_Add:
  "Header_Get (Header_Add k v h) k' =
     (if canonical_key k' = canonical_key k \<and> header_values h (canonical_key k) = [] then v else Header_Get h k')"
  by (auto simp: Header_Get_def Header_Add_def split: list.splits)

section \<open>Contexts\<close>

record ProxyMetadata =
  BackendName :: string
  BackendRoute :: URL
  ShardEndHeight :: uint64

record QueryResponse =
  JsonRpcResponseResult :: bytes
  HeaderMap :: "(string, string) gomap"

text \<open>
  The dynamic types of the values the middlewares put into a context: a type assertion is a
  match on the constructor. A pointer to an envelope may be nil.
\<close>

datatype ctxval =
    CtxRequest "EVMRPCRequestEnvelope option"
  | CtxBatch "EVMRPCRequestEnvelope option list"
  | CtxTime int
  | CtxInt64 int
  | CtxString string
  | CtxBool bool
  | CtxBytes bytes
  | CtxQueryResponse QueryResponse
  | CtxProxyMetadata ProxyMetadata

type_synonym Context = "(string \<times> ctxval) list"

definition WithValue :: "Context \<Rightarrow> string \<Rightarrow> ctxval \<Rightarrow> Context" where
  "WithValue ctx key val = (key, val) # ctx"

definition Value :: "Context \<Rightarrow> string \<Rightarrow> ctxval option" where
  "Value ctx key = map_of ctx key"

lemma Value_WithValue [simp]: "Value (WithValue ctx k v) k' = (if k' = k then Some v else Value ctx k')"
  by (simp add: Value_def WithValue_def)

section \<open>Requests\<close>

text \<open>
  A body is what is left to read and whether reading ends with an error; a nil body is \<open>None\<close>.
\<close>

datatype reader = Reader (unread: bytes) (read_fails: bool)

definition ReadAll :: "reader \<Rightarrow> bytes \<times> bool \<times> reader" where
  "ReadAll r = (unread r, read_fails r, Reader [] (read_fails r))"

record Request =
  ReqMethod :: string
  ReqURL :: string
  Host :: string
  ReqHeader :: Header
  Body :: "reader option"
  RemoteAddr :: string
  Ctx :: Context

definition WithContext :: "Request \<Rightarrow> Context \<Rightarrow> Request" where
  "WithContext r ctx = r\<lparr>Ctx := ctx\<rparr>"

lemma WithContext_simps [simp]:
  "Ctx (WithContext r ctx) = ctx" "Host (WithContext r ctx) = Host r" "Body (WithContext r ctx) = Body r"
  "ReqHeader (WithContext r ctx) = ReqHeader r" "RemoteAddr (WithContext r ctx) = RemoteAddr r"
  "ReqMethod (WithContext r ctx) = ReqMethod r" "ReqURL (WithContext r ctx) = ReqURL r"
  by (simp_all add: WithContext_def)

end
