(* ===== verification/Writer.thy ===== *)
theory Writer
  imports Http
begin

text \<open>
  Response writers. \<open>http_response\<close> is the writer of the HTTP server: the header map stays
  mutable, and the status and a snapshot of the headers go out with the first
  \<^verbatim>\<open>WriteHeader\<close> (or with the first \<^verbatim>\<open>Write\<close>, as 200). \<open>fakeResponseWriter\<close> is
  \<^verbatim>\<open>batchmdw/fake_response_writer.go\<close>. \<open>bodySaverResponseWriter\<close> of \<^verbatim>\<open>service/middleware.go\<close> wraps
  either through the writer of the \<^verbatim>\<open>negroni\<close> package, which is a parameter.
\<close>

section \<open>The server's writer\<close>

definition StatusOK :: int where "StatusOK = 200"
definition StatusRequestEntityTooLarge :: int where "StatusRequestEntityTooLarge = 413"
definition StatusInternalServerError :: int where "StatusInternalServerError = 500"
definition StatusBadGateway :: int where "StatusBadGateway = 502"

lemmas status_codes = StatusOK_def StatusRequestEntityTooLarge_def StatusInternalServerError_def StatusBadGateway_def

record http_response =
  live_header :: Header
  sent_head :: "(int \<times> Header) option"
  sent_body :: bytes

definition new_response :: http_response where
  "new_response = \<lparr>live_header = [], sent_head = None, sent_body = []\<rparr>"

text \<open>An informational status (1xx, but for 101) does not end the header.\<close>

definition server_WriteHeader :: "int \<Rightarrow> http_response \<Rightarrow> http_response" where
  "server_WriteHeader code w =
     (if sent_head w \<noteq> None \<or> 100 \<le> code \<and> code < 200 \<and> code \<noteq> 101 then w
      else w\<lparr>sent_head := Some (code, live_header w)\<rparr>)"

definition server_Write :: "bytes \<Rightarrow> http_response \<Rightarrow> http_response" where
  "server_Write b w =
     (let w' = (if sent_head w = None then server_WriteHeader StatusOK w else w) in
      w'\<lparr>sent_body := sent_body w' @ b\<rparr>)"

section \<open>The batch middleware's writer\<close>

text \<open>\<open>fw_errors\<close> are the calls of \<^verbatim>\<open>onErrorHandler\<close>, in order.\<close>

record fakeResponseWriter =
  fw_body :: bytes
  fw_header :: Header
  fw_errors :: "int list"

definition newFakeResponseWriter :: "bytes \<Rightarrow> fakeResponseWriter" where
  "newFakeResponseWriter buf = \<lparr>fw_body = buf, fw_header = [], fw_errors = []\<rparr>"

definition fake_Write :: "bytes \<Rightarrow> fakeResponseWriter \<Rightarrow> fakeResponseWriter" where
  "fake_Write b w = w\<lparr>fw_body := fw_body w @ b\<rparr>"

definition fake_Header :: "fakeResponseWriter \<Rightarrow> Header" where
  "fake_Header w = fw_header w"

definition fake_WriteHeader :: "int \<Rightarrow> fakeResponseWriter \<Rightarrow> fakeResponseWriter" where
  "fake_WriteHeader status w =
     (if status \<noteq> StatusOK then w\<lparr>fw_errors := fw_errors w @ [status]\<rparr> else w)"

section \<open>Either writer\<close>

datatype ResponseWriter = Server http_response | Fake fakeResponseWriter

fun w_Header :: "ResponseWriter \<Rightarrow> Header" where
  "w_Header (Server w) = live_header w"
| "w_Header (Fake w) = fake_Header w"

text \<open>An update through the header map that \<^verbatim>\<open>Header()\<close> returns.\<close>

fun w_change_header :: "(Header \<Rightarrow> Header) \<Rightarrow> ResponseWriter \<Rightarrow> ResponseWriter" where
  "w_change_header f (Server w) = Server (w\<lparr>live_header := f (live_header w)\<rparr>)"
| "w_change_header f (Fake w) = Fake (w\<lparr>fw_header := f (fw_header w)\<rparr>)"

fun w_WriteHeader :: "int \<Rightarrow> ResponseWriter \<Rightarrow> ResponseWriter" where
  "w_WriteHeader code (Server w) = Server (server_WriteHeader code w)"
| "w_WriteHeader code (Fake w) = Fake (fake_WriteHeader code w)"

fun w_Write :: "bytes \<Rightarrow> ResponseWriter \<Rightarrow> ResponseWriter" where
  "w_Write b (Server w) = Server (server_Write b w)"
| "w_Write b (Fake w) = Fake (fake_Write b w)"

fun w_body :: "ResponseWriter \<Rightarrow> bytes" where
  "w_body (Server w) = sent_body w"
| "w_body (Fake w) = fw_body w"

section \<open>The contract of a response writer\<close>

locale response_writer =
  fixes hdr :: "'w \<Rightarrow> Header"
    and change :: "(Header \<Rightarrow> Header) \<Rightarrow> 'w \<Rightarrow> 'w"
    and write_header :: "int \<Rightarrow> 'w \<Rightarrow> 'w"
    and put :: "bytes \<Rightarrow> 'w \<Rightarrow> 'w"
    and contents :: "'w \<Rightarrow> bytes"
  assumes hdr_change: "hdr (change f w) = f (hdr w)"
    and hdr_write_header: "hdr (write_header c w) = hdr w"
    and hdr_put: "hdr (put b w) = hdr w"
    and contents_change: "contents (change f w) = contents w"
    and contents_write_header: "contents (write_header c w) = contents w"
    and contents_put: "contents (put b w) = contents w @ b"
begin

lemma contents_puts: "contents (fold put bs w) = contents w @ concat bs"
  by (induction bs arbitrary: w) (simp_all add: contents_put)

lemma hdr_puts: "hdr (fold put bs w) = hdr w"
  by (induction bs arbitrary: w) (simp_all add: hdr_put)

lemma hdr_get_set: "Header_Get (hdr (change (Header_Set k v) w)) k = v"
  by (simp add: hdr_change)

end

lemmas writer_defs = server_WriteHeader_def server_Write_def fake_Write_def fake_Header_def
  fake_WriteHeader_def newFakeResponseWriter_def new_response_def

interpretation server: response_writer live_header "\<lambda>f w. w\<lparr>live_header := f (live_header w)\<rparr>"
  server_WriteHeader server_Write sent_body
  by unfold_locales (simp_all add: writer_defs Let_def)

interpretation fake: response_writer fake_Header "\<lambda>f w. w\<lparr>fw_header := f (fw_header w)\<rparr>"
  fake_WriteHeader fake_Write fw_body
  by unfold_locales (simp_all add: writer_defs)

interpretation rw: response_writer w_Header w_change_header w_WriteHeader w_Write w_body
proof (unfold_locales, goal_cases)
  case (1 f w) then show ?case by (cases w) (simp_all add: fake_Header_def)
next
  case (2 c w) then show ?case by (cases w) (simp_all add: server.hdr_write_header fake.hdr_write_header)
next
  case (3 b w) then show ?case by (cases w) (simp_all add: server.hdr_put fake.hdr_put)
next
  case (4 f w) then show ?case by (cases w) simp_all
next
  case (5 c w) then show ?case by (cases w) (simp_all add: server.contents_write_header fake.contents_write_header)
next
  case (6 b w) then show ?case by (cases w) (simp_all add: server.contents_put fake.contents_put)
qed

lemmas rw_simps [simp] = rw.hdr_change rw.hdr_write_header rw.hdr_put rw.contents_change
  rw.contents_write_header rw.contents_put

end
