(* ===== verification/Proxies.thy ===== *)
theory Proxies
  imports Writer
begin

text \<open>
  \<^verbatim>\<open>service/proxy.go\<close> and \<^verbatim>\<open>service/shard.go\<close>: the choice of a backend for a request, by host,
  by host and height (pruning or default cluster) and by shard. The interface \<^verbatim>\<open>Proxies\<close> is the
  datatype of its three implementations; a shard router wraps another one. A reverse proxy is
  represented by the URL it was created for. Routing can panic (see \<open>Decode\<close>), so it returns
  a \<open>result\<close> that is never \<open>Err\<close>.
\<close>

section \<open>Names and keys\<close>

definition DecodedRequestContextKey :: string where
  "DecodedRequestContextKey = ''X-KAVA-PROXY-DECODED-REQUEST-BODY''"

definition ResponseBackendDefault :: string where "ResponseBackendDefault = ''DEFAULT''"
definition ResponseBackendPruning :: string where "ResponseBackendPruning = ''PRUNING''"
definition ResponseBackendShard :: string where "ResponseBackendShard = ''SHARD''"

lemmas backend_names = ResponseBackendDefault_def ResponseBackendPruning_def ResponseBackendShard_def

text \<open>
  \<^verbatim>\<open>req.(*decode.EVMRPCRequestEnvelope)\<close> on the value at a key: \<open>None\<close> when the assertion
  fails; the pointer itself may be nil.
\<close>

definition decoded_request :: "Request \<Rightarrow> string \<Rightarrow> EVMRPCRequestEnvelope option option" where
  "decoded_request r key = (case Value (Ctx r) key of Some (CtxRequest p) \<Rightarrow> Some p | _ \<Rightarrow> None)"

section \<open>Routing by host\<close>

datatype ReverseProxy = ReverseProxy (proxy_target: URL)

type_synonym choice = "ReverseProxy option \<times> ProxyMetadata \<times> bool"

record HostProxies =
  hp_name :: string
  proxyForHost :: "(string, ReverseProxy) gomap"
  targetUrlForHost :: "(string, URL) gomap"

definition HostProxies_ProxyForRequest :: "HostProxies \<Rightarrow> Request \<Rightarrow> choice" where
  "HostProxies_ProxyForRequest hbp r =
     (let proxy = map_of (proxyForHost hbp) (Host r) in
      (proxy,
       \<lparr>BackendName = hp_name hbp,
        BackendRoute = (case map_of (targetUrlForHost hbp) (Host r) of Some u \<Rightarrow> u | None \<Rightarrow> []),
        ShardEndHeight = 0\<rparr>,
       proxy \<noteq> None))"

fun new_host_proxies_loop ::
  "(string, URL) gomap \<Rightarrow> (string, ReverseProxy) gomap \<Rightarrow> (string, URL) gomap \<Rightarrow> (string, ReverseProxy) gomap" where
  "new_host_proxies_loop hostURLMap reverseProxyForHost [] = reverseProxyForHost"
| "new_host_proxies_loop hostURLMap reverseProxyForHost ((host, proxyBackendURL) # entries) =
     (let targetURL = (case map_of hostURLMap host of Some u \<Rightarrow> u | None \<Rightarrow> []) in
      new_host_proxies_loop hostURLMap
        (AList.update host (ReverseProxy targetURL) reverseProxyForHost) entries)"

definition newHostProxies :: "string \<Rightarrow> (string, URL) gomap \<Rightarrow> HostProxies" where
  "newHostProxies name hostURLMap =
     \<lparr>hp_name = name, proxyForHost = new_host_proxies_loop hostURLMap [] hostURLMap,
      targetUrlForHost = hostURLMap\<rparr>"

section \<open>Routing by host and height\<close>

record PruningOrDefaultProxies =
  pruningProxies :: HostProxies
  pd_defaultProxies :: HostProxies

definition blockTagEncodingsRoutedToLatest :: "(int, bool) gomap" where
  "blockTagEncodingsRoutedToLatest =
     [(codec_at BlockTagLatest, True), (codec_at BlockTagFinalized, True), (codec_at BlockTagPending, True),
      (codec_at BlockTagSafe, True), (codec_at BlockTagEmpty, True)]"

definition shouldRouteToPruning :: "int \<Rightarrow> bool" where
  "shouldRouteToPruning encodedHeight =
     (case map_of blockTagEncodingsRoutedToLatest encodedHeight of Some b \<Rightarrow> b | None \<Rightarrow> False)"

definition Pruning_ProxyForRequest ::
  "(string \<Rightarrow> int option) \<Rightarrow> PruningOrDefaultProxies \<Rightarrow> Request \<Rightarrow> (unit, choice) result" where
  "Pruning_ProxyForRequest newInt hsp r =
     (let toPruning = Ok (HostProxies_ProxyForRequest (pruningProxies hsp) r);
          toDefault = Ok (HostProxies_ProxyForRequest (pd_defaultProxies hsp) r) in
      case HostProxies_ProxyForRequest (pruningProxies hsp) r of (_, _, found) \<Rightarrow>
      if \<not> found then toDefault
      else (case decoded_request r DecodedRequestContextKey of
              None \<Rightarrow> toDefault
            | Some None \<Rightarrow> Panic NilDereference
            | Some (Some decodedReq) \<Rightarrow>
                if MethodRequiresNoHistory (Method decodedReq) then toPruning
                else if \<not> MethodHasBlockNumberParam (Method decodedReq) then toDefault
                else (case ParseBlockNumberFromParams newInt (Method decodedReq) (Params decodedReq) of
                        Panic p \<Rightarrow> Panic p
                      | Err err \<Rightarrow> toDefault
                      | Ok height \<Rightarrow> if shouldRouteToPruning height then toPruning else toDefault)))"

definition newPruningOrDefaultProxies :: "Config \<Rightarrow> PruningOrDefaultProxies" where
  "newPruningOrDefaultProxies config =
     \<lparr>pruningProxies = newHostProxies ResponseBackendPruning (ProxyPruningBackendHostURLMap config),
      pd_defaultProxies = newHostProxies ResponseBackendDefault (ProxyBackendHostURLMapParsed config)\<rparr>"

section \<open>Routing to shards\<close>

datatype Proxies =
    Host_Proxies HostProxies
  | PruningOrDefault_Proxies PruningOrDefaultProxies
  | Shard_Proxies (sp_defaultProxies: Proxies) (shardsByHost: "(string, IntervalURLMap) gomap")
      (proxyByURL: "(urlptr, ReverseProxy) gomap")

text \<open>
  The tail of the shard router: look for the shard of a height. Dereferencing a nil URL would
  panic; the invariant of the tables excludes it.
\<close>

definition shard_lookup ::
  "IntervalURLMap \<Rightarrow> (urlptr, ReverseProxy) gomap \<Rightarrow> int \<Rightarrow> (unit, choice) result \<Rightarrow> (unit, choice) result" where
  "shard_lookup shardsForHost proxies height fallback =
     (case Lookup shardsForHost (word_of_int height) of (u, shardHeight, found) \<Rightarrow>
        if \<not> found then fallback
        else (case u of
                None \<Rightarrow> Panic NilDereference
              | Some p \<Rightarrow>
                  Ok (map_of proxies p,
                      \<lparr>BackendName = ResponseBackendShard, BackendRoute = ptr_url p, ShardEndHeight = shardHeight\<rparr>,
                      True)))"

fun ProxyForRequest :: "(string \<Rightarrow> int option) \<Rightarrow> Proxies \<Rightarrow> Request \<Rightarrow> (unit, choice) result" where
  "ProxyForRequest newInt (Host_Proxies hbp) r = Ok (HostProxies_ProxyForRequest hbp r)"
| "ProxyForRequest newInt (PruningOrDefault_Proxies hsp) r = Pruning_ProxyForRequest newInt hsp r"
| "ProxyForRequest newInt (Shard_Proxies defaultProxies shards proxies) r =
     (case map_of shards (Host r) of
        None \<Rightarrow> ProxyForRequest newInt defaultProxies r
      | Some shardsForHost \<Rightarrow>
          bind_result (ProxyForRequest newInt defaultProxies r) (\<lambda>(proxy, metadata, found).
            if BackendName metadata \<noteq> ResponseBackendDefault \<or> \<not> found then Ok (proxy, metadata, found)
            else (case decoded_request r DecodedRequestContextKey of
                    None \<Rightarrow> ProxyForRequest newInt defaultProxies r
                  | Some None \<Rightarrow> Panic NilDereference
                  | Some (Some decodedReq) \<Rightarrow>
                      (case ParseBlockNumberFromParams newInt (Method decodedReq) (Params decodedReq) of
                         Panic p \<Rightarrow> Panic p
                       | Err err \<Rightarrow> ProxyForRequest newInt defaultProxies r
                       | Ok parsedHeight \<Rightarrow>
                           if parsedHeight = codec_at BlockTagEarliest
                           then shard_lookup shardsForHost proxies 1 (ProxyForRequest newInt defaultProxies r)
                           else if parsedHeight < 1 then ProxyForRequest newInt defaultProxies r
                           else shard_lookup shardsForHost proxies parsedHeight
                                  (ProxyForRequest newInt defaultProxies r)))))"

definition newShardProxies :: "(string, IntervalURLMap) gomap \<Rightarrow> Proxies \<Rightarrow> Proxies" where
  "newShardProxies shardHostMap beyondShardProxies =
     Shard_Proxies beyondShardProxies shardHostMap
       (fold (\<lambda>(host, shards) proxies.
                fold (\<lambda>(e, route) proxies. AList.update route (ReverseProxy (ptr_url route)) proxies)
                  (UrlByEndHeight shards) proxies)
          shardHostMap [])"

definition NewProxies :: "Config \<Rightarrow> Proxies" where
  "NewProxies config =
     (let proxies =
        (if EnableHeightBasedRouting config
         then PruningOrDefault_Proxies (newPruningOrDefaultProxies config)
         else Host_Proxies (newHostProxies ResponseBackendDefault (ProxyBackendHostURLMapParsed config)))
      in if EnableShardedRouting config then newShardProxies (ProxyShardBackendHostURLMap config) proxies
         else proxies)"

section \<open>The proxies that are built\<close>

lemma new_host_proxies_loop_lookup:
  assumes "map_wf entries"
  shows "map_of (new_host_proxies_loop m acc entries) h =
    (if h \<in> fst ` set entries then Some (ReverseProxy (case map_of m h of Some u \<Rightarrow> u | None \<Rightarrow> []))
     else map_of acc h)"
  using assms
proof (induction m acc entries rule: new_host_proxies_loop.induct)
  case (2 m acc host u entries)
  then show ?case by (auto simp: map_wf_def Let_def update_conv' image_iff)
qed simp

lemma newHostProxies_lookup:
  "map_wf m \<Longrightarrow> map_of (proxyForHost (newHostProxies name m)) h = map_option ReverseProxy (map_of m h)"
  by (cases "map_of m h")
     (auto simp: newHostProxies_def new_host_proxies_loop_lookup map_of_eq_None_iff
       dest!: map_of_SomeD intro: rev_image_eqI)

lemma newHostProxies_simps [simp]:
  "hp_name (newHostProxies name m) = name" "targetUrlForHost (newHostProxies name m) = m"
  by (simp_all add: newHostProxies_def)

text \<open>The choice a host router built from a map makes.\<close>

definition host_choice :: "string \<Rightarrow> (string, URL) gomap \<Rightarrow> string \<Rightarrow> choice" where
  "host_choice name m host =
     (case map_of m host of
        Some u \<Rightarrow> (Some (ReverseProxy u), \<lparr>BackendName = name, BackendRoute = u, ShardEndHeight = 0\<rparr>, True)
      | None \<Rightarrow> (None, \<lparr>BackendName = name, BackendRoute = [], ShardEndHeight = 0\<rparr>, False))"

lemma HostProxies_newHostProxies:
  "map_wf m \<Longrightarrow> HostProxies_ProxyForRequest (newHostProxies name m) r = host_choice name m (Host r)"
  by (simp add: HostProxies_ProxyForRequest_def host_choice_def newHostProxies_lookup Let_def split: option.splits)

lemma shouldRouteToPruning_iff: "shouldRouteToPruning h \<longleftrightarrow> h \<in> {-1, -2, -4, -5, -6}"
  by (auto simp: shouldRouteToPruning_def blockTagEncodingsRoutedToLatest_def block_tags)

lemma shard_proxies_inner:
  "map_of (fold (\<lambda>(e, route). AList.update route (ReverseProxy (ptr_url route))) us acc) p =
     (if p \<in> snd ` set us then Some (ReverseProxy (ptr_url p)) else map_of acc p)"
  by (induction us arbitrary: acc) (auto simp: update_conv')

lemma newShardProxies_lookup:
  "map_of (proxyByURL (newShardProxies m d)) p =
     (if \<exists>(h, im)\<in>set m. p \<in> snd ` set (UrlByEndHeight im) then Some (ReverseProxy (ptr_url p)) else None)"
proof -
  have "map_of (fold (\<lambda>(host, shards). fold (\<lambda>(e, route). AList.update route (ReverseProxy (ptr_url route)))
        (UrlByEndHeight shards)) m acc) p =
      (if \<exists>(h, im)\<in>set m. p \<in> snd ` set (UrlByEndHeight im) then Some (ReverseProxy (ptr_url p)) else map_of acc p)" for acc
  proof (induction m arbitrary: acc)
    case (Cons x m)
    show ?case by (cases x) (auto simp: Cons.IH shard_proxies_inner)
  qed simp
  then show ?thesis by (simp add: newShardProxies_def)
qed

section \<open>The contract of the interface\<close>

text \<open>
  What the proxy middleware relies on: a choice is marked found exactly when there is a proxy,
  the proxy forwards to the route that the metadata reports, and an end height is reported for
  shards only.
\<close>

locale proxies_interface =
  fixes route :: "'p \<Rightarrow> Request \<Rightarrow> (unit, choice) result"
    and invar :: "'p \<Rightarrow> bool"
  assumes never_Err: "invar p \<Longrightarrow> route p r \<noteq> Err e"
    and found_iff: "invar p \<Longrightarrow> route p r = Ok (px, md, found) \<Longrightarrow> found \<longleftrightarrow> px \<noteq> None"
    and target: "invar p \<Longrightarrow> route p r = Ok (Some q, md, found) \<Longrightarrow> proxy_target q = BackendRoute md"
    and end_height: "invar p \<Longrightarrow> route p r = Ok (px, md, found) \<Longrightarrow>
      ShardEndHeight md \<noteq> 0 \<Longrightarrow> BackendName md = ResponseBackendShard"
begin

lemma found_proxy:
  "invar p \<Longrightarrow> route p r = Ok (px, md, True) \<Longrightarrow> px = Some (ReverseProxy (BackendRoute md))"
  using found_iff [of p r px md True] target [of p r _ md True] by (cases px) (auto simp: ReverseProxy.expand)

lemma not_found_proxy: "invar p \<Longrightarrow> route p r = Ok (px, md, False) \<Longrightarrow> px = None"
  using found_iff [of p r px md False] by simp

lemma outcome:
  assumes "invar p"
  obtains (found) md where "route p r = Ok (Some (ReverseProxy (BackendRoute md)), md, True)"
  | (missing) md where "route p r = Ok (None, md, False)"
  | (panic) c where "route p r = Panic c"
proof (cases "route p r")
  case (Ok c)
  obtain px md f where c: "c = (px, md, f)" by (cases c)
  then show ?thesis
    using that(1,2) Ok found_proxy [OF assms] not_found_proxy [OF assms] by (cases f) metis+
next
  case (Err e)
  then show ?thesis using never_Err [OF assms] by simp
next
  case (Panic c)
  then show ?thesis by (rule that(3))
qed

end

definition host_proxies_wf :: "HostProxies \<Rightarrow> bool" where
  "host_proxies_wf hp \<longleftrightarrow> (\<exists>name m. map_wf m \<and> hp = newHostProxies name m)"

fun proxies_wf :: "Proxies \<Rightarrow> bool" where
  "proxies_wf (Host_Proxies hp) = host_proxies_wf hp"
| "proxies_wf (PruningOrDefault_Proxies pd) =
     (host_proxies_wf (pruningProxies pd) \<and> host_proxies_wf (pd_defaultProxies pd))"
| "proxies_wf (Shard_Proxies d shards proxies) =
     (proxies_wf d \<and> Shard_Proxies d shards proxies = newShardProxies shards d \<and>
      (\<forall>(h, im)\<in>set shards. interval_wf im))"

lemma host_choice_cases:
  "host_choice name m host = (px, md, found) \<Longrightarrow>
     (found \<longleftrightarrow> px \<noteq> None) \<and> (\<forall>p. px = Some p \<longrightarrow> proxy_target p = BackendRoute md) \<and> ShardEndHeight md = 0 \<and>
     BackendName md = name"
  by (auto simp: host_choice_def split: option.splits)

lemma host_proxies_wf_choice:
  assumes "host_proxies_wf hp" and "HostProxies_ProxyForRequest hp r = (px, md, found)"
  shows "(found \<longleftrightarrow> px \<noteq> None) \<and> (\<forall>p. px = Some p \<longrightarrow> proxy_target p = BackendRoute md) \<and> ShardEndHeight md = 0"
  using assms host_choice_cases by (fastforce simp: host_proxies_wf_def HostProxies_newHostProxies)

interpretation by_host: proxies_interface "\<lambda>hp r. Ok (HostProxies_ProxyForRequest hp r)" host_proxies_wf
  using host_proxies_wf_choice by unfold_locales (fastforce dest: host_proxies_wf_choice)+

lemma Pruning_cases:
  "Pruning_ProxyForRequest newInt pd r = Ok (HostProxies_ProxyForRequest (pruningProxies pd) r) \<or>
   Pruning_ProxyForRequest newInt pd r = Ok (HostProxies_ProxyForRequest (pd_defaultProxies pd) r) \<or>
   (\<exists>p. Pruning_ProxyForRequest newInt pd r = Panic p)"
  by (auto simp: Pruning_ProxyForRequest_def Let_def split: prod.splits option.splits result.splits if_splits)

lemma shard_lookup_wf:
  assumes "interval_wf im" and "(h, im) \<in> set m"
  shows "shard_lookup im (proxyByURL (newShardProxies m d)) n fallback =
    (case Lookup im (word_of_int n) of
       (u, e, True) \<Rightarrow>
         Ok (Some (ReverseProxy (ptr_url (the u))),
             \<lparr>BackendName = ResponseBackendShard, BackendRoute = ptr_url (the u), ShardEndHeight = e\<rparr>, True)
     | (u, e, False) \<Rightarrow> fallback)"
proof -
  obtain u e b where l: "Lookup im (word_of_int n) = (u, e, b)" by (cases "Lookup im (word_of_int n)")
  show ?thesis
  proof (cases b)
    case True
    then obtain p where p: "u = Some p" "map_of (UrlByEndHeight im) e = Some p"
      using shards.found_url [OF assms(1), of "word_of_int n" u e] l by auto
    then have "p \<in> snd ` set (UrlByEndHeight im)" by (force dest: map_of_SomeD)
    then show ?thesis using p True l assms(2)
      by (auto simp: shard_lookup_def newShardProxies_lookup)
  qed (simp add: shard_lookup_def l)
qed

fun choice_ok :: "(unit, choice) result \<Rightarrow> bool" where
  "choice_ok (Ok (px, md, found)) =
     ((found \<longleftrightarrow> px \<noteq> None) \<and> (\<forall>q. px = Some q \<longrightarrow> proxy_target q = BackendRoute md) \<and>
      (ShardEndHeight md \<noteq> 0 \<longrightarrow> BackendName md = ResponseBackendShard))"
| "choice_ok (Err e) = False"
| "choice_ok (Panic p) = True"

lemma choice_ok_host: "host_proxies_wf hp \<Longrightarrow> choice_ok (Ok (HostProxies_ProxyForRequest hp r))"
  using host_proxies_wf_choice [of hp r] by (cases "HostProxies_ProxyForRequest hp r") auto

text \<open>The shard router ends with the choice of the wrapped router, with a shard or with a panic.\<close>

lemma Shard_cases:
  assumes "proxies_wf (Shard_Proxies d shards proxies)"
  shows "ProxyForRequest newInt (Shard_Proxies d shards proxies) r = ProxyForRequest newInt d r \<or>
    (\<exists>u e. ProxyForRequest newInt (Shard_Proxies d shards proxies) r =
      Ok (Some (ReverseProxy u), \<lparr>BackendName = ResponseBackendShard, BackendRoute = u, ShardEndHeight = e\<rparr>, True)) \<or>
    (\<exists>p. ProxyForRequest newInt (Shard_Proxies d shards proxies) r = Panic p)"
proof (cases "map_of shards (Host r)")
  case (Some im)
  have mem: "(Host r, im) \<in> set shards" using Some by (rule map_of_SomeD)
  have px: "proxies = proxyByURL (newShardProxies shards d)" and wf: "interval_wf im"
    using assms mem by (auto simp: newShardProxies_def)
  note look = shard_lookup_wf [OF wf mem, of d, folded px]
  show ?thesis using Some
    by (cases "ProxyForRequest newInt d r")
       (auto simp: look split: prod.splits option.splits result.splits bool.splits if_splits)
qed simp

lemma choice_ok_ProxyForRequest: "proxies_wf p \<Longrightarrow> choice_ok (ProxyForRequest newInt p r)"
proof (induction p)
  case (Host_Proxies hp)
  then show ?case by (simp only: ProxyForRequest.simps proxies_wf.simps choice_ok_host)
next
  case (PruningOrDefault_Proxies pd)
  then show ?case using Pruning_cases [of newInt pd r] choice_ok_host by fastforce
next
  case (Shard_Proxies d shards proxies)
  then have "choice_ok (ProxyForRequest newInt d r)" by simp
  with Shard_cases [OF Shard_Proxies.prems, of newInt r] show ?case by auto
qed

interpretation routers: proxies_interface "ProxyForRequest newInt" proxies_wf for newInt
proof (unfold_locales, goal_cases)
  case (1 p r e) then show ?case using choice_ok_ProxyForRequest [of p newInt r] by auto
next
  case (2 p r px md found) then show ?case using choice_ok_ProxyForRequest [of p newInt r] by simp
next
  case (3 p r q md found) then show ?case using choice_ok_ProxyForRequest [of p newInt r] by simp
next
  case (4 p r px md found) then show ?case using choice_ok_ProxyForRequest [of p newInt r] by simp
qed

section \<open>Routers of a configuration\<close>

text \<open>What the routing relies on of a configuration; \<open>ReadConfig\<close> provides it.\<close>

definition routing_config :: "Config \<Rightarrow> bool" where
  "routing_config c \<longleftrightarrow> map_wf (ProxyBackendHostURLMapParsed c) \<and> map_wf (ProxyPruningBackendHostURLMap c) \<and>
     (\<forall>(h, im)\<in>set (ProxyShardBackendHostURLMap c). interval_wf im)"

lemma routing_config_ReadConfig: "routing_config (ReadConfig parseURL env)"
proof -
  let ?m = "ProxyShardBackendHostURLMap (ReadConfig parseURL env)"
  have wf: "map_wf ?m" and entries: "map_of ?m h = Some im \<Longrightarrow> interval_wf im" for h im
    by (auto simp: ReadConfig_maps ParseRawShardRouting_wf
        intro: shard_entry_interval_wf ParseRawShardRouting_entries)
  then have "\<forall>(h, im)\<in>set ?m. interval_wf im" by (auto simp: map_of_wf_iff [OF wf, symmetric])
  then show ?thesis
    by (simp add: routing_config_def ReadConfig_maps ParseRawProxyBackendHostURLMap_wf)
qed


section \<open>The intended backend\<close>

text \<open>
  The specification of the routing, independent of how the routers are nested: requests about
  the tip of the chain go to the pruning cluster where the host has one, requests about a
  height that a shard contains go to the shard with the least end height not below it, and all
  others go to the default backend. \<open>h\<close> is the encoded height of the request, if it has one.
\<close>

datatype backend = Default | Pruning | Shard uint64

definition tip_request :: "EVMRPCRequestEnvelope \<Rightarrow> int option \<Rightarrow> bool" where
  "tip_request req h \<longleftrightarrow> MethodRequiresNoHistory (Method req) \<or>
     (\<exists>tag\<in>{''latest'', ''pending'', ''finalized'', ''safe'', ''empty''}. h = Some (codec_at tag))"

definition chain_height :: "int option \<Rightarrow> uint64 option" where
  "chain_height h =
     (case h of
        None \<Rightarrow> None
      | Some n \<Rightarrow> if n = codec_at ''earliest'' then Some 1 else if 1 \<le> n then Some (word_of_int n) else None)"

definition intended_backend :: "Config \<Rightarrow> string \<Rightarrow> EVMRPCRequestEnvelope \<Rightarrow> int option \<Rightarrow> backend" where
  "intended_backend c host req h =
     (if EnableHeightBasedRouting c \<and> map_of (ProxyPruningBackendHostURLMap c) host \<noteq> None \<and> tip_request req h
      then Pruning
      else (case (EnableShardedRouting c, map_of (ProxyShardBackendHostURLMap c) host, chain_height h) of
              (True, Some im, Some n) \<Rightarrow>
                if \<exists>e\<in>set (endpoints im). n \<le> e then Shard (Min {e\<in>set (endpoints im). n \<le> e}) else Default
            | _ \<Rightarrow> Default))"

definition backend_url :: "Config \<Rightarrow> string \<Rightarrow> backend \<Rightarrow> URL option" where
  "backend_url c host b =
     (case b of
        Default \<Rightarrow> map_of (ProxyBackendHostURLMapParsed c) host
      | Pruning \<Rightarrow> map_of (ProxyPruningBackendHostURLMap c) host
      | Shard e \<Rightarrow>
          (case map_of (ProxyShardBackendHostURLMap c) host of
             None \<Rightarrow> None
           | Some im \<Rightarrow> map_option ptr_url (map_of (UrlByEndHeight im) e)))"

definition backend_metadata :: "URL \<Rightarrow> backend \<Rightarrow> ProxyMetadata" where
  "backend_metadata u b =
     (case b of
        Default \<Rightarrow> \<lparr>BackendName = ''DEFAULT'', BackendRoute = u, ShardEndHeight = 0\<rparr>
      | Pruning \<Rightarrow> \<lparr>BackendName = ''PRUNING'', BackendRoute = u, ShardEndHeight = 0\<rparr>
      | Shard e \<Rightarrow> \<lparr>BackendName = ''SHARD'', BackendRoute = u, ShardEndHeight = e\<rparr>)"

text \<open>The encoded height of a request: the parsed one, none where parsing gives an error.\<close>

definition encoded_height :: "(string \<Rightarrow> int option) \<Rightarrow> EVMRPCRequestEnvelope \<Rightarrow> int option" where
  "encoded_height newInt req =
     (case ParseBlockNumberFromParams newInt (Method req) (Params req) of Ok h \<Rightarrow> Some h | _ \<Rightarrow> None)"

definition base_router :: "Config \<Rightarrow> Proxies" where
  "base_router c =
     (if EnableHeightBasedRouting c then PruningOrDefault_Proxies (newPruningOrDefaultProxies c)
      else Host_Proxies (newHostProxies ResponseBackendDefault (ProxyBackendHostURLMapParsed c)))"

lemma NewProxies_base:
  "NewProxies c = (if EnableShardedRouting c then newShardProxies (ProxyShardBackendHostURLMap c) (base_router c)
     else base_router c)"
  by (simp add: NewProxies_def base_router_def Let_def)

lemma tip_request_cases:
  "tip_request req h \<longleftrightarrow> MethodRequiresNoHistory (Method req) \<or> (\<exists>n. h = Some n \<and> shouldRouteToPruning n)"
  by (auto simp: tip_request_def shouldRouteToPruning_iff)

lemma base_router_choice:
  assumes "routing_config c" and "decoded_request r DecodedRequestContextKey = Some (Some req)"
    and "\<not> is_panic (ParseBlockNumberFromParams newInt (Method req) (Params req))"
  shows "ProxyForRequest newInt (base_router c) r =
    Ok (if EnableHeightBasedRouting c \<and> map_of (ProxyPruningBackendHostURLMap c) (Host r) \<noteq> None \<and>
           tip_request req (encoded_height newInt req)
        then host_choice ResponseBackendPruning (ProxyPruningBackendHostURLMap c) (Host r)
        else host_choice ResponseBackendDefault (ProxyBackendHostURLMapParsed c) (Host r))"
proof -
  have "ParseBlockNumberFromParams newInt (Method req) (Params req) = Ok n \<Longrightarrow> MethodHasBlockNumberParam (Method req)" for n
    by (rule ParseBlockNumber_Ok_method)
  moreover have "map_wf (ProxyPruningBackendHostURLMap c)" "map_wf (ProxyBackendHostURLMapParsed c)"
    using assms(1) by (auto simp: routing_config_def)
  ultimately show ?thesis
    using assms(2,3)
    by (cases "ParseBlockNumberFromParams newInt (Method req) (Params req)";
        cases "map_of (ProxyPruningBackendHostURLMap c) (Host r)")
       (auto simp: base_router_def newPruningOrDefaultProxies_def Pruning_ProxyForRequest_def
          HostProxies_newHostProxies tip_request_cases encoded_height_def host_choice_def Let_def)
qed

lemma Lookup_Min:
  assumes "interval_wf im"
  shows "Lookup im n =
    (if \<exists>e\<in>set (endpoints im). n \<le> e
     then (map_of (UrlByEndHeight im) (Min {e\<in>set (endpoints im). n \<le> e}), Min {e\<in>set (endpoints im). n \<le> e}, True)
     else (None, 0, False))"
proof -
  obtain u e b where l: "Lookup im n = (u, e, b)" by (cases "Lookup im n")
  show ?thesis
  proof (cases b)
    case True
    then have e: "e \<in> set (endpoints im)" "n \<le> e" "\<forall>e'\<in>set (endpoints im). n \<le> e' \<longrightarrow> e \<le> e'"
      "u = map_of (UrlByEndHeight im) e"
      using shards.find_found [OF assms, of n u e] l by auto
    then have "Min {e\<in>set (endpoints im). n \<le> e} = e" by (intro Min_eqI) auto
    with e l True show ?thesis by auto
  next
    case False
    then show ?thesis using shards.find_missing [OF assms, of n u e] l by (auto simp: not_le)
  qed
qed

lemma shard_url_defined:
  assumes "interval_wf im" and "x \<in> set (endpoints im)" and "n \<le> x"
  shows "\<exists>p. map_of (UrlByEndHeight im) (Min {e\<in>set (endpoints im). n \<le> e}) = Some p"
proof -
  have "Min {e\<in>set (endpoints im). n \<le> e} \<in> {e\<in>set (endpoints im). n \<le> e}"
    using assms(2,3) by (intro Min_in) auto
  then show ?thesis using shards.url_defined [OF assms(1)] by simp
qed

lemma shard_choice:
  assumes "routing_config c" and "decoded_request r DecodedRequestContextKey = Some (Some req)"
    and "\<not> is_panic (ParseBlockNumberFromParams newInt (Method req) (Params req))"
    and "EnableShardedRouting c" and "map_of (ProxyShardBackendHostURLMap c) (Host r) = Some im"
    and "ProxyForRequest newInt (base_router c) r = Ok (px, md, True)" and "BackendName md = ResponseBackendDefault"
  shows "ProxyForRequest newInt (NewProxies c) r =
    (case chain_height (encoded_height newInt req) of
       None \<Rightarrow> Ok (px, md, True)
     | Some n \<Rightarrow>
         (case Lookup im n of
            (u, e, True) \<Rightarrow>
              Ok (Some (ReverseProxy (ptr_url (the u))), backend_metadata (ptr_url (the u)) (Shard e), True)
          | (u, e, False) \<Rightarrow> Ok (px, md, True)))"
proof -
  let ?shards = "ProxyShardBackendHostURLMap c"
  have mem: "(Host r, im) \<in> set ?shards" using assms(5) by (rule map_of_SomeD)
  with assms(1) have "interval_wf im" by (auto simp: routing_config_def)
  note look = shard_lookup_wf [OF this mem, of "base_router c"]
  have "NewProxies c = Shard_Proxies (base_router c) ?shards (proxyByURL (newShardProxies ?shards (base_router c)))"
    using assms(4) by (simp add: NewProxies_base newShardProxies_def)
  with assms show ?thesis
    by (cases "ParseBlockNumberFromParams newInt (Method req) (Params req)")
       (auto simp: look encoded_height_def chain_height_def block_tags backend_metadata_def backend_names
         split: prod.splits bool.splits)
qed

lemma base_router_name:
  assumes "routing_config c" and "ProxyForRequest newInt (base_router c) r = Ok (px, md, found)"
  shows "BackendName md \<noteq> ResponseBackendShard"
proof -
  have "map_wf (ProxyPruningBackendHostURLMap c)" "map_wf (ProxyBackendHostURLMapParsed c)"
    using assms(1) by (auto simp: routing_config_def)
  then show ?thesis
    using assms(2) by (auto simp: base_router_def Pruning_ProxyForRequest_def newPruningOrDefaultProxies_def
        HostProxies_newHostProxies host_choice_def backend_names Let_def
        split: if_splits option.splits result.splits)
qed

lemma not_sharded:
  assumes "\<not> EnableShardedRouting c \<or> map_of (ProxyShardBackendHostURLMap c) (Host r) = None"
  shows "ProxyForRequest newInt (NewProxies c) r = ProxyForRequest newInt (base_router c) r"
  using assms by (auto simp: NewProxies_base newShardProxies_def)

lemma not_default_kept:
  assumes "ProxyForRequest newInt (base_router c) r = Ok (px, md, found)"
    and "BackendName md \<noteq> ResponseBackendDefault \<or> \<not> found"
  shows "ProxyForRequest newInt (NewProxies c) r = Ok (px, md, found)"
  using assms by (auto simp: NewProxies_base newShardProxies_def split: option.splits)

section \<open>Properties\<close>

lemma routing_intended:
  assumes "routing_config c" and "decoded_request r DecodedRequestContextKey = Some (Some req)"
    and "\<not> is_panic (ParseBlockNumberFromParams newInt (Method req) (Params req))"
    and "map_of (ProxyBackendHostURLMapParsed c) (Host r) = Some u"
  shows "\<exists>url. backend_url c (Host r) (intended_backend c (Host r) req (encoded_height newInt req)) = Some url \<and>
    ProxyForRequest newInt (NewProxies c) r =
      Ok (Some (ReverseProxy url),
          backend_metadata url (intended_backend c (Host r) req (encoded_height newInt req)), True)"
proof -
  let ?h = "encoded_height newInt req"
  note base = base_router_choice [OF assms(1-3)]
  show ?thesis
  proof (cases "EnableHeightBasedRouting c \<and> map_of (ProxyPruningBackendHostURLMap c) (Host r) \<noteq> None \<and> tip_request req ?h")
    case True
    then obtain p where p: "map_of (ProxyPruningBackendHostURLMap c) (Host r) = Some p" by auto
    have "ProxyForRequest newInt (NewProxies c) r =
        Ok (Some (ReverseProxy p), \<lparr>BackendName = ''PRUNING'', BackendRoute = p, ShardEndHeight = 0\<rparr>, True)"
      using base [unfolded if_P [OF True]] p
      by (intro not_default_kept) (auto simp: host_choice_def backend_names)
    with True p show ?thesis
      by (simp add: intended_backend_def backend_url_def backend_metadata_def)
  next
    case False
    then have def: "ProxyForRequest newInt (base_router c) r =
        Ok (Some (ReverseProxy u), \<lparr>BackendName = ''DEFAULT'', BackendRoute = u, ShardEndHeight = 0\<rparr>, True)"
      using base [unfolded if_not_P [OF False]] assms(4) by (simp add: host_choice_def backend_names)
    show ?thesis
    proof (cases "EnableShardedRouting c \<and> map_of (ProxyShardBackendHostURLMap c) (Host r) \<noteq> None")
      case True
      then obtain im where im: "map_of (ProxyShardBackendHostURLMap c) (Host r) = Some im" by auto
      then have wf: "interval_wf im" using assms(1) map_of_SomeD [OF im] by (auto simp: routing_config_def)
      from shard_choice [OF assms(1-3) conjunct1 [OF True] im def] False True im assms(4) show ?thesis
        by (auto simp: Lookup_Min [OF wf] intended_backend_def backend_url_def backend_metadata_def backend_names
            split: option.splits dest: shard_url_defined [OF wf])
    next
      case unsharded: False
      with False def assms(4) not_sharded [of c r newInt] show ?thesis
        by (auto simp: intended_backend_def backend_url_def backend_metadata_def split: option.splits bool.splits)
    qed
  qed
qed

text \<open>C1: The router built from a configuration implements the routing specification: for a decoded
  request whose block parameter is present, on a host with a default backend, it returns the
  reverse proxy of the intended backend together with metadata that names this backend.\<close>

theorem ProxyForRequest_refines_intended:
  assumes "routing_config c" and "decoded_request r DecodedRequestContextKey = Some (Some req)"
    and "\<not> is_panic (ParseBlockNumberFromParams newInt (Method req) (Params req))"
    and "map_of (ProxyBackendHostURLMapParsed c) (Host r) = Some u"
  shows "\<exists>url. backend_url c (Host r) (intended_backend c (Host r) req (encoded_height newInt req)) = Some url \<and>
    ProxyForRequest newInt (NewProxies c) r =
      Ok (Some (ReverseProxy url),
          backend_metadata url (intended_backend c (Host r) req (encoded_height newInt req)), True)"
  using assms by (rule routing_intended)

text \<open>A request to the sample configuration, by decoded method and parameters.\<close>

definition sample_request :: "string \<Rightarrow> goval list \<Rightarrow> Request" where
  "sample_request method params =
     \<lparr>ReqMethod = ''POST'', ReqURL = ''/'', Host = ''h'', ReqHeader = [], Body = Some (Reader [] False),
      RemoteAddr = ''10.0.0.1:5000'',
      Ctx = [(DecodedRequestContextKey, CtxRequest (Some \<lparr>JSONRPCVersion = ''2.0'', ID = GNil,
        Method = method, Params = Some params\<rparr>))]\<rparr>"

theorem ProxyForRequest_refines_intended_witness:
  "ProxyForRequest newInt_decimal (NewProxies (ReadConfig Some sample_env))
     (sample_request ''eth_getBlockByNumber'' [GStr ''15'']) =
   Ok (Some (ReverseProxy ''http://b''),
       \<lparr>BackendName = ''SHARD'', BackendRoute = ''http://b'', ShardEndHeight = 20\<rparr>, True)"
proof -
  let ?c = "ReadConfig Some sample_env"
  let ?r = "sample_request ''eth_getBlockByNumber'' [GStr ''15'']"
  let ?req = "\<lparr>JSONRPCVersion = ''2.0'', ID = GNil, Method = ''eth_getBlockByNumber'', Params = Some [GStr ''15'']\<rparr>"
  have parse: "ParseBlockNumberFromParams newInt_decimal (Method ?req) (Params ?req) = Ok 15" by code_simp
  have "encoded_height newInt_decimal ?req = Some 15" by (simp only: encoded_height_def parse result.case)
  moreover have "{e. (e = 10 \<or> e = 20) \<and> 15 \<le> e} = {20 :: uint64}" by auto
  moreover have "\<not> tip_request ?req (Some 15)" by (simp add: tip_request_def) code_simp
  ultimately have "intended_backend ?c ''h'' ?req (encoded_height newInt_decimal ?req) = Shard 20"
    by (simp add: intended_backend_def sample_config_maps chain_height_def NewIntervalURLMap_def)
  moreover have "decoded_request ?r DecodedRequestContextKey = Some (Some ?req)"
    by (simp add: decoded_request_def sample_request_def Value_def)
  moreover have "Host ?r = ''h''" by (simp add: sample_request_def)
  ultimately show ?thesis
    using ProxyForRequest_refines_intended [of ?c ?r ?req newInt_decimal "''http://d''"] routing_config_ReadConfig [of Some sample_env] parse
    by (auto simp: sample_config_maps backend_url_def backend_metadata_def NewIntervalURLMap_def)
qed


text \<open>Routing of the sample requests, as examples of the routers at work.\<close>

lemmas route_eval = NewProxies_def newPruningOrDefaultProxies_def newShardProxies_def newHostProxies_def
  sample_config_maps sample_request_def NewIntervalURLMap_def Pruning_ProxyForRequest_def
  HostProxies_ProxyForRequest_def decoded_request_def Value_def DecodedRequestContextKey_def backend_names

lemma sample_route_tip:
  "ProxyForRequest newInt_decimal (NewProxies (ReadConfig Some sample_env)) (sample_request ''eth_blockNumber'' []) =
   Ok (Some (ReverseProxy ''http://p''), \<lparr>BackendName = ''PRUNING'', BackendRoute = ''http://p'', ShardEndHeight = 0\<rparr>, True)"
  by (simp add: route_eval MethodRequiresNoHistory_def NoHistoryMethods_def Let_def)


text \<open>C6: A choice named SHARD is right: the request carries a height (the tag earliest counts as 1), the
  reported end height is the least end height of the host's table that is not below it, and
  the proxy forwards to that shard's URL.\<close>

theorem shard_contains_height:
  assumes "routing_config c" and "ProxyForRequest newInt (NewProxies c) r = Ok (px, md, found)"
    and "BackendName md = ResponseBackendShard"
  shows "\<exists>req n im p. decoded_request r DecodedRequestContextKey = Some (Some req) \<and>
    chain_height (encoded_height newInt req) = Some n \<and>
    map_of (ProxyShardBackendHostURLMap c) (Host r) = Some im \<and>
    ShardEndHeight md \<in> set (endpoints im) \<and> n \<le> ShardEndHeight md \<and>
    (\<forall>e\<in>set (endpoints im). n \<le> e \<longrightarrow> ShardEndHeight md \<le> e) \<and>
    map_of (UrlByEndHeight im) (ShardEndHeight md) = Some p \<and>
    px = Some (ReverseProxy (ptr_url p)) \<and> BackendRoute md = ptr_url p \<and> found"
proof -
  obtain px' md' found' where base: "ProxyForRequest newInt (base_router c) r = Ok (px', md', found')"
    using assms(2) by (cases "ProxyForRequest newInt (base_router c) r")
      (auto simp: NewProxies_base newShardProxies_def split: if_splits option.splits)
  note name = base_router_name [OF assms(1) base]
  have shd: "EnableShardedRouting c" using assms(2,3) base name by (auto simp: NewProxies_base split: if_splits)
  obtain im where im: "map_of (ProxyShardBackendHostURLMap c) (Host r) = Some im"
    using not_sharded [of c r newInt] assms(2,3) base name by (cases "map_of (ProxyShardBackendHostURLMap c) (Host r)") auto
  then have wf: "interval_wf im" using assms(1) map_of_SomeD [OF im] by (auto simp: routing_config_def)
  have def: "found'" "BackendName md' = ResponseBackendDefault"
    using not_default_kept [OF base] assms(2,3) name by auto
  obtain req where req: "decoded_request r DecodedRequestContextKey = Some (Some req)"
    and np: "\<not> is_panic (ParseBlockNumberFromParams newInt (Method req) (Params req))"
    using assms(2,3) base def im shd
    by (auto simp: NewProxies_base newShardProxies_def is_panic_iff backend_names split: option.splits result.splits)
  note choice = shard_choice [OF assms(1) req np shd im base [unfolded eqTrueI [OF def(1)]] def(2)]
  then obtain n u e where n: "chain_height (encoded_height newInt req) = Some n" "Lookup im n = (u, e, True)"
    using assms(2,3) name by (auto split: option.splits prod.splits bool.splits)
  then obtain p where p: "u = Some p" "map_of (UrlByEndHeight im) e = Some p"
    using shards.found_url [OF wf] by blast
  have "px = Some (ReverseProxy (ptr_url p))" "md = backend_metadata (ptr_url p) (Shard e)" found
    using choice assms(2) n p by auto
  with req n(1) im p shards.find_found [OF wf n(2)] show ?thesis
    by (auto simp: backend_metadata_def)
qed

lemma sample_route_shard:
  "ProxyForRequest newInt_decimal (NewProxies (ReadConfig Some sample_env))
     (sample_request ''eth_getBlockByNumber'' [GStr ''earliest'']) =
   Ok (Some (ReverseProxy ''http://a''), \<lparr>BackendName = ''SHARD'', BackendRoute = ''http://a'', ShardEndHeight = 10\<rparr>, True)"
  by (simp add: route_eval MethodRequiresNoHistory_def NoHistoryMethods_def MethodHasBlockNumberParam_def
      CacheableByBlockNumberMethods_def ParseBlockNumberFromParams_def MethodNameToBlockNumberParamIndex_def
      param_at_def BlockTagToNumberCodec_def block_tags shouldRouteToPruning_iff shard_lookup_def Lookup_def
      sort_Search_def sort_Search_loop.simps Let_def)

theorem shard_contains_height_witness:
  "(1 :: uint64) \<le> 10 \<and> map_of (UrlByEndHeight (NewIntervalURLMap
      [(10, UrlPtr 0 ''http://a''), (20, UrlPtr 1 ''http://b'')])) 10 = Some (UrlPtr 0 ''http://a'')"
  using shard_contains_height [OF routing_config_ReadConfig sample_route_shard]
  by (auto simp: sample_config_maps sample_request_def backend_names NewIntervalURLMap_def)

text \<open>C18: Which requests make routing panic: with a decoded request, exactly those whose parameter list is
  too short for the block position of their method, where the router looks at the height at
  all (the host has a pruning backend, or shards and a default backend).\<close>

theorem routing_panics_iff:
  assumes "routing_config c" and "decoded_request r DecodedRequestContextKey = Some (Some req)"
  shows "is_panic (ProxyForRequest newInt (NewProxies c) r) \<longleftrightarrow>
    (\<exists>i. map_of MethodNameToBlockNumberParamIndex (Method req) = Some i \<and> param_at (Params req) i = None) \<and>
    (EnableHeightBasedRouting c \<and> map_of (ProxyPruningBackendHostURLMap c) (Host r) \<noteq> None \<or>
     EnableShardedRouting c \<and> map_of (ProxyShardBackendHostURLMap c) (Host r) \<noteq> None \<and>
       map_of (ProxyBackendHostURLMapParsed c) (Host r) \<noteq> None)"
proof (cases "is_panic (ParseBlockNumberFromParams newInt (Method req) (Params req))")
  case True
  then have short: "\<exists>i. map_of MethodNameToBlockNumberParamIndex (Method req) = Some i \<and> param_at (Params req) i = None"
    and p: "ParseBlockNumberFromParams newInt (Method req) (Params req) = Panic IndexOutOfRange"
    by (auto simp: is_panic_iff ParseBlockNumber_panic_iff)
  from short have m: "MethodHasBlockNumberParam (Method req)" "\<not> MethodRequiresNoHistory (Method req)"
    using method_classes_disjoint(1) [of "Method req"] by (auto simp: MethodHasBlockNumberParam_iff)
  have wf: "map_wf (ProxyPruningBackendHostURLMap c)" "map_wf (ProxyBackendHostURLMapParsed c)"
    using assms(1) by (auto simp: routing_config_def)
  have "ProxyForRequest newInt (base_router c) r =
      (if EnableHeightBasedRouting c \<and> map_of (ProxyPruningBackendHostURLMap c) (Host r) \<noteq> None
       then Panic IndexOutOfRange
       else Ok (host_choice ResponseBackendDefault (ProxyBackendHostURLMapParsed c) (Host r)))"
    using p m wf assms(2)
    by (cases "map_of (ProxyPruningBackendHostURLMap c) (Host r)")
       (auto simp: base_router_def newPruningOrDefaultProxies_def Pruning_ProxyForRequest_def
         HostProxies_newHostProxies host_choice_def Let_def)
  then show ?thesis using short p assms(2)
    by (auto simp: NewProxies_base newShardProxies_def host_choice_def backend_names split: option.splits)
next
  case False
  obtain ch where "ProxyForRequest newInt (base_router c) r = Ok ch"
    using base_router_choice [OF assms False] by (rule that)
  then obtain px md found where base: "ProxyForRequest newInt (base_router c) r = Ok (px, md, found)"
    by (cases ch) auto
  have "\<not> is_panic (ProxyForRequest newInt (NewProxies c) r)"
  proof (cases "EnableShardedRouting c \<and> map_of (ProxyShardBackendHostURLMap c) (Host r) \<noteq> None \<and>
      BackendName md = ResponseBackendDefault \<and> found")
    case True
    then obtain im where "map_of (ProxyShardBackendHostURLMap c) (Host r) = Some im" by auto
    with shard_choice [OF assms False, of im px md] True base show ?thesis
      by (auto split: option.splits prod.splits bool.splits)
  next
    case False
    then show ?thesis using not_sharded [of c r newInt] not_default_kept [OF base] base by auto
  qed
  with False show ?thesis by (auto simp: is_panic_iff ParseBlockNumber_panic_iff)
qed

theorem routing_panics_iff_witness:
  "is_panic (ProxyForRequest newInt_decimal (NewProxies (ReadConfig Some sample_env))
     (sample_request ''eth_getBalance'' [GStr ''0xab'']))"
  using routing_panics_iff [OF routing_config_ReadConfig, of "sample_request ''eth_getBalance'' [GStr ''0xab'']"
      "\<lparr>JSONRPCVersion = ''2.0'', ID = GNil, Method = ''eth_getBalance'', Params = Some [GStr ''0xab'']\<rparr>"
      newInt_decimal Some sample_env]
  by (simp add: sample_request_def sample_config_maps decoded_request_def Value_def param_at_def
      MethodNameToBlockNumberParamIndex_def)

text \<open>C17: With a configuration read from an environment that passes validation, a request finds a backend
  exactly when its host is in the default host map, whichever routers are enabled.\<close>

theorem backend_found_iff_default_host:
  assumes "Validate parseURL (ReadConfig parseURL env) = []"
    and "ProxyForRequest newInt (NewProxies (ReadConfig parseURL env)) r = Ok (px, md, found)"
  shows "found \<longleftrightarrow> map_of (ProxyBackendHostURLMapParsed (ReadConfig parseURL env)) (Host r) \<noteq> None"
proof -
  let ?c = "ReadConfig parseURL env"
  have cfg: "routing_config ?c" by (rule routing_config_ReadConfig)
  have "fst ` set (ProxyPruningBackendHostURLMap ?c) \<subseteq> fst ` set (ProxyBackendHostURLMapParsed ?c)"
    using assms(1) by (simp add: Validate_Nil_simps)
  then have sub: "map_of (ProxyPruningBackendHostURLMap ?c) (Host r) \<noteq> None \<Longrightarrow>
      map_of (ProxyBackendHostURLMapParsed ?c) (Host r) \<noteq> None"
    by (auto simp: map_of_eq_None_iff)
  obtain px' md' found' where base: "ProxyForRequest newInt (base_router ?c) r = Ok (px', md', found')"
    using assms(2) by (cases "ProxyForRequest newInt (base_router ?c) r")
      (auto simp: NewProxies_base newShardProxies_def split: if_splits option.splits)
  have wf: "map_wf (ProxyPruningBackendHostURLMap ?c)" "map_wf (ProxyBackendHostURLMapParsed ?c)"
    using cfg by (auto simp: routing_config_def)
  have "found' \<longleftrightarrow> map_of (ProxyBackendHostURLMapParsed ?c) (Host r) \<noteq> None"
    using base wf sub
    by (auto simp: base_router_def newPruningOrDefaultProxies_def Pruning_ProxyForRequest_def
        HostProxies_newHostProxies host_choice_def Let_def
        split: if_splits option.splits result.splits)
  moreover have "found \<longleftrightarrow> found'"
  proof (cases "BackendName md' = ResponseBackendDefault \<and> found'")
    case False
    then show ?thesis using not_default_kept [OF base] assms(2) by auto
  next
    case True
    then show ?thesis
      using assms(2) base
      by (auto simp: NewProxies_base newShardProxies_def shard_lookup_def
          split: if_splits option.splits result.splits prod.splits)
  qed
  ultimately show ?thesis by simp
qed

theorem backend_found_iff_default_host_witness:
  "map_of (ProxyBackendHostURLMapParsed (ReadConfig Some sample_env)) ''h'' \<noteq> None"
  using backend_found_iff_default_host [OF sample_env_valid sample_route_tip] by (simp add: sample_request_def)

end
