(* ===== verification/Pipeline.thy ===== *)
theory Pipeline
  imports Proxies Writer
begin

text \<open>
  What the middlewares share: the state a handler can change (\<open>World\<close>), the outside the service
  talks to (\<open>Externals\<close>: clock, backends, EVM node and the \<^verbatim>\<open>negroni\<close> response writer), the
  type of a handler, the writer \<^verbatim>\<open>bodySaverResponseWriter\<close> of \<^verbatim>\<open>service/middleware.go\<close>, the
  interceptors of \<^verbatim>\<open>service/raptors.go\<close>, and the forwarding a \<^verbatim>\<open>httputil.ReverseProxy\<close> does.
\<close>

section \<open>Externals and the world\<close>

text \<open>
  What a backend answers to the \<open>n\<close>-th forwarded request: nothing (the transport fails), or a
  status, the headers that are forwarded, and a body in chunks, after which the connection may
  break off.
\<close>

datatype backend_reply =
    NoReply
  | Reply (reply_status: int) (reply_header: Header) (reply_chunks: "bytes list") (reply_aborted: bool)

text \<open>
  The writer of the \<^verbatim>\<open>negroni\<close> package: its own state \<open>'n\<close> beside the writer it wraps.
\<close>

record 'n negroni =
  neg_New :: 'n
  neg_WriteHeader :: "int \<Rightarrow> 'n \<times> ResponseWriter \<Rightarrow> 'n \<times> ResponseWriter"
  neg_Write :: "bytes \<Rightarrow> 'n \<times> ResponseWriter \<Rightarrow> 'n \<times> ResponseWriter"
  neg_Written :: "'n \<Rightarrow> bool"
  neg_Status :: "'n \<Rightarrow> int"

record ('n, 'h) Externals =
  x_clock :: "nat \<Rightarrow> int"
  x_backend :: "nat \<Rightarrow> URL \<Rightarrow> Request \<Rightarrow> backend_reply"
  x_newInt :: "string \<Rightarrow> int option"
  x_fnum :: "string \<Rightarrow> string option"
  x_hexToHash :: "string \<Rightarrow> 'h"
  x_headerByHash :: "'h \<Rightarrow> string + int"
  x_negroni :: "'n negroni"

text \<open>
  The cache contents, the number of clock readings made, the requests forwarded to backends, and
  the metrics handed to the goroutines that save them.
\<close>

record 's World =
  w_cache :: 's
  w_clock :: nat
  w_calls :: "(URL \<times> Request) list"
  w_metrics :: "ProxiedRequestMetric list"

text \<open>
  A handler: the world, the response writer, and a panic that unwinds it, if any. Clock readings
  are consumed in order; an operation of the cache client makes at most two.
\<close>

type_synonym ('s, 'w) handler = "'s World \<Rightarrow> 'w \<Rightarrow> Request \<Rightarrow> 's World \<times> 'w \<times> go_panic option"

definition time_Now :: "('n, 'h) Externals \<Rightarrow> 's World \<Rightarrow> int" where
  "time_Now x W = x_clock x (w_clock W)"

definition tick :: "nat \<Rightarrow> 's World \<Rightarrow> 's World" where
  "tick n W = W\<lparr>w_clock := w_clock W + n\<rparr>"

definition cache_now :: "('n, 'h) Externals \<Rightarrow> 's World \<Rightarrow> nat \<Rightarrow> int" where
  "cache_now x W i = x_clock x (w_clock W + i)"

lemma tick_simps [simp]:
  "w_cache (tick n W) = w_cache W" "w_calls (tick n W) = w_calls W" "w_metrics (tick n W) = w_metrics W"
  "w_clock (tick n W) = w_clock W + n"
  by (simp_all add: tick_def)

section \<open>Interceptors\<close>

type_synonym RequestInterceptor = "bytes \<Rightarrow> bytes \<times> string option"

text \<open>The loop over the interceptors: an error is logged, and the returned value is used all the same.\<close>

fun run_interceptors :: "RequestInterceptor list \<Rightarrow> bytes \<Rightarrow> bytes" where
  "run_interceptors [] body = body"
| "run_interceptors (f # fs) body =
     (case f body of
        (modified, Some err) \<Rightarrow> run_interceptors fs modified
      | (modified, None) \<Rightarrow> run_interceptors fs modified)"

section \<open>The writer that keeps the body\<close>

record 'n bodySaverResponseWriter =
  bs_negroni :: 'n
  bs_inner :: ResponseWriter
  bs_body :: bytes
  bs_interceptors :: "RequestInterceptor list"

definition new_body_saver :: "('n, 'h) Externals \<Rightarrow> ResponseWriter \<Rightarrow> RequestInterceptor list \<Rightarrow> 'n bodySaverResponseWriter" where
  "new_body_saver x w interceptors =
     \<lparr>bs_negroni = neg_New (x_negroni x), bs_inner = w, bs_body = [], bs_interceptors = interceptors\<rparr>"

definition bs_Header :: "'n bodySaverResponseWriter \<Rightarrow> Header" where
  "bs_Header w = w_Header (bs_inner w)"

definition bs_change_header :: "(Header \<Rightarrow> Header) \<Rightarrow> 'n bodySaverResponseWriter \<Rightarrow> 'n bodySaverResponseWriter" where
  "bs_change_header f w = w\<lparr>bs_inner := w_change_header f (bs_inner w)\<rparr>"

definition bs_WriteHeader :: "('n, 'h) Externals \<Rightarrow> int \<Rightarrow> 'n bodySaverResponseWriter \<Rightarrow> 'n bodySaverResponseWriter" where
  "bs_WriteHeader x status w =
     (case neg_WriteHeader (x_negroni x) status (bs_negroni w, bs_inner w) of
        (n, inner) \<Rightarrow> w\<lparr>bs_negroni := n, bs_inner := inner\<rparr>)"

definition bs_Write :: "('n, 'h) Externals \<Rightarrow> bytes \<Rightarrow> 'n bodySaverResponseWriter \<Rightarrow> 'n bodySaverResponseWriter" where
  "bs_Write x b w =
     (let w1 = w\<lparr>bs_body := bs_body w @ b\<rparr>;
          w2 = (if \<not> neg_Written (x_negroni x) (bs_negroni w1) then bs_WriteHeader x StatusOK w1 else w1);
          b' = (if length b > 0 then run_interceptors (bs_interceptors w2) b else b) in
      case neg_Write (x_negroni x) b' (bs_negroni w2, bs_inner w2) of
        (n, inner) \<Rightarrow> w2\<lparr>bs_negroni := n, bs_inner := inner\<rparr>)"

section \<open>Forwarding\<close>

text \<open>\<^verbatim>\<open>copyHeader\<close>: every value of the reply is added to the headers of the response.\<close>

definition copyHeader :: "Header \<Rightarrow> Header \<Rightarrow> Header" where
  "copyHeader src dst = fold (\<lambda>(k, vs) h. fold (\<lambda>v h. Header_Add k v h) vs h) src dst"

definition proxy_ServeHTTP :: "('n, 'h) Externals \<Rightarrow> ReverseProxy \<Rightarrow> ('s, 'n bodySaverResponseWriter) handler" where
  "proxy_ServeHTTP x proxy W lrw r =
     (let W' = W\<lparr>w_calls := w_calls W @ [(proxy_target proxy, r)]\<rparr> in
      case x_backend x (length (w_calls W)) (proxy_target proxy) r of
        NoReply \<Rightarrow> (W', bs_WriteHeader x StatusBadGateway lrw, None)
      | Reply status header chunks aborted \<Rightarrow>
          (W', fold (bs_Write x) chunks (bs_WriteHeader x status (bs_change_header (copyHeader header) lrw)),
           if aborted then Some AbortHandler else None))"

section \<open>What is relied on of the negroni writer\<close>

text \<open>
  The documented behaviour: it starts unwritten; writing the header passes it on and records the
  status; once written, writing passes the bytes on.
\<close>

definition negroni_ok :: "'n negroni \<Rightarrow> bool" where
  "negroni_ok neg \<longleftrightarrow>
     \<not> neg_Written neg (neg_New neg) \<and>
     (\<forall>c n w. snd (neg_WriteHeader neg c (n, w)) = w_WriteHeader c w) \<and>
     (\<forall>c n w. c \<noteq> 0 \<longrightarrow> neg_Written neg (fst (neg_WriteHeader neg c (n, w))) \<and> neg_Status neg (fst (neg_WriteHeader neg c (n, w))) = c) \<and>
     (\<forall>b n w. neg_Written neg n \<longrightarrow> snd (neg_Write neg b (n, w)) = w_Write b w \<and>
        neg_Written neg (fst (neg_Write neg b (n, w))) \<and> neg_Status neg (fst (neg_Write neg b (n, w))) = neg_Status neg n)"

lemma bs_WriteHeader_inner:
  assumes "negroni_ok (x_negroni x)"
  shows "bs_inner (bs_WriteHeader x c w) = w_WriteHeader c (bs_inner w)" "bs_body (bs_WriteHeader x c w) = bs_body w"
    "bs_interceptors (bs_WriteHeader x c w) = bs_interceptors w"
    "c \<noteq> 0 \<Longrightarrow> neg_Written (x_negroni x) (bs_negroni (bs_WriteHeader x c w))"
proof -
  obtain n v where nv: "neg_WriteHeader (x_negroni x) c (bs_negroni w, bs_inner w) = (n, v)" by (metis surj_pair)
  have v: "v = w_WriteHeader c (bs_inner w)"
    using assms nv unfolding negroni_ok_def by (metis snd_conv)
  have n: "c \<noteq> 0 \<Longrightarrow> neg_Written (x_negroni x) n"
    using assms nv unfolding negroni_ok_def by (metis fst_conv)
  show "bs_inner (bs_WriteHeader x c w) = w_WriteHeader c (bs_inner w)" "bs_body (bs_WriteHeader x c w) = bs_body w"
    "bs_interceptors (bs_WriteHeader x c w) = bs_interceptors w"
    "c \<noteq> 0 \<Longrightarrow> neg_Written (x_negroni x) (bs_negroni (bs_WriteHeader x c w))"
    using v n by (simp_all add: bs_WriteHeader_def nv)
qed

lemma bs_Write_written:
  assumes "negroni_ok (x_negroni x)" and "neg_Written (x_negroni x) (bs_negroni w)" and "bs_interceptors w = []"
  shows "bs_inner (bs_Write x b w) = w_Write b (bs_inner w)" "bs_body (bs_Write x b w) = bs_body w @ b"
    "neg_Written (x_negroni x) (bs_negroni (bs_Write x b w))" "bs_interceptors (bs_Write x b w) = []"
proof -
  obtain n v where nv: "neg_Write (x_negroni x) b (bs_negroni w, bs_inner w) = (n, v)" by (metis surj_pair)
  have v: "v = w_Write b (bs_inner w)" "neg_Written (x_negroni x) n"
    using assms(1,2) nv unfolding negroni_ok_def by (metis snd_conv, metis fst_conv)
  have eq: "bs_Write x b w = w\<lparr>bs_body := bs_body w @ b, bs_negroni := n, bs_inner := v\<rparr>"
    using nv assms(2,3) by (cases b) (simp_all add: bs_Write_def Let_def)
  show "bs_inner (bs_Write x b w) = w_Write b (bs_inner w)" "bs_body (bs_Write x b w) = bs_body w @ b"
    "neg_Written (x_negroni x) (bs_negroni (bs_Write x b w))" "bs_interceptors (bs_Write x b w) = []"
    using v assms(3) unfolding eq by simp_all
qed

lemma bs_Writes_all:
  assumes "negroni_ok (x_negroni x)" and "neg_Written (x_negroni x) (bs_negroni w)" and "bs_interceptors w = []"
  shows "bs_inner (fold (bs_Write x) chunks w) = fold w_Write chunks (bs_inner w) \<and>
    bs_body (fold (bs_Write x) chunks w) = bs_body w @ concat chunks \<and>
    neg_Written (x_negroni x) (bs_negroni (fold (bs_Write x) chunks w))"
  using assms(2,3)
proof (induction chunks arbitrary: w)
  case (Cons b bs)
  note w = bs_Write_written [OF assms(1) Cons.prems, of b]
  show ?case using Cons.IH [OF w(3,4)] w(1,2) by simp
qed simp

lemmas bs_Writes = bs_Writes_all [THEN conjunct1] bs_Writes_all [THEN conjunct2, THEN conjunct1]
  bs_Writes_all [THEN conjunct2, THEN conjunct2]

text \<open>The reply of a backend as it arrives at the wrapped writer and in the saved body.\<close>

lemma proxy_ServeHTTP_reply:
  assumes "negroni_ok (x_negroni x)" and "status \<noteq> 0" and "bs_interceptors lrw = []"
    and "x_backend x (length (w_calls W)) (proxy_target p) r = Reply status header chunks aborted"
    and "proxy_ServeHTTP x p W lrw r = (W', lrw', pn)"
  shows "W' = W\<lparr>w_calls := w_calls W @ [(proxy_target p, r)]\<rparr>" "pn = (if aborted then Some AbortHandler else None)"
    "bs_inner lrw' = fold w_Write chunks (w_WriteHeader status (w_change_header (copyHeader header) (bs_inner lrw)))"
    "bs_body lrw' = bs_body lrw @ concat chunks"
proof -
  let ?l = "bs_change_header (copyHeader header) lrw"
  let ?w = "bs_WriteHeader x status ?l"
  have "bs_interceptors ?l = []" "bs_body ?l = bs_body lrw" "bs_inner ?l = w_change_header (copyHeader header) (bs_inner lrw)"
    using assms(3) by (simp_all add: bs_change_header_def)
  note h = bs_WriteHeader_inner [OF assms(1), where c = status and w = ?l] this
  have out: "W' = W\<lparr>w_calls := w_calls W @ [(proxy_target p, r)]\<rparr>" "lrw' = fold (bs_Write x) chunks ?w"
    "pn = (if aborted then Some AbortHandler else None)"
    using assms(4,5) by (simp_all add: proxy_ServeHTTP_def Let_def)
  have "neg_Written (x_negroni x) (bs_negroni ?w)" "bs_interceptors ?w = []" using h assms(2) by simp_all
  note w = bs_Writes [OF assms(1) this, of chunks]
  show "W' = W\<lparr>w_calls := w_calls W @ [(proxy_target p, r)]\<rparr>" "pn = (if aborted then Some AbortHandler else None)"
    "bs_inner lrw' = fold w_Write chunks (w_WriteHeader status (w_change_header (copyHeader header) (bs_inner lrw)))"
    "bs_body lrw' = bs_body lrw @ concat chunks"
    using out w h by simp_all
qed

end
