(* ===== verification/Compact.thy ===== *)
theory Compact
  imports JsonValue
begin

text \<open>
  What \<^verbatim>\<open>json.Marshal\<close> does to a \<^verbatim>\<open>json.RawMessage\<close> (compaction with HTML escaping) does not change
  the document it denotes: the compacted tree is well formed and decodes to the same value.
\<close>

lemma str_ok_Nil: "str_ok []"
  by (simp add: str_ok_def)

lemma str_ok_ConsE:
  assumes "str_ok (c # cs)"
  obtains (escape) k where "c = backslash" "esc_len cs = Some k" "k \<le> length cs" "str_ok (drop k cs)"
  | (plain) "c \<noteq> backslash" "c \<noteq> dquote" "32 \<le> (of_char c :: nat)" "str_ok cs"
proof (cases "c = backslash")
  case True
  with assms obtain k b r where k: "esc_len (cs @ [dquote]) = Some k" and p: "p_str (drop k (cs @ [dquote])) = Some (b, [])"
    and cs: "cs = take k (cs @ [dquote]) @ b"
    by (auto simp: str_ok_def split: option.splits)
  have "k \<le> length cs"
  proof (rule ccontr)
    assume "\<not> k \<le> length cs"
    then have "drop k (cs @ [dquote]) = []" by simp
    with p show False by simp
  qed
  moreover have "esc_len cs = Some k"
    using k \<open>k \<le> length cs\<close> by (cases cs) (auto simp: esc_len_def split: if_splits)
  moreover have "str_ok (drop k cs)"
  proof -
    have "drop k cs = b" using cs \<open>k \<le> length cs\<close> by (metis append_eq_conv_conj append_take_drop_id length_take min_absorb2 take_append take_all_iff diff_is_0_eq' take0 append_Nil2)
    then show ?thesis using p \<open>k \<le> length cs\<close> by (simp add: str_ok_def)
  qed
  ultimately show ?thesis using True escape by blast
next
  case False
  then show ?thesis using assms plain by (auto simp: str_ok_def split: if_splits)
qed


abbreviation html_special :: "char \<Rightarrow> bool" where
  "html_special c \<equiv> c \<in> {CHR ''<'', CHR ''>'', CHR ''&''}"

declare html_escape.simps [simp del]

lemma line_sep_head: "line_sep (c # cs) = Some r \<Longrightarrow> c = CHR 0xE2"
  by (auto simp: line_sep_def split: if_splits)

lemma html_escape_Nil [simp]: "html_escape [] = []"
  by (simp add: html_escape.simps)

lemma html_escape_keep:
  "\<not> html_special c \<Longrightarrow> c \<noteq> CHR 0xE2 \<Longrightarrow> html_escape (c # cs) = c # html_escape cs"
  using line_sep_head [of c cs] by (auto simp: html_escape.simps split: option.splits)

lemma html_escape_prefix:
  "\<forall>c\<in>set p. \<not> html_special c \<and> c \<noteq> CHR 0xE2 \<Longrightarrow> html_escape (p @ s) = p @ html_escape s"
  by (induction p) (simp_all add: html_escape_keep)

lemma is_hex_keep: "is_hex c \<Longrightarrow> \<not> html_special c \<and> c \<noteq> CHR 0xE2"
  by (auto simp: is_hex_def digit_of_def chr_lower_def Let_def)

lemma esc_len_keep:
  assumes "esc_len cs = Some k"
  shows "\<forall>c\<in>set (take k cs). \<not> html_special c \<and> c \<noteq> CHR 0xE2" and "k = 1 \<or> k = 5"
proof -
  obtain e hs where "cs = e # hs" using assms by (cases cs) (auto simp: esc_len_def)
  then show "\<forall>c\<in>set (take k cs). \<not> html_special c \<and> c \<noteq> CHR 0xE2" and "k = 1 \<or> k = 5"
    using assms is_hex_keep by (auto simp: esc_len_def list_all_iff split: if_splits)
qed

lemma html_escape_escape:
  assumes "esc_len cs = Some k"
  shows "html_escape (backslash # cs) = backslash # take k cs @ html_escape (drop k cs)"
  using html_escape_prefix [of "backslash # take k cs" "drop k cs"] esc_len_keep(1) [OF assms] by simp

lemma esc_len_take: "esc_len cs = Some k \<Longrightarrow> esc_len (take k cs @ t) = Some k"
  by (cases cs) (auto simp: esc_len_def split: if_splits)

lemma body_prefix_escape:
  assumes "esc_len cs = Some k"
  shows "body_prefix (backslash # take k cs)"
  using esc_len_take [OF assms] esc_len_append [OF assms, of "[]"]
  by (auto simp: body_prefix_def option.map_comp comp_def case_prod_beta)

lemma line_sep_drop:
  assumes "line_sep (c # cs) = Some r"
  obtains x y where "c = CHR 0xE2" "cs = x # y # drop 2 cs" "128 \<le> (of_char x :: nat)" "128 \<le> (of_char y :: nat)"
    "r = 0x2028 \<or> r = 0x2029" "[c, x, y] = utf8_encode r"
proof -
  have "take 3 (c # cs) = [CHR 0xE2, CHR 0x80, CHR 0xA8] \<and> r = 0x2028 \<or> take 3 (c # cs) = [CHR 0xE2, CHR 0x80, CHR 0xA9] \<and> r = 0x2029"
    using assms by (auto simp: line_sep_def split: if_splits)
  then obtain x y where "c = CHR 0xE2" "take 2 cs = [x, y]" "x = CHR 0x80" "y = CHR 0xA8 \<and> r = 0x2028 \<or> y = CHR 0xA9 \<and> r = 0x2029"
    by (cases cs; cases "tl cs") auto
  moreover from this(2) have "cs = x # y # drop 2 cs" by (cases cs; cases "tl cs") auto
  ultimately show ?thesis
    by (intro that) (auto simp: utf8_encode_line_seps)
qed

lemma str_ok_high:
  assumes "str_ok (x # cs)" and "128 \<le> (of_char x :: nat)"
  shows "str_ok cs"
  using assms by (cases rule: str_ok_ConsE) auto

lemma body_prefix_html_escape: "str_ok s \<Longrightarrow> body_prefix (html_escape s)"
proof (induction s rule: length_induct)
  case (1 s)
  show ?case
  proof (cases s)
    case (Cons c cs)
    from 1 have IH: "length ys \<le> length cs \<Longrightarrow> str_ok ys \<Longrightarrow> body_prefix (html_escape ys)" for ys
      using Cons by simp
    have ok: "str_ok (c # cs)" using 1 Cons by simp
    then show ?thesis
    proof (cases rule: str_ok_ConsE)
      case (escape k)
      with IH [of "drop k cs"] Cons show ?thesis
        using body_prefix_append [OF body_prefix_escape [OF escape(2)], of "html_escape (drop k cs)"]
        by (simp add: html_escape_escape)
    next
      case plain
      note cs = IH [OF order_refl plain(4)]
      show ?thesis
      proof (cases "html_special c")
        case True
        then show ?thesis using Cons cs body_prefix_append [OF body_prefix_u_escape]
          by (simp add: html_escape.simps(2))
      next
        case False
        have c: "body_prefix [c]" using plain by (simp add: body_prefix_def)
        show ?thesis
        proof (cases "line_sep (c # cs)")
          case None
          then show ?thesis using Cons False body_prefix_append [OF c cs] by (simp add: html_escape.simps(2))
        next
          case (Some r)
          obtain x y where xy: "cs = x # y # drop 2 cs" "128 \<le> (of_char x :: nat)" "128 \<le> (of_char y :: nat)"
            using line_sep_drop [OF Some] by metis
          then have "str_ok (drop 2 cs)" using plain(4) str_ok_high by metis
          then show ?thesis using Cons False Some IH [of "drop 2 cs"] body_prefix_append [OF body_prefix_u_escape]
            by (simp add: html_escape.simps(2))
        qed
      qed
    qed
  qed simp
qed

lemma json_compact_wf: "json_wf d j \<Longrightarrow> json_wf d (json_compact j)"
proof (induction j arbitrary: d)
  case (JObj ms)
  then show ?case by (fastforce simp: body_prefix_html_escape body_prefix_str_ok)
qed (auto simp: body_prefix_html_escape body_prefix_str_ok)


lemma next_u4_escape:
  assumes "next_u4 s = Some r"
  shows "drop 6 (html_escape s) = html_escape (drop 6 s) \<and> next_u4 (html_escape s) = Some r"
proof -
  obtain cs where s: "s = backslash # cs" "esc_len cs = Some 5" "r = hex4 (take 4 (drop 1 cs))"
    using assms by (cases s) (auto simp: next_u4_def split: if_splits)
  obtain p q where cs: "cs = p @ q" "length p = 5"
    using esc_len_append [OF s(2), of "[]"] by (metis append_take_drop_id length_take min_absorb2)
  have "html_escape s = backslash # p @ html_escape q" using html_escape_escape [OF s(2)] s(1) cs by simp
  moreover have "esc_len (p @ html_escape q) = Some 5"
    using esc_len_take [OF s(2), of "html_escape q"] cs by simp
  ultimately show ?thesis using s cs by (simp add: next_u4_def)
qed

lemma u_escape_next: "next_u4 (u_escape r @ t) = Some (hex4 (drop 2 (u_escape r)))"
  by (simp add: next_u4_def u_escape_def esc_len_u_escape)

lemma next_u4_None:
  assumes "str_ok s" and "next_u4 s = None" and "next_u4 (html_escape s) = Some r"
  shows "\<not> low_surrogate r"
  using assms(1)
proof (cases s)
  case (Cons c cs)
  from assms(1)[unfolded Cons] show ?thesis
  proof (cases rule: str_ok_ConsE)
    case (escape k)
    then have "html_escape s = backslash # take k cs @ html_escape (drop k cs)" using Cons html_escape_escape by simp
    then have "next_u4 s = next_u4 (html_escape s)"
      using escape Cons esc_len_take [OF escape(2)] assms by (auto simp: next_u4_def split: if_splits)
    then show ?thesis using assms by simp
  next
    case plain
    show ?thesis
    proof (cases "html_special c \<or> line_sep (c # cs) \<noteq> None")
      case True
      have "\<exists>n t. html_escape s = u_escape n @ t \<and> n < 0xD800"
      proof (cases "html_special c")
        case True
        then show ?thesis using Cons by (intro exI [of _ "of_char c"]) (auto simp: html_escape.simps(2))
      next
        case False
        with True obtain n where n: "line_sep (c # cs) = Some n" by blast
        then show ?thesis using Cons False line_sep_width [OF n]
          by (intro exI [of _ n]) (auto simp: html_escape.simps(2))
      qed
      then obtain n t where n: "html_escape s = u_escape n @ t" "n < 0xD800" by blast
      then have "r = n"
        using assms(3) hex4_hex_digits [of n] unfolding n(1) u_escape_next by (simp add: u_escape_def)
      then show ?thesis using n by (simp add: low_surrogate_def)
    next
      case False
      then show ?thesis using assms plain Cons by (auto simp: html_escape.simps(2) next_u4_def)
    qed
  qed
qed (use assms in \<open>auto simp: next_u4_def\<close>)

lemma html_escape_row:
  "\<forall>(lo, hi)\<in>set row. 0x80 \<le> lo \<and> hi \<le> 0xBF \<Longrightarrow> row_matches row (html_escape cs) \<Longrightarrow>
     row_matches row cs"
proof (induction row arbitrary: cs)
  case (Cons lh row)
  obtain lo hi where lh: "lh = (lo, hi)" by (cases lh)
  obtain c ds where cs: "cs = c # ds" using Cons.prems by (cases cs) auto
  obtain x xs where x: "html_escape cs = x # xs" "lo \<le> of_char x" "of_char x \<le> hi" "row_matches row xs"
    using Cons.prems lh by (cases "html_escape cs") auto
  have "128 \<le> (of_char x :: nat)" "(of_char x :: nat) \<le> 0xBF" using x Cons.prems lh by auto
  then have "\<not> html_special c \<and> c \<noteq> CHR 0xE2"
    using x(1) cs by (auto simp: html_escape.simps(2) u_escape_def split: option.splits)
  then have "x = c" "xs = html_escape ds" using x(1) cs html_escape_keep by auto
  then show ?case using x cs lh Cons by auto
qed simp

lemma utf8_rows_cont: "lh # row \<in> set utf8_rows \<Longrightarrow> \<forall>(lo, hi)\<in>set row. 0x80 \<le> lo \<and> hi \<le> 0xBF"
  by (auto simp: utf8_rows_def)

lemma html_escape_width_0:
  assumes "utf8_width (c # cs) = 0"
  shows "utf8_width (c # html_escape cs) = 0"
proof (rule ccontr)
  assume "utf8_width (c # html_escape cs) \<noteq> 0"
  then obtain row where row: "row \<in> set utf8_rows" "row_matches row (c # html_escape cs)"
    using utf8_width_cases by metis
  then obtain lh row' where r: "row = lh # row'" by (cases row) (auto simp: utf8_rows_def)
  then have "row_matches row (c # cs)"
    using row utf8_rows_cont html_escape_row [of row' cs] by (cases lh) auto
  then have "utf8_width (c # cs) = length row" using row utf8_width_row by blast
  then show False using assms r by simp
qed

lemma html_escape_cont:
  assumes "utf8_width (c # cs) \<noteq> 0"
  shows "html_escape cs = take (utf8_width (c # cs) - 1) cs @ html_escape (drop (utf8_width (c # cs) - 1) cs)"
proof -
  obtain row where row: "row \<in> set utf8_rows" "row_matches row (c # cs)" "utf8_width (c # cs) = length row"
    using utf8_width_cases [OF assms] by metis
  then obtain lh row' where r: "row = lh # row'" by (cases row) (auto simp: utf8_rows_def)
  have m: "row_matches row' cs" using row r by (cases lh) auto
  have "\<forall>(lo, hi)\<in>set row'. 0x80 \<le> lo \<and> hi \<le> 0xBF" using utf8_rows_cont row(1) r by blast
  with m have "\<forall>x\<in>set (take (length row') cs). 0x80 \<le> (of_char x :: nat) \<and> (of_char x :: nat) \<le> 0xBF"
    by (induction row' cs rule: row_matches.induct) auto
  then have "\<forall>x\<in>set (take (length row') cs). \<not> html_special x \<and> x \<noteq> CHR 0xE2" by auto
  from html_escape_prefix [OF this, of "drop (length row') cs"] show ?thesis using row r by simp
qed

lemma unquote_escape_other:
  assumes "esc_len cs = Some 5" and "str_ok (drop 5 cs)"
    and "\<And>ys. length ys < length cs \<Longrightarrow> str_ok ys \<Longrightarrow> unquote (html_escape ys) = unquote ys"
  shows "unquote (html_escape (backslash # cs)) = unquote (backslash # cs)"
proof -
  obtain p q where cs: "cs = p @ q" "length p = 5"
    using esc_len_append [OF assms(1), of "[]"] by (metis append_take_drop_id length_take min_absorb2)
  have h: "html_escape (backslash # cs) = backslash # p @ html_escape q" "esc_len (p @ html_escape q) = Some 5"
    "str_ok q" "unquote (html_escape q) = unquote q" "drop 5 (p @ html_escape q) = html_escape q"
    using html_escape_escape [OF assms(1)] esc_len_take [OF assms(1), of "html_escape q"] cs assms(2,3) by simp_all
  have tail: "unquote (html_escape (drop 6 q)) = unquote (drop 6 q)" if "next_u4 q = Some r2" for r2
  proof -
    obtain ds where q: "q = backslash # ds" "esc_len ds = Some 5"
      using \<open>next_u4 q = Some r2\<close> by (cases q) (auto simp: next_u4_def split: if_splits)
    have "str_ok (backslash # ds)" using h(3) q(1) by simp
    then have "str_ok (drop 5 ds)" using q(2) by (cases rule: str_ok_ConsE) auto
    then show ?thesis using assms(3) [of "drop 6 q"] q cs by simp
  qed
  show ?thesis
  proof (cases "next_u4 q")
    case None
    then have "next_u4 (html_escape q) = Some r2 \<Longrightarrow> \<not> low_surrogate r2" for r2
      using next_u4_None [OF h(3)] by blast
    with None h cs assms(1) show ?thesis
      by (auto simp: unquote.simps(2) Let_def split: option.split)
  next
    case (Some r2)
    with h cs assms(1) tail [OF Some] next_u4_escape [OF Some] show ?thesis
      by (simp add: unquote.simps(2) Let_def)
  qed
qed

lemma str_ok_drop_high: "\<forall>x\<in>set (take n cs). 128 \<le> (of_char x :: nat) \<Longrightarrow> str_ok cs \<Longrightarrow> str_ok (drop n cs)"
proof (induction n arbitrary: cs)
  case (Suc n)
  then show ?case using str_ok_high by (cases cs) auto
qed simp

lemma unquote_escape_sep:
  assumes "\<not> html_special c" "line_sep (c # cs) = Some r" "str_ok cs"
    and IH: "\<And>ys. length ys \<le> length cs \<Longrightarrow> str_ok ys \<Longrightarrow> unquote (html_escape ys) = unquote ys"
  shows "unquote (html_escape (c # cs)) = unquote (c # cs)"
proof -
  have w: "utf8_width (c # cs) = 3" "take 3 (c # cs) = utf8_encode r" "r < 0xD800" using line_sep_width [OF assms(2)] by auto
  obtain x y where xy: "cs = x # y # drop 2 cs" "128 \<le> (of_char x :: nat)" "128 \<le> (of_char y :: nat)" "c = CHR 0xE2"
    using line_sep_drop [OF assms(2)] by metis
  then have "str_ok (drop 2 cs)" using assms(3) str_ok_high by metis
  then have "unquote (html_escape (c # cs)) = utf8_encode r @ unquote (drop 2 cs)"
    using assms(1,2) w IH [of "drop 2 cs"] by (simp add: html_escape.simps(2) unquote_u_escape)
  moreover have "unquote (c # cs) = take 3 (c # cs) @ unquote (drop 2 cs)"
    using w(1) xy(4) by (simp add: unquote.simps(2))
  ultimately show ?thesis using w(2) by simp
qed

lemma unquote_escape_high:
  assumes "\<not> html_special c" "line_sep (c # cs) = None" "\<not> (of_char c :: nat) < 128" "c \<noteq> backslash" "str_ok cs"
    and IH: "\<And>ys. length ys \<le> length cs \<Longrightarrow> str_ok ys \<Longrightarrow> unquote (html_escape ys) = unquote ys"
  shows "unquote (html_escape (c # cs)) = unquote (c # cs)"
proof -
  have esc: "html_escape (c # cs) = c # html_escape cs" using assms(1,2) by (simp add: html_escape.simps(2))
  show ?thesis
  proof (cases "utf8_width (c # cs) = 0")
    case True
    then show ?thesis using esc assms(3,4) IH [OF order_refl assms(5)] html_escape_width_0 [OF True] by (simp add: unquote.simps(2))
  next
    case False
    let ?w = "utf8_width (c # cs)"
    have tk: "take ?w (c # cs) = c # take (?w - 1) cs" using False by (cases ?w) auto
    then have "str_ok (drop (?w - 1) cs)" using utf8_width_high(1) [OF False] assms(5) str_ok_drop_high by simp
    then have rest: "unquote (html_escape (drop (?w - 1) cs)) = unquote (drop (?w - 1) cs)" using IH by simp
    have "html_escape (c # cs) = take ?w (c # cs) @ html_escape (drop (?w - 1) cs)"
      using esc html_escape_cont [OF False] tk by simp
    then have "unquote (html_escape (c # cs)) = take ?w (c # cs) @ unquote (drop (?w - 1) cs)"
      using unquote_multibyte [OF False] rest by simp
    then show ?thesis using assms(3,4) False by (simp add: unquote.simps(2) Let_def)
  qed
qed

lemma unquote_html_escape: "str_ok s \<Longrightarrow> unquote (html_escape s) = unquote s"
proof (induction s rule: length_induct)
  case (1 s)
  show ?case
  proof (cases s)
    case (Cons c cs)
    from 1 have IH: "length ys \<le> length cs \<Longrightarrow> str_ok ys \<Longrightarrow> unquote (html_escape ys) = unquote ys" for ys
      using Cons by simp
    have ok: "str_ok (c # cs)" using 1 Cons by simp
    then show ?thesis
    proof (cases rule: str_ok_ConsE)
      case (escape k)
      show ?thesis
      proof (cases "k = 1")
        case True
        then show ?thesis using escape IH [of "drop 1 cs"] Cons esc_len_take [OF escape(2)]
          by (cases cs) (simp_all add: html_escape_escape unquote.simps(2))
      next
        case False
        then have "k = 5" using esc_len_keep(2) [OF escape(2)] by simp
        then show ?thesis using escape IH unquote_escape_other [of cs] Cons by simp
      qed
    next
      case plain
      note cs = IH [OF order_refl plain(4)]
      consider (special) "html_special c" | (sep) r where "\<not> html_special c" "line_sep (c # cs) = Some r"
        | (ascii) "\<not> html_special c" "line_sep (c # cs) = None" "(of_char c :: nat) < 128"
        | (high) "\<not> html_special c" "line_sep (c # cs) = None" "\<not> (of_char c :: nat) < 128"
        by (cases "line_sep (c # cs)") auto
      then show ?thesis
      proof cases
        case special
        then have "html_escape (c # cs) = u_escape (of_char c) @ html_escape cs" "c \<noteq> backslash" "(of_char c :: nat) < 128"
          by (auto simp: html_escape.simps(2))
        then show ?thesis using Cons cs by (simp add: unquote_u_escape unquote.simps(2) utf8_encode_def)
      next
        case sep
        then show ?thesis using unquote_escape_sep [OF sep plain(4) IH] Cons by simp
      next
        case ascii
        then show ?thesis using Cons cs plain by (simp add: html_escape.simps(2) unquote.simps(2))
      next
        case high
        then show ?thesis using unquote_escape_high [OF high plain(1,4) IH] Cons by simp
      qed
    qed
  qed simp
qed

lemma to_goval_compact: "json_wf d j \<Longrightarrow> to_goval fnum (json_compact j) = to_goval fnum j"
proof (induction j arbitrary: d)
  case (JStr s)
  then show ?case by (simp add: unquote_html_escape)
next
  case (JArr js)
  then have "map (to_goval fnum \<circ> json_compact) js = map (to_goval fnum) js" by (intro map_cong) auto
  then show ?case by (simp only: json_compact.simps to_goval.simps map_map)
next
  case (JObj ms)
  let ?f = "\<lambda>(k, j). map_option (Pair (unquote k)) (to_goval fnum j)"
  have "map (?f \<circ> (\<lambda>(k, j). (html_escape k, json_compact j))) ms = map ?f ms"
  proof (rule map_cong [OF refl])
    fix m assume m: "m \<in> set ms"
    obtain k j where kj: "m = (k, j)" by (cases m)
    then have "str_ok k" "json_wf (d - 1) j" using JObj.prems m by auto
    moreover from this have "to_goval fnum (json_compact j) = to_goval fnum j"
      using JObj.IH [of m j "d - 1"] m kj by auto
    ultimately show "(?f \<circ> (\<lambda>(k, j). (html_escape k, json_compact j))) m = ?f m"
      using kj by (simp add: unquote_html_escape)
  qed
  then show ?case by (simp only: json_compact.simps to_goval.simps map_map)
qed auto

section \<open>Marshalled values are compact\<close>

lemma hex_digit_keep: "d < 16 \<Longrightarrow> \<not> html_special (hex_digit d) \<and> hex_digit d \<noteq> CHR 0xE2"
  by (rule is_hex_keep [OF is_hex_hex_digit])

lemma u_escape_keep: "\<forall>x\<in>set (u_escape r). \<not> html_special x \<and> x \<noteq> CHR 0xE2"
  using hex_digit_keep by (simp add: u_escape_def)

lemma quote_ascii_keep:
  assumes "(of_char c :: nat) < 128"
  shows "\<forall>x\<in>set (quote_ascii c). \<not> html_special x \<and> x \<noteq> CHR 0xE2"
proof -
  have "c \<noteq> CHR 0xE2" using assms by auto
  then show ?thesis using u_escape_keep [of "of_char c"]
    by (simp add: quote_ascii_def html_safe_def)
qed

lemma html_escape_multibyte:
  assumes "utf8_width (c # cs) \<noteq> 0" and "line_sep (c # cs) = None" and "\<not> (of_char c :: nat) < 128"
  shows "html_escape (take (utf8_width (c # cs)) (c # cs) @ t) = take (utf8_width (c # cs)) (c # cs) @ html_escape t"
proof -
  let ?w = "utf8_width (c # cs)"
  obtain row where row: "row \<in> set utf8_rows" "row_matches row (c # cs)" "?w = length row"
    using utf8_width_cases [OF assms(1)] by metis
  obtain lh row' where r: "row = lh # row'" using row by (cases row) (auto simp: utf8_rows_def)
  have m: "row_matches row' cs" using row r by (cases lh) auto
  have "\<forall>(lo, hi)\<in>set row'. 0x80 \<le> lo \<and> hi \<le> 0xBF" using utf8_rows_cont row(1) r by blast
  with m have "\<forall>x\<in>set (take (length row') cs). 0x80 \<le> (of_char x :: nat) \<and> (of_char x :: nat) \<le> 0xBF"
    by (induction row' cs rule: row_matches.induct) auto
  then have "\<forall>x\<in>set (take (length row') cs). \<not> html_special x \<and> x \<noteq> CHR 0xE2" by auto
  then have tail: "html_escape (take (length row') cs @ t) = take (length row') cs @ html_escape t"
    by (rule html_escape_prefix)
  have "line_sep (c # take (length row') cs @ t) = None"
  proof (cases "c = CHR 0xE2")
    case True
    then have "row = [(0xE1, 0xEC), (0x80, 0xBF), (0x80, 0xBF)]"
      using row(1,2) by (auto simp: utf8_rows_def)
    then obtain x y zs where "cs = x # y # zs" "length row' = 2"
      using row(2) r by (cases cs; cases "tl cs") auto
    then show ?thesis using assms(2) by (simp add: line_sep_def numeral_2_eq_2 split: if_splits)
  next
    case False
    then show ?thesis using line_sep_head [of c] by fastforce
  qed
  then have "html_escape (c # take (length row') cs @ t) = c # html_escape (take (length row') cs @ t)"
    using assms(3) by (auto simp: html_escape.simps(2))
  then show ?thesis using tail row r by simp
qed

lemma html_escape_quote [simp]: "html_escape (quote s) = quote s"
proof (induction s rule: quote.induct)
  case (2 c cs)
  consider (ascii) "(of_char c :: nat) < 128" | (bad) "\<not> (of_char c :: nat) < 128" "utf8_width (c # cs) = 0"
    | (sep) r where "\<not> (of_char c :: nat) < 128" "utf8_width (c # cs) \<noteq> 0" "line_sep (c # cs) = Some r"
    | (multi) "\<not> (of_char c :: nat) < 128" "utf8_width (c # cs) \<noteq> 0" "line_sep (c # cs) = None"
    by (cases "line_sep (c # cs)") auto
  then show ?case
  proof cases
    case ascii
    from html_escape_prefix [OF quote_ascii_keep [OF ascii]] show ?thesis using ascii 2 by (simp add: quote.simps(2))
  next
    case bad
    then show ?thesis using 2 html_escape_prefix [OF u_escape_keep] by (simp add: quote.simps(2))
  next
    case sep
    then show ?thesis using 2 html_escape_prefix [OF u_escape_keep] by (simp add: quote.simps(2) Let_def)
  next
    case multi
    then show ?thesis using 2 html_escape_multibyte [OF multi(2,3,1)] by (simp add: quote.simps(2) Let_def)
  qed
qed (simp add: quote.simps)

lemma json_compact_from_goval [simp]: "json_compact (from_goval v) = from_goval v"
proof (induction v)
  case (GObj ms)
  have "\<forall>m\<in>set ms. json_compact (from_goval (snd m)) = from_goval (snd m)"
    using GObj.IH by (metis prod.collapse snds.intros)
  then show ?case by (auto simp: case_prod_beta)
qed (simp_all add: comp_def cong: map_cong)

end
