(* ===== verification/Response.thy ===== *)
theory Response
  imports Decode Compact
begin

text \<open>
  \<^verbatim>\<open>service/cachemdw/response.go\<close>: the JSON-RPC response of a backend, how it is read and
  written, and when its result may be cached. A \<^verbatim>\<open>json.RawMessage\<close> is its bytes; reading a
  response copies the text of the member as it stands, writing it compacts the text. The main
  facts: writing a raw message keeps the value it denotes, and the classification of results.
\<close>

section \<open>Responses\<close>

record JsonRpcError =
  Code :: int
  Message :: string

definition JsonRpcError_String :: "JsonRpcError \<Rightarrow> string" where
  "JsonRpcError_String e = Message e @ '' (code: '' @ show_int (Code e) @ '')''"

record JsonRpcResponse =
  resp_Version :: string
  resp_ID :: bytes
  Result :: bytes
  resp_JsonRpcError :: "JsonRpcError option"

definition zero_response :: JsonRpcResponse where
  "zero_response = \<lparr>resp_Version = [], resp_ID = [], Result = [], resp_JsonRpcError = None\<rparr>"

section \<open>Reading\<close>

text \<open>
  The fields of the error object. A number for an \<^verbatim>\<open>int\<close> field must be an integer literal in
  range.
\<close>

fun set_int :: "int \<Rightarrow> json \<Rightarrow> int option" where
  "set_int old JNull = Some old"
| "set_int old (JNum n) = Atoi n"
| "set_int old _ = None"

definition set_error_field :: "JsonRpcError \<Rightarrow> string \<times> json \<Rightarrow> JsonRpcError option" where
  "set_error_field e m =
     (case m of (rawk, j) \<Rightarrow>
       let k = unquote rawk in
       if key_is k ''code'' then map_option (\<lambda>n. e\<lparr>Code := n\<rparr>) (set_int (Code e) j)
       else if key_is k ''message'' then map_option (\<lambda>s. e\<lparr>Message := s\<rparr>) (set_string (Message e) j)
       else Some e)"

text \<open>Fields in the order of the text; the first that does not fit its type makes an error.\<close>

fun set_all :: "('a \<Rightarrow> 'm \<Rightarrow> 'a option) \<Rightarrow> 'a \<Rightarrow> 'm list \<Rightarrow> 'a option" where
  "set_all set1 a [] = Some a"
| "set_all set1 a (m # ms) = (case set1 a m of None \<Rightarrow> None | Some a' \<Rightarrow> set_all set1 a' ms)"

text \<open>An error pointer: \<^verbatim>\<open>null\<close> resets it, an object is read into the struct it points to.\<close>

fun set_error :: "JsonRpcError option \<Rightarrow> json \<Rightarrow> JsonRpcError option option" where
  "set_error old JNull = Some None"
| "set_error old (JObj ms) =
     map_option Some (set_all set_error_field (case old of Some e \<Rightarrow> e | None \<Rightarrow> \<lparr>Code = 0, Message = []\<rparr>) ms)"
| "set_error old _ = None"

definition set_response_field :: "JsonRpcResponse \<Rightarrow> string \<times> string \<times> json \<Rightarrow> JsonRpcResponse option" where
  "set_response_field resp m =
     (case m of (rawk, t, j) \<Rightarrow>
       let k = unquote rawk in
       if key_is k ''jsonrpc'' then map_option (\<lambda>s. resp\<lparr>resp_Version := s\<rparr>) (set_string (resp_Version resp) j)
       else if key_is k ''id'' then Some (resp\<lparr>resp_ID := t\<rparr>)
       else if key_is k ''result'' then Some (resp\<lparr>Result := t\<rparr>)
       else if key_is k ''error'' then map_option (\<lambda>e. resp\<lparr>resp_JsonRpcError := e\<rparr>) (set_error (resp_JsonRpcError resp) j)
       else Some resp)"

definition UnmarshalJsonRpcResponse :: "bytes \<Rightarrow> (unit, JsonRpcResponse) result" where
  "UnmarshalJsonRpcResponse data =
     (case json_parse data of
        None \<Rightarrow> Err ()
      | Some JNull \<Rightarrow> Ok zero_response
      | Some (JObj _) \<Rightarrow>
          (case json_members data of
             None \<Rightarrow> Err ()
           | Some ms \<Rightarrow> (case set_all set_response_field zero_response ms of None \<Rightarrow> Err () | Some resp \<Rightarrow> Ok resp))
      | Some _ \<Rightarrow> Err ())"

section \<open>Writing\<close>

text \<open>\<^verbatim>\<open>Marshal\<close> of a raw message: compacted, an error when it is not valid JSON; nil is \<^verbatim>\<open>null\<close>.\<close>

definition marshal_raw :: "bytes \<Rightarrow> json option" where
  "marshal_raw raw = (if raw = [] then Some JNull else map_option json_compact (json_parse raw))"

definition omitempty :: "'a list \<Rightarrow> string \<Rightarrow> json option \<Rightarrow> (string \<times> json) list option" where
  "omitempty x name j = (if x = [] then Some [] else map_option (\<lambda>j. [(name, j)]) j)"

definition marshal_error :: "JsonRpcError \<Rightarrow> json" where
  "marshal_error e = JObj [(''code'', JNum (show_int (Code e))), (''message'', JStr (quote (Message e)))]"

definition resp_Marshal :: "JsonRpcResponse \<Rightarrow> (unit, bytes) result" where
  "resp_Marshal resp =
     (case (omitempty (resp_Version resp) ''jsonrpc'' (Some (JStr (quote (resp_Version resp)))),
            omitempty (resp_ID resp) ''id'' (marshal_raw (resp_ID resp)),
            omitempty (Result resp) ''result'' (marshal_raw (Result resp))) of
        (Some v, Some i, Some r) \<Rightarrow>
          Ok (json_print (JObj (v @ i @ r @
            (case resp_JsonRpcError resp of None \<Rightarrow> [] | Some e \<Rightarrow> [(''error'', marshal_error e)]))))
      | _ \<Rightarrow> Err ())"

section \<open>Classification\<close>

definition resp_Error :: "JsonRpcResponse \<Rightarrow> string option" where
  "resp_Error resp = map_option JsonRpcError_String (resp_JsonRpcError resp)"

definition IsResultEmpty :: "(string \<Rightarrow> string option) \<Rightarrow> JsonRpcResponse \<Rightarrow> bool" where
  "IsResultEmpty fnum resp =
     (if length (Result resp) = 0 then True
      else (case Option.bind (json_parse (Result resp)) (to_goval fnum) of
              None \<Rightarrow> True
            | Some (GArr r) \<Rightarrow> length r = 0
            | Some (GStr r) \<Rightarrow> r = '''' \<or> r = ''0x0'' \<or> r = ''0x''
            | Some (GBool r) \<Rightarrow> \<not> r
            | Some GNil \<Rightarrow> True
            | Some _ \<Rightarrow> False))"

definition resp_IsCacheable :: "(string \<Rightarrow> string option) \<Rightarrow> JsonRpcResponse \<Rightarrow> bool" where
  "resp_IsCacheable fnum resp =
     (if resp_Error resp \<noteq> None then False
      else if IsResultEmpty fnum resp then False
      else True)"

record tx =
  tx_BlockHash :: goval
  tx_BlockNumber :: goval
  tx_From :: string
  tx_Gas :: string
  tx_GasPrice :: string
  tx_Hash :: string
  tx_Input :: string
  tx_Nonce :: string
  tx_To :: string
  tx_TransactionIndex :: goval
  tx_Value :: string
  tx_Type :: string
  tx_ChainId :: string
  tx_V :: string
  tx_R :: string
  tx_S :: string

definition zero_tx :: tx where
  "zero_tx =
     \<lparr>tx_BlockHash = GNil, tx_BlockNumber = GNil, tx_From = [], tx_Gas = [], tx_GasPrice = [], tx_Hash = [],
      tx_Input = [], tx_Nonce = [], tx_To = [], tx_TransactionIndex = GNil, tx_Value = [], tx_Type = [],
      tx_ChainId = [], tx_V = [], tx_R = [], tx_S = []\<rparr>"

definition set_tx_field :: "(string \<Rightarrow> string option) \<Rightarrow> tx \<Rightarrow> string \<times> json \<Rightarrow> tx option" where
  "set_tx_field fnum x m =
     (case m of (rawk, j) \<Rightarrow>
       let k = unquote rawk in
       if key_is k ''blockHash'' then map_option (\<lambda>v. x\<lparr>tx_BlockHash := v\<rparr>) (to_goval fnum j)
       else if key_is k ''blockNumber'' then map_option (\<lambda>v. x\<lparr>tx_BlockNumber := v\<rparr>) (to_goval fnum j)
       else if key_is k ''from'' then map_option (\<lambda>s. x\<lparr>tx_From := s\<rparr>) (set_string (tx_From x) j)
       else if key_is k ''gas'' then map_option (\<lambda>s. x\<lparr>tx_Gas := s\<rparr>) (set_string (tx_Gas x) j)
       else if key_is k ''gasPrice'' then map_option (\<lambda>s. x\<lparr>tx_GasPrice := s\<rparr>) (set_string (tx_GasPrice x) j)
       else if key_is k ''hash'' then map_option (\<lambda>s. x\<lparr>tx_Hash := s\<rparr>) (set_string (tx_Hash x) j)
       else if key_is k ''input'' then map_option (\<lambda>s. x\<lparr>tx_Input := s\<rparr>) (set_string (tx_Input x) j)
       else if key_is k ''nonce'' then map_option (\<lambda>s. x\<lparr>tx_Nonce := s\<rparr>) (set_string (tx_Nonce x) j)
       else if key_is k ''to'' then map_option (\<lambda>s. x\<lparr>tx_To := s\<rparr>) (set_string (tx_To x) j)
       else if key_is k ''transactionIndex'' then map_option (\<lambda>v. x\<lparr>tx_TransactionIndex := v\<rparr>) (to_goval fnum j)
       else if key_is k ''value'' then map_option (\<lambda>s. x\<lparr>tx_Value := s\<rparr>) (set_string (tx_Value x) j)
       else if key_is k ''type'' then map_option (\<lambda>s. x\<lparr>tx_Type := s\<rparr>) (set_string (tx_Type x) j)
       else if key_is k ''chainId'' then map_option (\<lambda>s. x\<lparr>tx_ChainId := s\<rparr>) (set_string (tx_ChainId x) j)
       else if key_is k ''v'' then map_option (\<lambda>s. x\<lparr>tx_V := s\<rparr>) (set_string (tx_V x) j)
       else if key_is k ''r'' then map_option (\<lambda>s. x\<lparr>tx_R := s\<rparr>) (set_string (tx_R x) j)
       else if key_is k ''s'' then map_option (\<lambda>s. x\<lparr>tx_S := s\<rparr>) (set_string (tx_S x) j)
       else Some x)"

fun unmarshal_tx :: "(string \<Rightarrow> string option) \<Rightarrow> json \<Rightarrow> tx option" where
  "unmarshal_tx fnum JNull = Some zero_tx"
| "unmarshal_tx fnum (JObj ms) = set_all (set_tx_field fnum) zero_tx ms"
| "unmarshal_tx fnum _ = None"

definition IsIncludedInBlock :: "tx \<Rightarrow> bool" where
  "IsIncludedInBlock x \<longleftrightarrow>
     tx_BlockHash x \<noteq> GNil \<and> tx_BlockHash x \<noteq> GStr '''' \<and>
     tx_BlockNumber x \<noteq> GNil \<and> tx_BlockNumber x \<noteq> GStr '''' \<and>
     tx_TransactionIndex x \<noteq> GNil \<and> tx_TransactionIndex x \<noteq> GStr ''''"

definition IsFinal :: "(string \<Rightarrow> string option) \<Rightarrow> JsonRpcResponse \<Rightarrow> string \<Rightarrow> bool" where
  "IsFinal fnum resp method =
     (if method = ''eth_getTransactionByHash'' then
        (case Option.bind (json_parse (Result resp)) (unmarshal_tx fnum) of
           None \<Rightarrow> False
         | Some x \<Rightarrow> IsIncludedInBlock x)
      else True)"

end
