(* ===== verification/QueryCodec.thy ===== *)
theory QueryCodec
  imports Response Http
begin

text \<open>
  How a cached response is stored: \<^verbatim>\<open>json.Marshal\<close> and \<^verbatim>\<open>json.Unmarshal\<close> of the struct
  \<^verbatim>\<open>QueryResponse\<close> (\<^verbatim>\<open>service/cachemdw/cache.go\<close>), whose bytes field is written in base64
  (\<^verbatim>\<open>encoding/base64\<close>, standard alphabet with padding). The main fact is the round trip.
\<close>

section \<open>Base64\<close>

definition b64_char :: "nat \<Rightarrow> char" where
  "b64_char n = char_of
     (if n < 26 then 65 + n else if n < 52 then 71 + n else if n < 62 then n - 4 else if n = 62 then 43 else 47)"

definition b64_value :: "char \<Rightarrow> nat option" where
  "b64_value c =
     (let n = of_char c in
      if 65 \<le> n \<and> n \<le> 90 then Some (n - 65)
      else if 97 \<le> n \<and> n \<le> 122 then Some (n - 71)
      else if 48 \<le> n \<and> n \<le> 57 then Some (n + 4)
      else if n = 43 then Some 62 else if n = 47 then Some 63 else None)"

fun b64_encode :: "bytes \<Rightarrow> string" where
  "b64_encode [] = []"
| "b64_encode [a] = [b64_char (of_char a div 4), b64_char (of_char a mod 4 * 16), CHR ''='', CHR ''='']"
| "b64_encode [a, b] =
     [b64_char (of_char a div 4), b64_char (of_char a mod 4 * 16 + of_char b div 16),
      b64_char (of_char b mod 16 * 4), CHR ''='']"
| "b64_encode (a # b # c # bs) =
     b64_char (of_char a div 4) # b64_char (of_char a mod 4 * 16 + of_char b div 16) #
     b64_char (of_char b mod 16 * 4 + of_char c div 64) # b64_char (of_char c mod 64) # b64_encode bs"

text \<open>Groups of four; padding only in the last one. Bits beyond the last byte are ignored.\<close>

fun b64_groups :: "string \<Rightarrow> bytes option" where
  "b64_groups [] = Some []"
| "b64_groups (w # x # y # z # r) =
     (case (b64_value w, b64_value x) of
        (Some w, Some x) \<Rightarrow>
          if y = CHR ''='' then
            (if z = CHR ''='' \<and> r = [] then Some [char_of (w * 4 + x div 16)] else None)
          else (case b64_value y of
            None \<Rightarrow> None
          | Some y \<Rightarrow>
              if z = CHR ''='' then
                (if r = [] then Some [char_of (w * 4 + x div 16), char_of (x mod 16 * 16 + y div 4)] else None)
              else (case (b64_value z, b64_groups r) of
                (Some z, Some bs) \<Rightarrow>
                  Some (char_of (w * 4 + x div 16) # char_of (x mod 16 * 16 + y div 4) # char_of (y mod 4 * 64 + z) # bs)
              | _ \<Rightarrow> None))
      | _ \<Rightarrow> None)"
| "b64_groups _ = None"

text \<open>Line breaks between the characters are skipped.\<close>

definition b64_decode :: "string \<Rightarrow> bytes option" where
  "b64_decode s = b64_groups (filter (\<lambda>c. c \<notin> {CHR 0x0A, CHR 0x0D}) s)"

lemma b64_char_code:
  "n < 64 \<Longrightarrow> (of_char (b64_char n) :: nat) =
     (if n < 26 then 65 + n else if n < 52 then 71 + n else if n < 62 then n - 4 else if n = 62 then 43 else 47)"
  by (auto simp: b64_char_def)

lemma b64_value_char [simp]: "n < 64 \<Longrightarrow> b64_value (b64_char n) = Some n"
  unfolding b64_value_def b64_char_code Let_def by auto

lemma b64_char_plain:
  assumes "n < 64"
  shows "b64_char n \<noteq> CHR ''=''" "b64_char n \<noteq> CHR 0x0A" "b64_char n \<noteq> CHR 0x0D" "b64_char n \<noteq> backslash"
    "b64_char n \<noteq> dquote" "32 \<le> (of_char (b64_char n) :: nat)" "(of_char (b64_char n) :: nat) < 128"
  using b64_char_code [OF assms] assms by (auto split: if_splits)

lemma byte_parts:
  "(of_char a :: nat) div 4 < 64" "(of_char a :: nat) mod 4 * 16 < 64" "(of_char a :: nat) mod 16 * 4 < 64"
  "(of_char a :: nat) div 16 < 16" "(of_char a :: nat) div 64 < 4"
  "(of_char a :: nat) mod 4 * 16 + of_char b div 16 < 64" "(of_char a :: nat) mod 16 * 4 + of_char b div 64 < 64"
proof -
  have a: "(of_char a :: nat) < 256" and b: "(of_char b :: nat) < 256" by (rule nat_of_char_less_256)+
  have "(of_char b :: nat) div 16 < 16" "(of_char b :: nat) div 64 < 4" "(of_char a :: nat) div 4 < 64"
    "(of_char a :: nat) div 16 < 16" "(of_char a :: nat) div 64 < 4"
    using a b by (simp_all add: less_mult_imp_div_less)
  moreover have "(of_char a :: nat) mod 4 < 4" "(of_char a :: nat) mod 16 < 16" by simp_all
  ultimately show "(of_char a :: nat) div 4 < 64" "(of_char a :: nat) mod 4 * 16 < 64" "(of_char a :: nat) mod 16 * 4 < 64"
    "(of_char a :: nat) div 16 < 16" "(of_char a :: nat) div 64 < 4"
    "(of_char a :: nat) mod 4 * 16 + of_char b div 16 < 64" "(of_char a :: nat) mod 16 * 4 + of_char b div 64 < 64"
    by linarith+
qed

lemma join_bits:
  fixes x y :: nat
  shows "y < 16 \<Longrightarrow> x div 4 * 4 + (x mod 4 * 16 + y) div 16 = x" "y < 16 \<Longrightarrow> (x * 16 + y) mod 16 = y"
    "y < 4 \<Longrightarrow> x div 16 * 16 + (x mod 16 * 4 + y) div 4 = x" "y < 4 \<Longrightarrow> (x * 4 + y) mod 4 = y"
    "x div 64 * 64 + x mod 64 = x"
  by (simp_all add: div_mult_self3)

lemma b64_groups_encode: "b64_groups (b64_encode bs) = Some bs"
proof (induction bs rule: b64_encode.induct)
  case (2 a)
  then show ?case using join_bits(1) [of 0 "of_char a"] by (simp add: byte_parts b64_char_plain)
next
  case (3 a b)
  then show ?case using join_bits(1,2) [of "of_char b div 16"] join_bits(3) [of 0 "of_char b"]
    by (simp add: byte_parts b64_char_plain)
next
  case (4 a b c bs)
  then show ?case
    using join_bits(1) [of "of_char b div 16" "of_char a"] join_bits(2) [of "of_char b div 16" "of_char a mod 4"]
      join_bits(3) [of "of_char c div 64" "of_char b"] join_bits(4) [of "of_char c div 64" "of_char b mod 16"]
    by (simp add: byte_parts b64_char_plain)
qed simp

lemma b64_encode_plain:
  "\<forall>c\<in>set (b64_encode bs). c \<noteq> CHR 0x0A \<and> c \<noteq> CHR 0x0D \<and> c \<noteq> backslash \<and> c \<noteq> dquote \<and>
     32 \<le> (of_char c :: nat) \<and> (of_char c :: nat) < 128"
  by (induction bs rule: b64_encode.induct) (simp_all add: byte_parts b64_char_plain)

lemma b64_decode_encode: "b64_decode (b64_encode bs) = Some bs"
proof -
  have "filter (\<lambda>c. c \<notin> {CHR 0x0A, CHR 0x0D}) (b64_encode bs) = b64_encode bs"
    using b64_encode_plain [of bs] by (intro filter_True) auto
  then show ?thesis by (simp add: b64_decode_def b64_groups_encode)
qed

section \<open>The stored form of a cached response\<close>

text \<open>A nil slice is written \<^verbatim>\<open>null\<close>; the keys of a map are sorted.\<close>

definition marshal_header_map :: "(string, string) gomap \<Rightarrow> json" where
  "marshal_header_map hm = JObj (map (\<lambda>(k, v). (quote k, JStr (quote v))) (sort_key fst hm))"

definition marshal_query_response :: "QueryResponse \<Rightarrow> json" where
  "marshal_query_response qr =
     JObj [(''json_rpc_response_result'',
            if JsonRpcResponseResult qr = [] then JNull else JStr (b64_encode (JsonRpcResponseResult qr))),
           (''header_map'', marshal_header_map (HeaderMap qr))]"

text \<open>An array of small numbers is accepted for a byte slice as well.\<close>

fun byte_element :: "json \<Rightarrow> char option" where
  "byte_element JNull = Some (CHR 0x00)"
| "byte_element (JNum n) =
     (case digits_value 10 0 n of Some b \<Rightarrow> if b < 256 then Some (char_of b) else None | None \<Rightarrow> None)"
| "byte_element _ = None"

fun set_bytes :: "json \<Rightarrow> bytes option" where
  "set_bytes JNull = Some []"
| "set_bytes (JStr s) = b64_decode (unquote s)"
| "set_bytes (JArr js) = those (map byte_element js)"
| "set_bytes _ = None"

fun set_header_map :: "(string, string) gomap \<Rightarrow> json \<Rightarrow> (string, string) gomap option" where
  "set_header_map old JNull = Some []"
| "set_header_map old (JObj ms) =
     map_option (\<lambda>kvs. go_map_of (old @ kvs)) (those (map (\<lambda>(k, j). map_option (Pair (unquote k)) (set_string [] j)) ms))"
| "set_header_map old _ = None"

definition set_query_response_field :: "QueryResponse \<Rightarrow> string \<times> json \<Rightarrow> QueryResponse option" where
  "set_query_response_field qr m =
     (case m of (rawk, j) \<Rightarrow>
       let k = unquote rawk in
       if key_is k ''json_rpc_response_result'' then map_option (\<lambda>b. qr\<lparr>JsonRpcResponseResult := b\<rparr>) (set_bytes j)
       else if key_is k ''header_map'' then map_option (\<lambda>h. qr\<lparr>HeaderMap := h\<rparr>) (set_header_map (HeaderMap qr) j)
       else Some qr)"

definition zero_query_response :: QueryResponse where
  "zero_query_response = \<lparr>JsonRpcResponseResult = [], HeaderMap = []\<rparr>"

definition unmarshal_query_response :: "bytes \<Rightarrow> QueryResponse option" where
  "unmarshal_query_response data =
     (case json_parse data of
        Some JNull \<Rightarrow> Some zero_query_response
      | Some (JObj ms) \<Rightarrow> set_all set_query_response_field zero_query_response ms
      | _ \<Rightarrow> None)"

lemma query_response_keys:
  "unquote ''json_rpc_response_result'' = ''json_rpc_response_result''" "unquote ''header_map'' = ''header_map''"
  by (simp_all add: unquote_plain)

lemma marshal_query_response_wf: "json_wf max_nesting (marshal_query_response qr)"
proof -
  have "str_ok (b64_encode bs)" for bs using b64_encode_plain [of bs] by (intro str_ok_plain) auto
  moreover have "str_ok ''json_rpc_response_result''" "str_ok ''header_map''" by (auto intro!: str_ok_plain)
  ultimately show ?thesis
    by (auto simp: marshal_query_response_def marshal_header_map_def max_nesting_def)
qed

definition header_map_ok :: "(string, string) gomap \<Rightarrow> bool" where
  "header_map_ok hm \<longleftrightarrow> map_wf hm \<and> (\<forall>(k, v)\<in>set hm. utf8_valid k \<and> utf8_valid v)"

lemma set_header_map_marshal:
  assumes "header_map_ok hm"
  shows "set_header_map [] (marshal_header_map hm) = Some (sort_key fst hm)"
proof -
  let ?g = "(\<lambda>(k, j). map_option (Pair (unquote k)) (set_string [] j)) \<circ> (\<lambda>(k, v). (quote k, JStr (quote v)))"
  have "\<forall>m\<in>set (sort_key fst hm). ?g m = Some m"
    using assms by (auto simp: header_map_ok_def unquote_quote)
  then have "those (map ?g (sort_key fst hm)) = Some (map (\<lambda>m. m) (sort_key fst hm))"
    by (rule those_map_Some)
  moreover have "distinct (map fst (sort_key fst hm))"
    using assms by (auto simp: header_map_ok_def map_wf_def distinct_map)
  ultimately show ?thesis
    by (simp add: marshal_header_map_def go_map_of_id)
qed

lemma unmarshal_marshal_query_response:
  assumes "header_map_ok (HeaderMap qr)"
  shows "unmarshal_query_response (json_print (marshal_query_response qr)) =
    Some (qr\<lparr>HeaderMap := sort_key fst (HeaderMap qr)\<rparr>)"
proof -
  have "set_bytes (if bs = [] then JNull else JStr (b64_encode bs)) = Some bs" for bs
    using b64_encode_plain [of bs] by (simp add: unquote_plain b64_decode_encode)
  moreover have "json_parse (json_print (marshal_query_response qr)) = Some (marshal_query_response qr)"
    by (rule json_parse_print [OF marshal_query_response_wf])
  moreover have "\<not> key_is ''header_map'' ''json_rpc_response_result''" by (simp add: key_is_def)
  ultimately show ?thesis
    using set_header_map_marshal [OF assms]
    by (simp add: unmarshal_query_response_def marshal_query_response_def set_query_response_field_def
        query_response_keys key_is_def zero_query_response_def Let_def)
qed

text \<open>The result comes back whatever bytes the headers have.\<close>

lemma unmarshal_marshal_result:
  "\<exists>hm. unmarshal_query_response (json_print (marshal_query_response qr)) =
    Some \<lparr>JsonRpcResponseResult = JsonRpcResponseResult qr, HeaderMap = hm\<rparr>"
proof -
  let ?g = "(\<lambda>(k, j). map_option (Pair (unquote k)) (set_string [] j)) \<circ> (\<lambda>(k, v). (quote k, JStr (quote v)))"
  have "those (map ?g kvs) = Some (map (\<lambda>(k, v). (unquote (quote k), unquote (quote v))) kvs)" for kvs
    by (induction kvs) auto
  then obtain hm where "set_header_map [] (marshal_header_map (HeaderMap qr)) = Some hm"
    by (simp add: marshal_header_map_def)
  moreover have "set_bytes (if bs = [] then JNull else JStr (b64_encode bs)) = Some bs" for bs
    using b64_encode_plain [of bs] by (simp add: unquote_plain b64_decode_encode)
  moreover have "json_parse (json_print (marshal_query_response qr)) = Some (marshal_query_response qr)"
    by (rule json_parse_print [OF marshal_query_response_wf])
  moreover have "\<not> key_is ''header_map'' ''json_rpc_response_result''" by (simp add: key_is_def)
  ultimately show ?thesis
    by (simp add: unmarshal_query_response_def marshal_query_response_def set_query_response_field_def
        query_response_keys key_is_def zero_query_response_def Let_def)
qed

lemma map_of_sort_key: "map_wf hm \<Longrightarrow> map_of (sort_key fst hm) = map_of hm"
  by (rule map_of_eqI) (auto simp: map_wf_def map_of_eq_Some_iff distinct_map)

end
