(* ===== verification/Calendar.thy ===== *)
theory Calendar
  imports Prelude
begin

text \<open>
  The part of package \<^verbatim>\<open>time\<close> that the cache client and the partition planner use: instants,
  calendar dates in UTC, \<^verbatim>\<open>time.Date\<close> with its normalisation, \<^verbatim>\<open>AddDate\<close> and \<^verbatim>\<open>Truncate\<close>. An
  instant is the number of nanoseconds since the zero time, January 1 of year 1, 00:00 UTC.
  The process is taken to run with UTC as its local time.
\<close>

section \<open>Definitions\<close>

definition day_ns :: int where "day_ns = 86400000000000"

definition leap :: "int \<Rightarrow> bool" where
  "leap y \<longleftrightarrow> y mod 4 = 0 \<and> (y mod 100 \<noteq> 0 \<or> y mod 400 = 0)"

text \<open>Days before each month of a common year, as the table of the library has them.\<close>

definition daysBefore :: "int list" where
  "daysBefore = [0, 31, 59, 90, 120, 151, 181, 212, 243, 273, 304, 334, 365]"

definition days_before_month :: "bool \<Rightarrow> int \<Rightarrow> int" where
  "days_before_month lp m = daysBefore ! nat (m - 1) + (if lp \<and> 3 \<le> m then 1 else 0)"

definition days_before_year :: "int \<Rightarrow> int" where
  "days_before_year y = 365 * (y - 1) + (y - 1) div 4 - (y - 1) div 100 + (y - 1) div 400"

text \<open>The day number of a date; the month is normalised first, the day may be out of range.\<close>

definition day_number :: "int \<Rightarrow> int \<Rightarrow> int \<Rightarrow> int" where
  "day_number year month day =
     (let y = year + (month - 1) div 12; m = (month - 1) mod 12 + 1 in
      days_before_year y + days_before_month (leap y) m + day - 1)"

definition year_and_day :: "int \<Rightarrow> int \<times> int" where
  "year_and_day n =
     (let q = n div 146097; r = n mod 146097;
          c = (let c0 = r div 36524 in c0 - c0 div 4); r2 = r - 36524 * c;
          f = r2 div 1461; r3 = r2 - 1461 * f;
          g = (let g0 = r3 div 365 in g0 - g0 div 4)
      in (400 * q + 100 * c + 4 * f + g + 1, r3 - 365 * g))"

definition month_and_day :: "bool \<Rightarrow> int \<Rightarrow> int \<times> int" where
  "month_and_day lp yday =
     (if lp \<and> yday = 59 then (2, 29)
      else (let day = (if lp \<and> 59 < yday then yday - 1 else yday);
                month = day div 31;
                e = daysBefore ! nat (month + 1) in
            if e \<le> day then (month + 2, day - e + 1)
            else (month + 1, day - daysBefore ! nat month + 1)))"

definition date_of_day :: "int \<Rightarrow> int \<times> int \<times> int" where
  "date_of_day n =
     (case year_and_day n of (y, yday) \<Rightarrow>
        case month_and_day (leap y) yday of (m, d) \<Rightarrow> (y, m, d))"

definition time_Date_of :: "int \<Rightarrow> int \<times> int \<times> int" where
  "time_Date_of t = date_of_day (t div day_ns)"

definition time_AddDate :: "int \<Rightarrow> int \<Rightarrow> int \<Rightarrow> int \<Rightarrow> int" where
  "time_AddDate t years months days =
     (case time_Date_of t of (y, m, d) \<Rightarrow>
        day_number (y + years) (m + months) (d + days) * day_ns + t mod day_ns)"

definition time_Truncate :: "int \<Rightarrow> int \<Rightarrow> int" where
  "time_Truncate t d = (if d \<le> 0 then t else t - t mod d)"

section \<open>Years\<close>

lemma days_before_year_Suc: "days_before_year (y + 1) = days_before_year y + 365 + (if leap y then 1 else 0)"
proof -
  have step: "y div k = (y - 1) div k + of_bool (y mod k = 0)" if "1 < k" for k :: int
  proof (cases "y mod k = 0")
    case True
    have "y - 1 = k * (y div k - 1) + (k - 1)" using True mult_div_mod_eq [of k y] by (simp add: right_diff_distrib)
    then have "(y - 1) div k = y div k - 1" using that by (intro int_div_pos_eq [where r = "k - 1"]) auto
    with True show ?thesis by simp
  next
    case False
    have "y - 1 = k * (y div k) + (y mod k - 1)" by simp
    then have "(y - 1) div k = y div k"
      using False that pos_mod_sign [of k y] pos_mod_bound [of k y]
      by (intro int_div_pos_eq [of _ _ _ "y mod k - 1"]) linarith+
    with False show ?thesis by simp
  qed
  have "(100 :: int) dvd 400" "(4 :: int) dvd 100" by simp_all
  then have dvds: "y mod 400 = 0 \<Longrightarrow> y mod 100 = 0" "y mod 100 = 0 \<Longrightarrow> y mod 4 = 0"
    by (meson dvd_trans mod_eq_0_iff_dvd)+
  have leap_sum: "365 * y + (a + of_bool P) - (b + of_bool Q) + (c + of_bool R) =
      365 * (y - 1) + a - b + c + 365 + of_bool (P \<and> (\<not> Q \<or> R))"
    if "R \<longrightarrow> Q" and "Q \<longrightarrow> P" for P Q R and a b c :: int
    using that by (cases P; cases Q; cases R) simp_all
  have "days_before_year (y + 1) = 365 * y + y div 4 - y div 100 + y div 400"
    by (simp add: days_before_year_def)
  also have "\<dots> = 365 * (y - 1) + (y - 1) div 4 - (y - 1) div 100 + (y - 1) div 400 + 365 +
      of_bool (y mod 4 = 0 \<and> (y mod 100 \<noteq> 0 \<or> y mod 400 = 0))"
    by (subst step [of 4], simp, subst step [of 100], simp, subst step [of 400], simp)
       (rule leap_sum, use dvds in blast, use dvds in blast)
  finally show ?thesis by (simp only: days_before_year_def leap_def of_bool_def)
qed

lemma days_before_year_less: "y < z \<Longrightarrow> days_before_year y + 365 \<le> days_before_year z"
proof (induction "nat (z - y)" arbitrary: z)
  case (Suc n)
  show ?case
  proof (cases "z = y + 1")
    case True
    then show ?thesis using days_before_year_Suc [of y] by simp
  next
    case False
    then have "days_before_year y + 365 \<le> days_before_year (z - 1)" using Suc by (intro Suc.hyps) auto
    then show ?thesis using days_before_year_Suc [of "z - 1"] by simp
  qed
qed simp

lemma mod_upto: "0 < x \<Longrightarrow> x \<le> k \<Longrightarrow> x mod k = 0 \<longleftrightarrow> x = (k :: int)"
  by (cases "x = k") (auto simp: mod_pos_pos_trivial)

text \<open>
  Dividing into four parts of which the last may be longer: the quotient is cut off at 3.
\<close>

lemma quotient_cut:
  fixes r k :: int
  assumes "0 < k" and "0 \<le> r" and "r < 5 * k"
  defines "c \<equiv> r div k - r div k div 4"
  shows "0 \<le> c" and "c \<le> 3" and "0 \<le> r - k * c" and "r - k * c < k \<or> c = 3 \<and> 4 * k \<le> r"
proof -
  define c0 m where "c0 = r div k" and "m = r mod k"
  have r: "r = k * c0 + m" "0 \<le> m" "m < k" using assms(1) by (simp_all add: c0_def m_def)
  have "c0 < 5"
  proof (rule ccontr)
    assume "\<not> c0 < 5"
    then have "k * 5 \<le> k * c0" using assms(1) by (intro mult_left_mono) auto
    then show False using r assms(3) by linarith
  qed
  moreover have "0 \<le> c0" using assms by (simp add: c0_def pos_imp_zdiv_nonneg_iff)
  ultimately have c: "0 \<le> c0 \<and> (c0 = 4 \<and> c = 3 \<or> c0 \<le> 3 \<and> c = c0)" by (auto simp: c_def c0_def [symmetric])
  then show "0 \<le> c" "c \<le> 3" by auto
  from c show "0 \<le> r - k * c" using r assms(1) by auto
  from c show "r - k * c < k \<or> c = 3 \<and> 4 * k \<le> r" using r assms(1) by auto
qed

text \<open>The cycle arithmetic finds the year a day number lies in.\<close>

lemma year_cycles:
  fixes q c f g :: int
  assumes "0 \<le> c" "c \<le> 3" "0 \<le> f" "f \<le> 24" "0 \<le> g" "g \<le> 3"
  shows "days_before_year (400 * q + 100 * c + 4 * f + g + 1) = 146097 * q + 36524 * c + 1461 * f + 365 * g"
    and "leap (400 * q + 100 * c + 4 * f + g + 1) \<longleftrightarrow> g = 3 \<and> (f = 24 \<longrightarrow> c = 3)"
proof -
  let ?Y = "400 * q + 100 * c + 4 * f + g"
  have "?Y div 4 = 100 * q + 25 * c + f" "?Y div 100 = 4 * q + c" "?Y div 400 = q"
    using assms by (auto intro!: int_div_pos_eq [where r = g] int_div_pos_eq [where r = "4 * f + g"]
        int_div_pos_eq [where r = "100 * c + 4 * f + g"])
  then show "days_before_year (?Y + 1) = 146097 * q + 36524 * c + 1461 * f + 365 * g"
    by (simp add: days_before_year_def)
  have "(?Y + 1) mod 4 = (g + 1) mod 4"
    using mod_mult_self4 [of 4 "100 * q + 25 * c + f" "g + 1"] by (simp add: algebra_simps)
  moreover have "(?Y + 1) mod 100 = (4 * f + g + 1) mod 100"
    using mod_mult_self4 [of 100 "4 * q + c" "4 * f + g + 1"] by (simp add: algebra_simps)
  moreover have "(?Y + 1) mod 400 = (100 * c + 4 * f + g + 1) mod 400"
    using mod_mult_self4 [of 400 q "100 * c + 4 * f + g + 1"] by (simp add: algebra_simps)
  moreover have "(g + 1) mod 4 = 0 \<longleftrightarrow> g + 1 = 4" using assms by (intro mod_upto) auto
  moreover have "(4 * f + g + 1) mod 100 = 0 \<longleftrightarrow> 4 * f + g + 1 = 100" using assms by (intro mod_upto) auto
  moreover have "(100 * c + 4 * f + g + 1) mod 400 = 0 \<longleftrightarrow> 100 * c + 4 * f + g + 1 = 400"
    using assms by (intro mod_upto) auto
  moreover have "g + 1 = 4 \<longleftrightarrow> g = 3" "4 * f + g + 1 = 100 \<longleftrightarrow> f = 24 \<and> g = 3"
    "100 * c + 4 * f + g + 1 = 400 \<longleftrightarrow> c = 3 \<and> f = 24 \<and> g = 3"
    using assms by presburger+
  ultimately show "leap (?Y + 1) \<longleftrightarrow> g = 3 \<and> (f = 24 \<longrightarrow> c = 3)" by (auto simp: leap_def)
qed

lemma year_and_day_spec:
  assumes "year_and_day n = (y, yday)"
  shows "days_before_year y + yday = n" and "0 \<le> yday" and "yday < 365 + (if leap y then 1 else 0)"
proof -
  define q where "q = n div 146097"
  define r where "r = n mod 146097"
  define c where "c = r div 36524 - r div 36524 div 4"
  define r2 where "r2 = r - 36524 * c"
  define f where "f = r2 div 1461"
  define r3 where "r3 = r2 - 1461 * f"
  define g where "g = r3 div 365 - r3 div 365 div 4"
  have n: "n = 146097 * q + r" by (simp add: q_def r_def)
  have r: "0 \<le> r" "r < 146097" by (simp_all add: r_def)
  have c: "0 \<le> c" "c \<le> 3" "0 \<le> r2" "r2 < 36524 \<or> c = 3 \<and> r2 = 36524"
    using quotient_cut [of 36524 r] r by (auto simp: c_def r2_def)
  have r3: "r3 = r2 mod 1461" by (simp add: r3_def f_def minus_mult_div_eq_mod)
  then have r3': "0 \<le> r3" "r3 < 1461" by simp_all
  have f: "0 \<le> f" "f \<le> 24" "f = 24 \<longrightarrow> c = 3 \<or> r3 < 1460"
    using c r3' by (auto simp: f_def r3_def)
  have g: "0 \<le> g" "g \<le> 3" "0 \<le> r3 - 365 * g" "r3 - 365 * g < 365 \<or> g = 3 \<and> r3 = 1460"
    using quotient_cut [of 365 r3] r3' by (auto simp: g_def)
  have y: "y = 400 * q + 100 * c + 4 * f + g + 1" "yday = r3 - 365 * g"
    using assms by (simp_all add: year_and_day_def Let_def q_def r_def c_def r2_def f_def r3_def g_def)
  note cyc = year_cycles [OF c(1,2) f(1,2) g(1,2), of q]
  show "days_before_year y + yday = n" using cyc(1) n y by (simp add: r3_def r2_def)
  show "0 \<le> yday" using g y by simp
  show "yday < 365 + (if leap y then 1 else 0)" using g f r3' y cyc(2) by auto
qed

lemma year_and_day_unique:
  assumes "0 \<le> yday" and "yday < 365 + (if leap y then 1 else 0)"
  shows "year_and_day (days_before_year y + yday) = (y, yday)"
proof -
  obtain y' yday' where e: "year_and_day (days_before_year y + yday) = (y', yday')"
    by (cases "year_and_day (days_before_year y + yday)")
  note s = year_and_day_spec [OF e]
  have "y' = y"
  proof (rule ccontr)
    assume "y' \<noteq> y"
    then consider "y' + 1 \<le> y" | "y + 1 \<le> y'" by linarith
    then show False
    proof cases
      case 1
      then have "days_before_year (y' + 1) \<le> days_before_year y"
        using days_before_year_less [of "y' + 1" y] by (cases "y' + 1 = y") auto
      then show False using s assms days_before_year_Suc [of y'] by linarith
    next
      case 2
      then have "days_before_year (y + 1) \<le> days_before_year y'"
        using days_before_year_less [of "y + 1" y'] by (cases "y + 1 = y'") auto
      then show False using s assms days_before_year_Suc [of y] by linarith
    qed
  qed
  with s(1) e show ?thesis by simp
qed

section \<open>Dates\<close>

definition days_in_month :: "int \<Rightarrow> int \<Rightarrow> int" where
  "days_in_month y m = days_before_month (leap y) (m + 1) - days_before_month (leap y) m"

definition valid_date :: "int \<Rightarrow> int \<Rightarrow> int \<Rightarrow> bool" where
  "valid_date y m d \<longleftrightarrow> 1 \<le> m \<and> m \<le> 12 \<and> 1 \<le> d \<and> d \<le> days_in_month y m"

text \<open>The month table, checked on every day of a common and of a leap year.\<close>

definition month_day_ok :: "bool \<Rightarrow> int \<Rightarrow> bool" where
  "month_day_ok lp yday \<longleftrightarrow>
     (case month_and_day lp yday of (m, d) \<Rightarrow>
        1 \<le> m \<and> m \<le> 12 \<and> 1 \<le> d \<and> d \<le> days_before_month lp (m + 1) - days_before_month lp m \<and>
        days_before_month lp m + d - 1 = yday)"

lemma month_and_day_ok:
  assumes "0 \<le> yday" and "yday < 365 + (if lp then 1 else 0)"
  shows "month_day_ok lp yday"
proof (cases "lp \<and> yday = 59")
  case True
  then show ?thesis by (simp add: month_day_ok_def month_and_day_def days_before_month_def daysBefore_def)
next
  case False
  define day where "day = (if lp \<and> 59 < yday then yday - 1 else yday)"
  define q where "q = day div 31"
  have day: "0 \<le> day" "day < 365" "yday = day + (if lp \<and> 59 \<le> day then 1 else 0)"
    using assms False by (auto simp: day_def split: if_splits)
  have bounds: "31 * q \<le> day" "day < 31 * q + 31" by (simp_all add: q_def)
  have "0 \<le> q" "q \<le> 11" using bounds day by linarith+
  then have q: "q = 0 \<or> q = 1 \<or> q = 2 \<or> q = 3 \<or> q = 4 \<or> q = 5 \<or> q = 6 \<or> q = 7 \<or> q = 8 \<or> q = 9 \<or> q = 10 \<or> q = 11"
    by arith
  have eq: "month_and_day lp yday = (if daysBefore ! nat (q + 1) \<le> day then (q + 2, day - daysBefore ! nat (q + 1) + 1)
      else (q + 1, day - daysBefore ! nat q + 1))"
    using False by (auto simp: month_and_day_def day_def q_def Let_def)
  from q show ?thesis using bounds day unfolding month_day_ok_def eq
    by (elim disjE) (auto simp: days_before_month_def daysBefore_def)
qed

lemma month_and_day_spec:
  assumes "0 \<le> yday" and "yday < 365 + (if lp then 1 else 0)" and "month_and_day lp yday = (m, d)"
  shows "1 \<le> m" "m \<le> 12" "1 \<le> d" "d \<le> days_before_month lp (m + 1) - days_before_month lp m"
    "days_before_month lp m + d - 1 = yday"
  using month_and_day_ok [OF assms(1,2)] assms(3) by (simp_all add: month_day_ok_def)

text \<open>The months follow one another without a gap: a day lies in one month only.\<close>

lemma days_before_month_step:
  assumes "1 \<le> m" and "m \<le> 12"
  shows "days_before_month lp m + 28 \<le> days_before_month lp (m + 1)"
proof -
  from assms have "m = 1 \<or> m = 2 \<or> m = 3 \<or> m = 4 \<or> m = 5 \<or> m = 6 \<or> m = 7 \<or> m = 8 \<or> m = 9 \<or> m = 10 \<or> m = 11 \<or> m = 12"
    by arith
  then show ?thesis by (elim disjE) (simp_all add: days_before_month_def daysBefore_def)
qed

lemma days_before_month_mono:
  assumes "1 \<le> m" and "m < m'" and "m' \<le> 13"
  shows "days_before_month lp (m + 1) \<le> days_before_month lp m'"
  using assms(2,3)
proof (induction "nat (m' - m)" arbitrary: m')
  case (Suc n)
  show ?case
  proof (cases "m' = m + 1")
    case False
    then have "days_before_month lp (m + 1) \<le> days_before_month lp (m' - 1)" using Suc by (intro Suc.hyps) auto
    moreover have "days_before_month lp (m' - 1 + 1) \<ge> days_before_month lp (m' - 1) + 28"
      using days_before_month_step [of "m' - 1" lp] Suc.prems assms(1) False by simp
    ultimately show ?thesis by simp
  qed simp
qed simp

lemma date_of_day_valid:
  assumes "date_of_day n = (y, m, d)"
  shows "valid_date y m d" and "day_number y m d = n"
proof -
  obtain yday where y: "year_and_day n = (y, yday)" and md: "month_and_day (leap y) yday = (m, d)"
    using assms by (auto simp: date_of_day_def split: prod.splits)
  note s = year_and_day_spec [OF y]
  note t = month_and_day_spec [OF s(2) s(3) md]
  show "valid_date y m d" using t by (simp add: valid_date_def days_in_month_def)
  have "(m - 1) div 12 = 0" "(m - 1) mod 12 = m - 1" using t by (auto simp: div_pos_pos_trivial mod_pos_pos_trivial)
  then show "day_number y m d = n" using s(1) t(5) by (simp add: day_number_def)
qed

lemma day_number_valid:
  "valid_date y m d \<Longrightarrow> day_number y m d = days_before_year y + days_before_month (leap y) m + d - 1"
  by (simp add: valid_date_def day_number_def div_pos_pos_trivial mod_pos_pos_trivial)

lemma days_before_month_ends [simp]:
  "days_before_month lp 1 = 0" "days_before_month lp 13 = 365 + (if lp then 1 else 0)"
  by (simp_all add: days_before_month_def daysBefore_def)

lemma month_day_unique:
  assumes "1 \<le> m" "m \<le> 12" "1 \<le> d" "d \<le> days_before_month lp (m + 1) - days_before_month lp m"
    and "1 \<le> m'" "m' \<le> 12" "1 \<le> d'" "d' \<le> days_before_month lp (m' + 1) - days_before_month lp m'"
    and "days_before_month lp m + d = days_before_month lp m' + d'"
  shows "m = m' \<and> d = d'"
proof -
  have "\<not> m < m'" "\<not> m' < m"
    using assms days_before_month_mono [of m m' lp] days_before_month_mono [of m' m lp] by linarith+
  then have "m = m'" by simp
  with assms(9) show ?thesis by simp
qed

lemma date_of_day_number:
  assumes "valid_date y m d"
  shows "date_of_day (day_number y m d) = (y, m, d)"
proof -
  let ?yday = "days_before_month (leap y) m + d - 1"
  have v: "1 \<le> m" "m \<le> 12" "1 \<le> d" "d \<le> days_before_month (leap y) (m + 1) - days_before_month (leap y) m"
    using assms by (auto simp: valid_date_def days_in_month_def)
  have lo: "0 \<le> days_before_month (leap y) m"
    using days_before_month_mono [of 1 m "leap y"] v days_before_month_step [of 1 "leap y"]
    by (cases "m = 1") auto
  have hi: "days_before_month (leap y) (m + 1) \<le> days_before_month (leap y) 13"
    using days_before_month_mono [of m 13 "leap y"] v by simp
  have yd: "year_and_day (days_before_year y + ?yday) = (y, ?yday)"
    using v lo hi by (intro year_and_day_unique) auto
  obtain m' d' where md: "month_and_day (leap y) ?yday = (m', d')" by (cases "month_and_day (leap y) ?yday")
  note t = month_and_day_spec [OF year_and_day_spec(2,3) [OF yd] md]
  have "m = m' \<and> d = d'" using v t by (intro month_day_unique [of m d "leap y"]) auto
  moreover have "day_number y m d = days_before_year y + ?yday" using day_number_valid [OF assms] by simp
  ultimately show ?thesis using yd md by (simp add: date_of_day_def)
qed

lemma days_in_month_ge: "1 \<le> m \<Longrightarrow> m \<le> 12 \<Longrightarrow> 28 \<le> days_in_month y m"
  using days_before_month_step [of m "leap y"] by (simp add: days_in_month_def)

lemma day_number_add: "day_number y m (d + k) = day_number y m d + k"
  by (simp add: day_number_def Let_def)

text \<open>The first day of the next month follows the last day of a month.\<close>

lemma day_number_next_month:
  assumes "1 \<le> m" and "m \<le> 12"
  shows "day_number y (m + 1) 1 = day_number y m 1 + days_in_month y m"
proof (cases "m = 12")
  case True
  then show ?thesis using days_before_year_Suc [of y]
    by (simp add: day_number_def days_in_month_def)
next
  case False
  then have "m div 12 = 0" "m mod 12 = m" "(m - 1) div 12 = 0" "(m - 1) mod 12 = m - 1"
    using assms by (auto simp: div_pos_pos_trivial mod_pos_pos_trivial)
  then show ?thesis by (simp add: day_number_def days_in_month_def)
qed

lemma date_in_month:
  assumes "valid_date y m d" and "0 \<le> k" and "d + k \<le> days_in_month y m"
  shows "date_of_day (day_number y m d + k) = (y, m, d + k)"
  using date_of_day_number [of y m "d + k"] assms by (simp add: day_number_add valid_date_def)

definition next_month :: "int \<Rightarrow> int \<Rightarrow> int \<times> int" where
  "next_month y m = (if m = 12 then (y + 1, 1) else (y, m + 1))"

lemma date_after_month:
  assumes "1 \<le> m" and "m \<le> 12" and "next_month y m = (y', m')" and "1 \<le> k" and "k \<le> 28"
  shows "date_of_day (day_number y m 1 + days_in_month y m + (k - 1)) = (y', m', k)"
proof -
  have "1 \<le> m'" "m' \<le> 12" using assms by (auto simp: next_month_def split: if_splits)
  then have valid: "valid_date y' m' 1" "k \<le> days_in_month y' m'"
    using days_in_month_ge [of m' y'] assms by (auto simp: valid_date_def)
  have "day_number y' m' 1 = day_number y (m + 1) 1"
    using assms(1-3) by (auto simp: next_month_def day_number_def split: if_splits)
  then show ?thesis
    using date_in_month [OF valid(1), of "k - 1"] valid(2) assms(4) day_number_next_month [OF assms(1,2), of y]
    by (simp add: algebra_simps)
qed

text \<open>An instant shifted by whole days keeps its time of day.\<close>

lemma day_of_shift: "(t + k * day_ns) div day_ns = t div day_ns + k"
  by (simp add: day_ns_def)

lemma Truncate_day: "time_Truncate t day_ns = t div day_ns * day_ns"
  by (simp add: time_Truncate_def day_ns_def minus_mod_eq_mult_div mult.commute)

lemma time_AddDate_days: "time_AddDate t 0 0 k = t + k * day_ns"
proof -
  obtain y m d where t: "time_Date_of t = (y, m, d)" by (cases "time_Date_of t")
  then have "day_number y m d = t div day_ns" using date_of_day_valid(2) by (simp add: time_Date_of_def)
  then show ?thesis
    using div_mult_mod_eq [of t day_ns]
    by (simp add: time_AddDate_def t day_number_add distrib_right)
qed

end
