(* ===== verification/CacheClient.thy ===== *)
theory CacheClient
  imports Calendar
begin

text \<open>
  \<^verbatim>\<open>clients/cache\<close>: the interface of a key-value cache with expiry (\<^verbatim>\<open>cache.go\<close>), the in-memory
  implementation (\<^verbatim>\<open>inmemory.go\<close>) and the Redis implementation (\<^verbatim>\<open>redis.go\<close>), whose client library
  is a parameter. A call gets the clock readings it makes as a function \<open>now\<close>: \<open>now i\<close> is
  the \<open>i\<close>-th call of \<^verbatim>\<open>time.Now\<close>. A lifetime is in nanoseconds. The locale \<open>ttl_cache\<close> is the
  contract the service cache builds on. Every operation runs under the mutex of the cache and
  is one step here.
\<close>

section \<open>The interface\<close>

datatype cache_error = ErrNotFound | ErrCacheBackend string

record 's Cache =
  cache_Set :: "'s \<Rightarrow> (nat \<Rightarrow> int) \<Rightarrow> string \<Rightarrow> bytes \<Rightarrow> int \<Rightarrow> 's \<times> cache_error option"
  cache_Get :: "'s \<Rightarrow> (nat \<Rightarrow> int) \<Rightarrow> string \<Rightarrow> 's \<times> (cache_error, bytes) result"
  cache_Delete :: "'s \<Rightarrow> string \<Rightarrow> 's \<times> cache_error option"
  cache_Healthcheck :: "'s \<Rightarrow> cache_error option"

section \<open>The in-memory cache\<close>

record cacheItem =
  ci_data :: bytes
  ci_expiration :: int

type_synonym InMemoryCache = "(string, cacheItem) gomap"

definition NewInMemoryCache :: InMemoryCache where "NewInMemoryCache = []"

definition inmem_Set ::
  "InMemoryCache \<Rightarrow> (nat \<Rightarrow> int) \<Rightarrow> string \<Rightarrow> bytes \<Rightarrow> int \<Rightarrow> InMemoryCache \<times> cache_error option" where
  "inmem_Set c now key data expiration =
     (let expiry = now 0 + expiration;
          expiry = (if expiration = -1 then time_AddDate (now 1) 100 0 0 else expiry) in
      (AList.update key \<lparr>ci_data = data, ci_expiration = expiry\<rparr> c, None))"

definition inmem_Get ::
  "InMemoryCache \<Rightarrow> (nat \<Rightarrow> int) \<Rightarrow> string \<Rightarrow> InMemoryCache \<times> (cache_error, bytes) result" where
  "inmem_Get c now key =
     (case map_of c key of
        None \<Rightarrow> (AList.delete key c, Err ErrNotFound)
      | Some item \<Rightarrow>
          if ci_expiration item < now 0 then (AList.delete key c, Err ErrNotFound)
          else (c, Ok (ci_data item)))"

text \<open>The loop of \<^verbatim>\<open>GetAll\<close>: one clock reading per entry.\<close>

fun inmem_scan ::
  "(nat \<Rightarrow> int) \<Rightarrow> nat \<Rightarrow> InMemoryCache \<Rightarrow> InMemoryCache \<Rightarrow> (string, bytes) gomap \<Rightarrow>
    InMemoryCache \<times> (string, bytes) gomap" where
  "inmem_scan now i [] c res = (c, res)"
| "inmem_scan now i ((key, item) # items) c res =
     (if ci_expiration item < now i then inmem_scan now (i + 1) items (AList.delete key c) res
      else inmem_scan now (i + 1) items c (AList.update key (ci_data item) res))"

definition inmem_GetAll :: "InMemoryCache \<Rightarrow> (nat \<Rightarrow> int) \<Rightarrow> InMemoryCache \<times> (string, bytes) gomap" where
  "inmem_GetAll c now = inmem_scan now 0 c c []"

definition inmem_Delete :: "InMemoryCache \<Rightarrow> string \<Rightarrow> InMemoryCache \<times> cache_error option" where
  "inmem_Delete c key = (AList.delete key c, None)"

definition inmem_Healthcheck :: "InMemoryCache \<Rightarrow> cache_error option" where
  "inmem_Healthcheck c = None"

definition InMemoryCache_client :: "InMemoryCache Cache" where
  "InMemoryCache_client =
     \<lparr>cache_Set = inmem_Set, cache_Get = inmem_Get, cache_Delete = inmem_Delete,
      cache_Healthcheck = inmem_Healthcheck\<rparr>"

section \<open>The Redis cache\<close>

text \<open>
  The client library: \<^verbatim>\<open>Set\<close>, where a zero expiration means none, \<^verbatim>\<open>Get\<close>, which can report
  \<^verbatim>\<open>redis.Nil\<close>, \<^verbatim>\<open>Del\<close> and \<^verbatim>\<open>Ping\<close>, over a state \<open>'r\<close> of the server.
\<close>

datatype redis_reply = RedisNil | RedisError string | RedisValue bytes

record 'r redis_client =
  redis_Set :: "'r \<Rightarrow> (nat \<Rightarrow> int) \<Rightarrow> string \<Rightarrow> bytes \<Rightarrow> int \<Rightarrow> 'r \<times> string option"
  redis_Get :: "'r \<Rightarrow> (nat \<Rightarrow> int) \<Rightarrow> string \<Rightarrow> 'r \<times> redis_reply"
  redis_Del :: "'r \<Rightarrow> string \<Rightarrow> 'r \<times> string option"
  redis_Ping :: "'r \<Rightarrow> string option"

definition RedisCache_Set ::
  "'r redis_client \<Rightarrow> 'r \<Rightarrow> (nat \<Rightarrow> int) \<Rightarrow> string \<Rightarrow> bytes \<Rightarrow> int \<Rightarrow> 'r \<times> cache_error option" where
  "RedisCache_Set rc r now key val expiration =
     (let expiration = (if expiration = -1 then 0 else expiration) in
      case redis_Set rc r now key val expiration of
        (r', None) \<Rightarrow> (r', None)
      | (r', Some msg) \<Rightarrow> (r', Some (ErrCacheBackend msg)))"

definition RedisCache_Get ::
  "'r redis_client \<Rightarrow> 'r \<Rightarrow> (nat \<Rightarrow> int) \<Rightarrow> string \<Rightarrow> 'r \<times> (cache_error, bytes) result" where
  "RedisCache_Get rc r now key =
     (case redis_Get rc r now key of
        (r', RedisNil) \<Rightarrow> (r', Err ErrNotFound)
      | (r', RedisError msg) \<Rightarrow> (r', Err (ErrCacheBackend msg))
      | (r', RedisValue val) \<Rightarrow> (r', Ok val))"

definition RedisCache_Delete :: "'r redis_client \<Rightarrow> 'r \<Rightarrow> string \<Rightarrow> 'r \<times> cache_error option" where
  "RedisCache_Delete rc r key =
     (case redis_Del rc r key of
        (r', None) \<Rightarrow> (r', None)
      | (r', Some msg) \<Rightarrow> (r', Some (ErrCacheBackend msg)))"

definition RedisCache_Healthcheck :: "'r redis_client \<Rightarrow> 'r \<Rightarrow> cache_error option" where
  "RedisCache_Healthcheck rc r =
     (case redis_Ping rc r of
        None \<Rightarrow> None
      | Some msg \<Rightarrow> Some (ErrCacheBackend (''error connecting to Redis: '' @ msg)))"

definition NewRedisCache :: "'r redis_client \<Rightarrow> 'r Cache" where
  "NewRedisCache rc =
     \<lparr>cache_Set = RedisCache_Set rc, cache_Get = RedisCache_Get rc, cache_Delete = RedisCache_Delete rc,
      cache_Healthcheck = RedisCache_Healthcheck rc\<rparr>"

section \<open>The contract of a cache\<close>

text \<open>
  \<open>answer s now k\<close> is what a lookup returns. A stored value is returned until its lifetime is
  over, and not later; an indefinite one (\<open>-1\<close>) is returned for at least 99 years. Operations
  on one key do not change the answers for another, and a lookup changes no later answer.
\<close>

definition indefinite_ns :: int where "indefinite_ns = 36523 * day_ns"

locale ttl_cache =
  fixes set_op :: "'s \<Rightarrow> (nat \<Rightarrow> int) \<Rightarrow> string \<Rightarrow> bytes \<Rightarrow> int \<Rightarrow> 's \<times> cache_error option"
    and get_op :: "'s \<Rightarrow> (nat \<Rightarrow> int) \<Rightarrow> string \<Rightarrow> 's \<times> (cache_error, bytes) result"
    and del_op :: "'s \<Rightarrow> string \<Rightarrow> 's \<times> cache_error option"
  assumes get_set_fresh: "0 < ttl \<Longrightarrow> t 0 \<le> now 0 + ttl \<Longrightarrow> set_op s now k v ttl = (s', None) \<Longrightarrow>
      snd (get_op s' t k) = Ok v"
    and get_set_stale: "0 < ttl \<Longrightarrow> now 0 + ttl < t 0 \<Longrightarrow> set_op s now k v ttl = (s', None) \<Longrightarrow>
      snd (get_op s' t k) = Err ErrNotFound"
    and get_set_indefinite: "t 0 \<le> now 1 + indefinite_ns \<Longrightarrow> set_op s now k v (-1) = (s', None) \<Longrightarrow>
      snd (get_op s' t k) = Ok v"
    and get_set_other: "k' \<noteq> k \<Longrightarrow> set_op s now k v ttl = (s', e) \<Longrightarrow> snd (get_op s' t k') = snd (get_op s t k')"
    and get_del: "del_op s k = (s', None) \<Longrightarrow> snd (get_op s' t k) = Err ErrNotFound"
    and get_del_other: "k' \<noteq> k \<Longrightarrow> del_op s k = (s', e) \<Longrightarrow> snd (get_op s' t k') = snd (get_op s t k')"
    and get_get: "u 0 \<le> t 0 \<Longrightarrow> get_op s u k = (s', r) \<Longrightarrow> snd (get_op s' t k') = snd (get_op s t k')"
begin

text \<open>A value survives any sequence of earlier lookups and of stores under other keys.\<close>

fun run :: "'s \<Rightarrow> ((nat \<Rightarrow> int) \<times> string \<times> (bytes \<times> int) option) list \<Rightarrow> 's" where
  "run s [] = s"
| "run s ((u, k, None) # ops) = run (fst (get_op s u k)) ops"
| "run s ((u, k, Some (v, ttl)) # ops) = run (fst (set_op s u k v ttl)) ops"

lemma answer_after_run:
  assumes "\<forall>(u, k', op)\<in>set ops. u 0 \<le> t 0 \<and> (op \<noteq> None \<longrightarrow> k' \<noteq> k)"
  shows "snd (get_op (run s ops) t k) = snd (get_op s t k)"
  using assms
proof (induction s ops rule: run.induct)
  case (2 s u k' ops)
  moreover have "snd (get_op (fst (get_op s u k')) t k) = snd (get_op s t k)"
    using 2 get_get [of u t s k' "fst (get_op s u k')" "snd (get_op s u k')" k] by simp
  ultimately show ?case by simp
next
  case (3 s u k' v ttl ops)
  moreover have "snd (get_op (fst (set_op s u k' v ttl)) t k) = snd (get_op s t k)"
    using 3 get_set_other [of k k' s u v ttl "fst (set_op s u k' v ttl)" "snd (set_op s u k' v ttl)" t] by auto
  ultimately show ?case by simp
qed simp

lemma stored_value_survives:
  assumes "set_op s now k v ttl = (s', None)" and "0 < ttl" and "t 0 \<le> now 0 + ttl"
    and "\<forall>(u, k', op)\<in>set ops. u 0 \<le> t 0 \<and> (op \<noteq> None \<longrightarrow> k' \<noteq> k)"
  shows "snd (get_op (run s' ops) t k) = Ok v"
  using answer_after_run [of ops t k s'] assms get_set_fresh [of ttl t now s k v s'] by simp

end

text \<open>
  A weaker contract, without any promise that a value is kept: \<open>contents s k v d\<close> says that the
  storage holds \<open>v\<close> under \<open>k\<close>, to be returned up to the time \<open>d\<close>. Lookups return only what is
  held, lookups and stores add nothing but the value stored. A storage may fail, refuse or
  forget at any time.
\<close>

locale honest_cache =
  fixes set_op :: "'s \<Rightarrow> (nat \<Rightarrow> int) \<Rightarrow> string \<Rightarrow> bytes \<Rightarrow> int \<Rightarrow> 's \<times> cache_error option"
    and get_op :: "'s \<Rightarrow> (nat \<Rightarrow> int) \<Rightarrow> string \<Rightarrow> 's \<times> (cache_error, bytes) result"
    and contents :: "'s \<Rightarrow> string \<Rightarrow> bytes \<Rightarrow> int \<Rightarrow> bool"
  assumes get_held: "get_op s t k = (s', Ok v) \<Longrightarrow> \<exists>d. contents s k v d \<and> t 0 \<le> d"
    and get_adds_nothing: "get_op s t k = (s', r) \<Longrightarrow> contents s' k' v d \<Longrightarrow> contents s k' v d"
    and set_adds_value: "0 < ttl \<Longrightarrow> set_op s now k v ttl = (s', e) \<Longrightarrow> contents s' k' u d \<Longrightarrow>
      contents s k' u d \<or> k' = k \<and> u = v \<and> d \<le> now 0 + ttl"

section \<open>The in-memory cache meets the contract\<close>

text \<open>A hundred calendar years are at least 36523 days.\<close>

lemma days_before_month_leap: "days_before_month lp m \<le> days_before_month lp' m + 1"
  by (simp add: days_before_month_def)

lemma days_before_year_century: "days_before_year y + 36524 \<le> days_before_year (y + 100)"
proof -
  have "(y - 1 + 25 * 4) div 4 = (y - 1) div 4 + 25" "(y - 1 + 1 * 100) div 100 = (y - 1) div 100 + 1"
    by (subst div_mult_self1, simp, simp)+
  moreover have "(y - 1) div 400 \<le> (y - 1 + 100) div 400" by (rule zdiv_mono1) simp_all
  ultimately show ?thesis by (simp add: days_before_year_def algebra_simps)
qed

lemma AddDate_century: "t + indefinite_ns \<le> time_AddDate t 100 0 0"
proof -
  obtain y m d where t: "time_Date_of t = (y, m, d)" by (cases "time_Date_of t")
  then have v: "valid_date y m d" "day_number y m d = t div day_ns"
    using date_of_day_valid by (auto simp: time_Date_of_def)
  have "day_number (y + 100) m d \<ge> day_number y m d + 36523"
    using days_before_year_century [of y] days_before_month_leap [of "leap y" m "leap (y + 100)"] v(1)
    by (simp add: day_number_def valid_date_def div_pos_pos_trivial mod_pos_pos_trivial Let_def)
  then have "(t div day_ns + 36523) * day_ns \<le> day_number (y + 100) m d * day_ns"
    unfolding v(2) by (intro mult_right_mono) (simp_all add: day_ns_def)
  then have "(t div day_ns * day_ns + t mod day_ns) + 36523 * day_ns \<le> day_number (y + 100) m d * day_ns + t mod day_ns"
    unfolding distrib_right by linarith
  then have "t + 36523 * day_ns \<le> day_number (y + 100) m d * day_ns + t mod day_ns"
    by (simp only: div_mult_mod_eq)
  then show ?thesis by (simp add: time_AddDate_def t indefinite_ns_def)
qed

lemma inmem_answer:
  "snd (inmem_Get c t k) =
     (case map_of c k of
        None \<Rightarrow> Err ErrNotFound
      | Some item \<Rightarrow> if ci_expiration item < t 0 then Err ErrNotFound else Ok (ci_data item))"
  by (simp add: inmem_Get_def split: option.splits)

lemma inmem_Get_state:
  "map_of (fst (inmem_Get c u k)) k' =
     (case map_of c k' of
        None \<Rightarrow> None
      | Some item \<Rightarrow> if k' = k \<and> ci_expiration item < u 0 then None else Some item)"
  by (auto simp: inmem_Get_def delete_conv' split: option.splits)

interpretation mem: ttl_cache inmem_Set inmem_Get inmem_Delete
proof (unfold_locales, goal_cases)
  case (3 t now s k v s')
  then show ?case using AddDate_century [of "now 1"]
    by (auto simp: inmem_Set_def Let_def inmem_answer update_conv')
next
  case (7 u t s k s' r k')
  then have "s' = fst (inmem_Get s u k)" by simp
  then show ?case using 7(1)
    by (auto simp: inmem_answer inmem_Get_state simp del: fst_conv split: option.splits)
qed (auto simp: inmem_Set_def inmem_Delete_def Let_def inmem_answer update_conv' delete_conv')

definition inmem_contents :: "InMemoryCache \<Rightarrow> string \<Rightarrow> bytes \<Rightarrow> int \<Rightarrow> bool" where
  "inmem_contents c k v d \<longleftrightarrow> (case map_of c k of None \<Rightarrow> False | Some item \<Rightarrow> ci_data item = v \<and> ci_expiration item = d)"

interpretation mem_honest: honest_cache inmem_Set inmem_Get inmem_contents
proof (unfold_locales, goal_cases)
  case (1 s t k s' v)
  then show ?case
    by (cases "map_of s k") (auto simp: inmem_Get_def inmem_contents_def split: if_splits)
next
  case (2 s t k s' r k' v d)
  then show ?case using inmem_Get_state [of s t k k'] by (auto simp: inmem_contents_def split: option.splits if_splits)
qed (auto simp: inmem_Set_def inmem_contents_def update_conv' Let_def split: if_splits)

section \<open>Properties\<close>

text \<open>C27: The lifetime of a value in the in-memory cache is exact: after storing it with a positive
  lifetime, and whatever is looked up or stored under other keys in between, a lookup returns
  it up to and including the end of its lifetime and reports not-found after it.\<close>

theorem inmemory_ttl_exact:
  assumes "0 < ttl" and "\<forall>(u, k', op)\<in>set ops. u 0 \<le> t 0 \<and> (op \<noteq> None \<longrightarrow> k' \<noteq> k)"
  shows "snd (inmem_Get (mem.run (fst (inmem_Set c now k v ttl)) ops) t k) =
    (if t 0 \<le> now 0 + ttl then Ok v else Err ErrNotFound)"
proof -
  have "inmem_Set c now k v ttl = (fst (inmem_Set c now k v ttl), None)"
    by (simp add: inmem_Set_def)
  with assms show ?thesis
    using mem.answer_after_run [of ops t k "fst (inmem_Set c now k v ttl)"]
      mem.get_set_fresh [of ttl t now c k v] mem.get_set_stale [of ttl now t c k v]
    by fastforce
qed

theorem inmemory_ttl_exact_witness:
  "snd (inmem_Get (mem.run (fst (inmem_Set [] (\<lambda>_. 100) ''k'' ''v'' 50)) [(\<lambda>_. 120, ''k'', None), (\<lambda>_. 130, ''x'', Some (''w'', 5))])
      (\<lambda>_. 150) ''k'') = Ok ''v''"
  using inmemory_ttl_exact [of 50 "[(\<lambda>_. 120, ''k'', None), (\<lambda>_. 130, ''x'', Some (''w'', 5))]" "\<lambda>_. 150" "''k''" "[]" "\<lambda>_. 100" "''v''"]
  by simp

lemma inmem_scan_result:
  assumes "map_wf items"
  shows "map_of (snd (inmem_scan (\<lambda>_. t) i items c res)) k =
    (case map_of items k of
       None \<Rightarrow> map_of res k
     | Some item \<Rightarrow> if ci_expiration item < t then map_of res k else Some (ci_data item))"
  using assms
proof (induction "\<lambda>_ :: nat. t" i items c res rule: inmem_scan.induct)
  case (2 i key item items c res)
  have "map_wf items" and "map_of items key = None"
    using 2(3) by (auto simp: map_wf_def map_of_eq_None_iff)
  with 2(1,2) show ?case by (auto simp: update_conv' split: option.splits)
qed simp

text \<open>C26: Listing the whole in-memory cache agrees with looking up each key at that moment: it contains
  exactly the keys whose lookup succeeds, with the values the lookups return.\<close>

theorem inmemory_getall_agrees:
  assumes "map_wf c"
  shows "map_of (snd (inmem_GetAll c (\<lambda>_. t))) k =
    (case snd (inmem_Get c (\<lambda>_. t) k) of Ok v \<Rightarrow> Some v | _ \<Rightarrow> None)"
  using inmem_scan_result [OF assms, of t 0 c "[]" k]
  by (auto simp: inmem_GetAll_def inmem_answer split: option.splits)

theorem inmemory_getall_agrees_witness:
  "map_of (snd (inmem_GetAll [(''a'', \<lparr>ci_data = ''x'', ci_expiration = 5\<rparr>), (''b'', \<lparr>ci_data = ''y'', ci_expiration = 9\<rparr>)] (\<lambda>_. 7))) ''b'' = Some ''y''"
  using inmemory_getall_agrees [of "[(''a'', \<lparr>ci_data = ''x'', ci_expiration = 5\<rparr>), (''b'', \<lparr>ci_data = ''y'', ci_expiration = 9\<rparr>)]" 7 "''b''"]
  by (simp add: map_wf_def inmem_answer)

text \<open>
  What the service relies on of Redis, as documented for the commands SET (with an expiration,
  zero for none), GET and DEL. Nothing is said of a negative expiration: the cache turns the marker
  \<open>-1\<close> into zero, and go-redis gives the negative values a meaning of its own.
\<close>

definition redis_ok :: "'r redis_client \<Rightarrow> bool" where
  "redis_ok rc \<longleftrightarrow>
     (\<forall>r now k v ttl r'. 0 \<le> ttl \<longrightarrow> redis_Set rc r now k v ttl = (r', None) \<longrightarrow>
        (\<forall>t. snd (redis_Get rc r' t k) = (if ttl = 0 \<or> t 0 \<le> now 0 + ttl then RedisValue v else RedisNil))) \<and>
     (\<forall>r now k v ttl t k'. k' \<noteq> k \<longrightarrow>
        snd (redis_Get rc (fst (redis_Set rc r now k v ttl)) t k') = snd (redis_Get rc r t k')) \<and>
     (\<forall>r k r' t. redis_Del rc r k = (r', None) \<longrightarrow> snd (redis_Get rc r' t k) = RedisNil) \<and>
     (\<forall>r k t k'. k' \<noteq> k \<longrightarrow> snd (redis_Get rc (fst (redis_Del rc r k)) t k') = snd (redis_Get rc r t k')) \<and>
     (\<forall>r u t k k'. u 0 \<le> t 0 \<longrightarrow> snd (redis_Get rc (fst (redis_Get rc r u k)) t k') = snd (redis_Get rc r t k'))"

lemma redis_ok_Set:
  assumes "redis_ok rc" and "0 \<le> ttl" and "redis_Set rc r now k v ttl = (r', None)"
  shows "snd (redis_Get rc r' t k) = (if ttl = 0 \<or> t 0 \<le> now 0 + ttl then RedisValue v else RedisNil)"
  using assms(1) [unfolded redis_ok_def, THEN conjunct1, rule_format, OF assms(2,3)] .

lemma RedisCache_Get_answer:
  "snd (RedisCache_Get rc r t k) =
     (case snd (redis_Get rc r t k) of
        RedisNil \<Rightarrow> Err ErrNotFound | RedisError msg \<Rightarrow> Err (ErrCacheBackend msg) | RedisValue v \<Rightarrow> Ok v)"
  "fst (RedisCache_Get rc r t k) = fst (redis_Get rc r t k)"
  by (auto simp: RedisCache_Get_def split: prod.splits redis_reply.splits)

lemma RedisCache_Set_state:
  "fst (RedisCache_Set rc r now k v ttl) = fst (redis_Set rc r now k v (if ttl = -1 then 0 else ttl))"
  "snd (RedisCache_Set rc r now k v ttl) = None \<longleftrightarrow> snd (redis_Set rc r now k v (if ttl = -1 then 0 else ttl)) = None"
  by (auto simp: RedisCache_Set_def Let_def split: prod.splits option.splits)

lemma RedisCache_Delete_state:
  "fst (RedisCache_Delete rc r k) = fst (redis_Del rc r k)"
  "snd (RedisCache_Delete rc r k) = None \<longleftrightarrow> snd (redis_Del rc r k) = None"
  by (auto simp: RedisCache_Delete_def split: prod.splits option.splits)

lemma redis_ttl_cache:
  assumes "redis_ok rc"
  shows "ttl_cache (RedisCache_Set rc) (RedisCache_Get rc) (RedisCache_Delete rc)"
proof (unfold_locales, goal_cases)
  case (1 ttl t now s k v s')
  then have "redis_Set rc s now k v ttl = (s', None)"
    using RedisCache_Set_state [of rc s now k v ttl] by (auto simp: prod_eq_iff)
  with 1 show ?case using redis_ok_Set [OF assms, of ttl s now k v s' t] by (simp add: RedisCache_Get_answer)
next
  case (2 ttl now t s k v s')
  then have "redis_Set rc s now k v ttl = (s', None)"
    using RedisCache_Set_state [of rc s now k v ttl] by (auto simp: prod_eq_iff)
  with 2 show ?case using redis_ok_Set [OF assms, of ttl s now k v s' t] by (simp add: RedisCache_Get_answer)
next
  case (3 t now s k v s')
  then have "redis_Set rc s now k v 0 = (s', None)"
    using RedisCache_Set_state [of rc s now k v "-1"] by (auto simp: prod_eq_iff)
  then show ?case using redis_ok_Set [OF assms, of 0 s now k v s' t] by (simp add: RedisCache_Get_answer)
next
  case (4 k' k s now v ttl s' e t)
  then have "s' = fst (RedisCache_Set rc s now k v ttl)" by simp
  with 4 assms show ?case by (simp add: redis_ok_def RedisCache_Get_answer RedisCache_Set_state)
next
  case (5 s k s' t)
  then have "redis_Del rc s k = (s', None)"
    using RedisCache_Delete_state [of rc s k] by (auto simp: prod_eq_iff)
  with assms show ?case by (simp add: redis_ok_def RedisCache_Get_answer)
next
  case (6 k' k s s' e t)
  then have "s' = fst (RedisCache_Delete rc s k)" by simp
  with 6 assms show ?case by (simp add: redis_ok_def RedisCache_Get_answer RedisCache_Delete_state)
next
  case (7 u t s k s' r k')
  then have "s' = fst (redis_Get rc s u k)" using RedisCache_Get_answer(2) [of rc s u k] by simp
  with 7 assms show ?case by (simp add: redis_ok_def RedisCache_Get_answer(1))
qed

text \<open>
  What remains of a server that may be unreachable or evict keys: \<open>held r k v d\<close> says that it
  holds \<open>v\<close> under \<open>k\<close> with the deadline \<open>d\<close>.
\<close>

definition redis_honest :: "'r redis_client \<Rightarrow> ('r \<Rightarrow> string \<Rightarrow> bytes \<Rightarrow> int \<Rightarrow> bool) \<Rightarrow> bool" where
  "redis_honest rc held \<longleftrightarrow>
     (\<forall>r t k r' v. redis_Get rc r t k = (r', RedisValue v) \<longrightarrow> (\<exists>d. held r k v d \<and> t 0 \<le> d)) \<and>
     (\<forall>r t k k' v d. held (fst (redis_Get rc r t k)) k' v d \<longrightarrow> held r k' v d) \<and>
     (\<forall>r now k v ttl k' u d. 0 < ttl \<longrightarrow> held (fst (redis_Set rc r now k v ttl)) k' u d \<longrightarrow>
        held r k' u d \<or> k' = k \<and> u = v \<and> d \<le> now 0 + ttl)"

lemma redis_honest_cache:
  assumes "redis_honest rc held"
  shows "honest_cache (RedisCache_Set rc) (RedisCache_Get rc) held"
proof (unfold_locales, goal_cases)
  case (1 s t k s' v)
  then have "redis_Get rc s t k = (s', RedisValue v)" by (auto simp: RedisCache_Get_def split: prod.splits redis_reply.splits)
  then show ?case using assms unfolding redis_honest_def by blast
next
  case (2 s t k s' r k' v d)
  then have "s' = fst (redis_Get rc s t k)" using RedisCache_Get_answer(2) [of rc s t k] by simp
  then show ?case using 2(2) assms by (simp add: redis_honest_def)
next
  case (3 ttl s now k v s' e k' u d)
  then have "s' = fst (redis_Set rc s now k v ttl)" using RedisCache_Set_state(1) [of rc s now k v ttl] by auto
  then show ?case using 3(1,3) assms by (simp add: redis_honest_def)
qed

text \<open>
  A server that keeps each value with its deadline, for the examples. As in go-redis, the
  expiration \<open>-1\<close> keeps the deadline of the old value and another negative one sets none.
\<close>

definition sample_redis :: "(string \<Rightarrow> (bytes \<times> int option) option) redis_client" where
  "sample_redis =
     \<lparr>redis_Set = (\<lambda>r now k v ttl.
        let deadline = (if 0 < ttl then Some (now 0 + ttl) else if ttl = -1 then
            (case r k of Some (_, Some d) \<Rightarrow> if now 0 \<le> d then Some d else None | _ \<Rightarrow> None) else None) in
        (r(k \<mapsto> (v, deadline)), None)),
      redis_Get = (\<lambda>r now k. (r, case r k of
          None \<Rightarrow> RedisNil
        | Some (v, None) \<Rightarrow> RedisValue v
        | Some (v, Some d) \<Rightarrow> if now 0 \<le> d then RedisValue v else RedisNil)),
      redis_Del = (\<lambda>r k. (r(k := None), None)), redis_Ping = (\<lambda>r. None)\<rparr>"

lemma sample_redis_ok: "redis_ok sample_redis"
  by (auto simp: redis_ok_def sample_redis_def Let_def)

text \<open>The same server, which keeps nothing but what was stored.\<close>

definition sample_held :: "(string \<Rightarrow> (bytes \<times> int option) option) \<Rightarrow> string \<Rightarrow> bytes \<Rightarrow> int \<Rightarrow> bool" where
  "sample_held r k v d \<longleftrightarrow> (\<exists>d'. r k = Some (v, d') \<and> (case d' of None \<Rightarrow> True | Some d' \<Rightarrow> d = d'))"

lemma sample_redis_honest: "redis_honest sample_redis sample_held"
  by (auto simp: redis_honest_def sample_redis_def sample_held_def Let_def split: option.splits if_splits)

end
