(* ===== verification/Sha256.thy ===== *)
theory Sha256
  imports Prelude
begin

text \<open>
  \<^verbatim>\<open>crypto/sha256.Sum256\<close> and \<^verbatim>\<open>encoding/hex.EncodeToString\<close>, which \<^verbatim>\<open>cachemdw/keys.go\<close> uses: the hash
  function of FIPS 180-4 on bytes. Nothing below depends on its strength; where a statement
  needs two inputs not to collide it says so.
\<close>

unbundle bit_operations_syntax

type_synonym word32 = "32 word"

definition sha_K :: "word32 list" where
  "sha_K =
     [0x428a2f98, 0x71374491, 0xb5c0fbcf, 0xe9b5dba5, 0x3956c25b, 0x59f111f1, 0x923f82a4, 0xab1c5ed5,
      0xd807aa98, 0x12835b01, 0x243185be, 0x550c7dc3, 0x72be5d74, 0x80deb1fe, 0x9bdc06a7, 0xc19bf174,
      0xe49b69c1, 0xefbe4786, 0x0fc19dc6, 0x240ca1cc, 0x2de92c6f, 0x4a7484aa, 0x5cb0a9dc, 0x76f988da,
      0x983e5152, 0xa831c66d, 0xb00327c8, 0xbf597fc7, 0xc6e00bf3, 0xd5a79147, 0x06ca6351, 0x14292967,
      0x27b70a85, 0x2e1b2138, 0x4d2c6dfc, 0x53380d13, 0x650a7354, 0x766a0abb, 0x81c2c92e, 0x92722c85,
      0xa2bfe8a1, 0xa81a664b, 0xc24b8b70, 0xc76c51a3, 0xd192e819, 0xd6990624, 0xf40e3585, 0x106aa070,
      0x19a4c116, 0x1e376c08, 0x2748774c, 0x34b0bcb5, 0x391c0cb3, 0x4ed8aa4a, 0x5b9cca4f, 0x682e6ff3,
      0x748f82ee, 0x78a5636f, 0x84c87814, 0x8cc70208, 0x90befffa, 0xa4506ceb, 0xbef9a3f7, 0xc67178f2]"

definition sha_H0 :: "word32 list" where
  "sha_H0 =
     [0x6a09e667, 0xbb67ae85, 0x3c6ef372, 0xa54ff53a, 0x510e527f, 0x9b05688c, 0x1f83d9ab, 0x5be0cd19]"

definition rotr32 :: "nat \<Rightarrow> word32 \<Rightarrow> word32" where
  "rotr32 n w = drop_bit n w OR push_bit (32 - n) w"

definition big_sigma0 :: "word32 \<Rightarrow> word32" where
  "big_sigma0 x = rotr32 2 x XOR rotr32 13 x XOR rotr32 22 x"

definition big_sigma1 :: "word32 \<Rightarrow> word32" where
  "big_sigma1 x = rotr32 6 x XOR rotr32 11 x XOR rotr32 25 x"

definition small_sigma0 :: "word32 \<Rightarrow> word32" where
  "small_sigma0 x = rotr32 7 x XOR rotr32 18 x XOR drop_bit 3 x"

definition small_sigma1 :: "word32 \<Rightarrow> word32" where
  "small_sigma1 x = rotr32 17 x XOR rotr32 19 x XOR drop_bit 10 x"

definition sha_ch :: "word32 \<Rightarrow> word32 \<Rightarrow> word32 \<Rightarrow> word32" where
  "sha_ch x y z = (x AND y) XOR (NOT x AND z)"

definition sha_maj :: "word32 \<Rightarrow> word32 \<Rightarrow> word32 \<Rightarrow> word32" where
  "sha_maj x y z = (x AND y) XOR (x AND z) XOR (y AND z)"

text \<open>The message schedule, kept with the latest word first.\<close>

fun sha_schedule :: "nat \<Rightarrow> word32 list \<Rightarrow> word32 list" where
  "sha_schedule 0 ws = rev ws"
| "sha_schedule (Suc n) ws =
     sha_schedule n ((small_sigma1 (ws ! 1) + ws ! 6 + small_sigma0 (ws ! 14) + ws ! 15) # ws)"

fun sha_round :: "word32 list \<Rightarrow> word32 \<times> word32 \<Rightarrow> word32 list" where
  "sha_round [a, b, c, d, e, f, g, h] (k, w) =
     (let t1 = h + big_sigma1 e + sha_ch e f g + k + w;
          t2 = big_sigma0 a + sha_maj a b c in
      [t1 + t2, a, b, c, d + t1, e, f, g])"
| "sha_round st kw = st"

definition word_of_bytes :: "bytes \<Rightarrow> word32" where
  "word_of_bytes bs = fold (\<lambda>b w. push_bit 8 w OR of_char b) bs 0"

definition bytes_of_word :: "word32 \<Rightarrow> bytes" where
  "bytes_of_word w = map (\<lambda>i. char_of (uint (drop_bit i w))) [24, 16, 8, 0]"

fun chunks :: "nat \<Rightarrow> 'a list \<Rightarrow> 'a list list" where
  "chunks n [] = []"
| "chunks n (x # xs) = (if n = 0 then [x # xs] else take n (x # xs) # chunks n (drop n (x # xs)))"

definition sha_block :: "word32 list \<Rightarrow> bytes \<Rightarrow> word32 list" where
  "sha_block hs block =
     (let w = sha_schedule 48 (rev (map word_of_bytes (chunks 4 block))) in
      map2 (+) hs (foldl sha_round hs (zip sha_K w)))"

definition sha_padding :: "nat \<Rightarrow> bytes" where
  "sha_padding len =
     CHR 0x80 # replicate ((119 - len mod 64) mod 64) (CHR 0x00) @
     map (\<lambda>i. char_of (8 * len div 256 ^ i mod 256)) [7, 6, 5, 4, 3, 2, 1, 0]"

definition Sum256 :: "bytes \<Rightarrow> bytes" where
  "Sum256 data = concat (map bytes_of_word (foldl sha_block sha_H0 (chunks 64 (data @ sha_padding (length data)))))"

definition hex_nibble :: "nat \<Rightarrow> char" where
  "hex_nibble d = char_of (if d < 10 then 48 + d else 87 + d)"

definition EncodeToString :: "bytes \<Rightarrow> string" where
  "EncodeToString bs = concat (map (\<lambda>b. [hex_nibble (of_char b div 16), hex_nibble (of_char b mod 16)]) bs)"

section \<open>Shape of the results\<close>

lemma length_bytes_of_word [simp]: "length (bytes_of_word w) = 4"
  by (simp add: bytes_of_word_def)

lemma length_sha_round: "length (sha_round st kw) = length st"
  by (cases "(st, kw)" rule: sha_round.cases) (auto simp: Let_def)

lemma length_sha_rounds: "length (foldl sha_round st kws) = length st"
  by (induction kws arbitrary: st) (simp_all add: length_sha_round)

lemma length_sha_block: "length (sha_block hs block) = length hs"
  by (simp add: sha_block_def Let_def length_sha_rounds)

lemma length_sha_blocks: "length (foldl sha_block hs blocks) = length hs"
  by (induction blocks arbitrary: hs) (simp_all add: length_sha_block)

lemma length_Sum256 [simp]: "length (Sum256 data) = 32"
proof -
  have "length (concat (map bytes_of_word ws)) = 4 * length ws" for ws by (induction ws) auto
  then show ?thesis by (simp add: Sum256_def length_sha_blocks sha_H0_def)
qed

lemma length_EncodeToString: "length (EncodeToString bs) = 2 * length bs"
  unfolding EncodeToString_def by (induction bs) auto

lemma hex_nibble_inj:
  assumes "d < 16" and "e < 16" and "hex_nibble d = hex_nibble e"
  shows "d = e"
proof -
  have code: "(of_char (hex_nibble x) :: nat) = (if x < 10 then 48 + x else 87 + x)" if "x < 16" for x
    using that by (simp add: hex_nibble_def)
  have "(of_char (hex_nibble d) :: nat) = of_char (hex_nibble e)" using assms(3) by simp
  then show ?thesis using code [OF assms(1)] code [OF assms(2)] by (simp split: if_splits)
qed

lemma EncodeToString_inj: "EncodeToString xs = EncodeToString ys \<Longrightarrow> xs = ys"
proof (induction xs arbitrary: ys)
  case Nil
  then show ?case by (cases ys) (simp_all add: EncodeToString_def)
next
  case (Cons x xs)
  then obtain y ys' where ys: "ys = y # ys'" by (cases ys) (simp_all add: EncodeToString_def)
  have b: "(of_char c :: nat) div 16 < 16" "(of_char c :: nat) mod 16 < 16" for c
    using nat_of_char_less_256 [of c] by (simp_all add: less_mult_imp_div_less)
  have "hex_nibble (of_char x div 16) = hex_nibble (of_char y div 16)"
    "hex_nibble (of_char x mod 16) = hex_nibble (of_char y mod 16)" "EncodeToString xs = EncodeToString ys'"
    using Cons.prems ys by (simp_all add: EncodeToString_def)
  then have "(of_char x :: nat) div 16 = of_char y div 16" "(of_char x :: nat) mod 16 = of_char y mod 16" "xs = ys'"
    using hex_nibble_inj b Cons.IH by blast+
  then have "(of_char x :: nat) = of_char y" by (metis div_mult_mod_eq)
  with \<open>xs = ys'\<close> ys show ?case by simp
qed

lemma EncodeToString_hex:
  assumes "c \<in> set (EncodeToString bs)"
  shows "\<exists>d<16. c = hex_nibble d"
proof -
  obtain b where "c = hex_nibble (of_char b div 16) \<or> c = hex_nibble (of_char b mod 16)"
    using assms by (auto simp: EncodeToString_def)
  moreover have "(of_char b :: nat) div 16 < 16" "(of_char b :: nat) mod 16 < 16"
    using nat_of_char_less_256 [of b] by (simp_all add: less_mult_imp_div_less)
  ultimately show ?thesis by blast
qed

end
