(* ===== verification/ServiceCache.thy ===== *)
theory ServiceCache
  imports QueryCodec CacheClient Sha256
begin

text \<open>
  \<^verbatim>\<open>service/cachemdw/keys.go\<close>, \<^verbatim>\<open>cache.go\<close> and \<^verbatim>\<open>errors.go\<close>: the key of a request, which requests
  and responses may be cached, storing a response and serving it again. The storage is any
  \<open>Cache\<close>; the locale \<open>cached_responses\<close> derives what a stored response is worth from the
  contract \<open>ttl_cache\<close>. \<open>newInt\<close> and \<open>fnum\<close> are the parameters of the decoder.
\<close>

section \<open>Keys\<close>

type_synonym CacheItemType = int

definition CacheItemTypeEVMRequest :: CacheItemType where "CacheItemTypeEVMRequest = 1"

definition CacheItemType_String :: "CacheItemType \<Rightarrow> string" where
  "CacheItemType_String t = (if t = CacheItemTypeEVMRequest then ''evm-request'' else ''unknown'')"

definition BuildCacheKey :: "string \<Rightarrow> CacheItemType \<Rightarrow> string list \<Rightarrow> string" where
  "BuildCacheKey cachePrefix cacheItemType parts =
     (let fullParts = [cachePrefix, CacheItemType_String cacheItemType] @ parts in strings_Join fullParts '':'')"

datatype mdw_error =
    ErrRequestIsNotCacheable
  | ErrResponseIsNotCacheable
  | ErrResponseIsNotFinal
  | ErrNilRequest
  | ErrUnmarshalResponse
  | ErrStoredResponse
  | ErrMarshal
  | ErrTTL mdw_error
  | ErrCache cache_error

definition request_data :: "EVMRPCRequestEnvelope \<Rightarrow> bytes" where
  "request_data req = Method req @ json_print (marshal_params (Params req))"

definition GetQueryKey :: "string \<Rightarrow> EVMRPCRequestEnvelope option \<Rightarrow> (mdw_error, string) result" where
  "GetQueryKey cachePrefix req =
     (case req of
        None \<Rightarrow> Err ErrNilRequest
      | Some req \<Rightarrow>
          (let hashedReqInHex = EncodeToString (Sum256 (request_data req)) in
           Ok (BuildCacheKey cachePrefix CacheItemTypeEVMRequest [Method req, ''sha256'', hashedReqInHex])))"

section \<open>The service cache\<close>

record TTLConfig =
  mdw_CacheMethodHasBlockNumberParamTTL :: int
  mdw_CacheMethodHasBlockHashParamTTL :: int
  mdw_CacheStaticMethodTTL :: int
  mdw_CacheMethodHasTxHashParamTTL :: int

record 's ServiceCache =
  cacheClient :: "'s Cache"
  decodedRequestContextKey :: string
  cachePrefix :: string
  cacheEnabled :: bool
  whitelistedHeaders :: "string list"
  sc_defaultAccessControlAllowOriginValue :: string
  sc_hostnameToAccessControlAllowOriginValueMap :: "(string, string) gomap"
  sc_config :: TTLConfig

definition NewServiceCache ::
  "'s Cache \<Rightarrow> string \<Rightarrow> string \<Rightarrow> bool \<Rightarrow> string list \<Rightarrow> string \<Rightarrow> (string, string) gomap \<Rightarrow> TTLConfig \<Rightarrow> 's ServiceCache" where
  "NewServiceCache client key prefix enabled whitelisted origin originMap config =
     \<lparr>cacheClient = client, decodedRequestContextKey = key, cachePrefix = prefix, cacheEnabled = enabled,
      whitelistedHeaders = whitelisted, sc_defaultAccessControlAllowOriginValue = origin,
      sc_hostnameToAccessControlAllowOriginValueMap = originMap, sc_config = config\<rparr>"

definition IsCacheable ::
  "(string \<Rightarrow> int option) \<Rightarrow> EVMRPCRequestEnvelope option \<Rightarrow> (mdw_error, bool) result" where
  "IsCacheable newInt req =
     (case req of
        None \<Rightarrow> Ok False
      | Some req \<Rightarrow>
          if Method req = [] then Ok False
          else if MethodHasBlockNumberParam (Method req) then
            (case ParseBlockNumberFromParams newInt (Method req) (Params req) of
               Panic p \<Rightarrow> Panic p
             | Err err \<Rightarrow> Ok False
             | Ok blockNumber \<Rightarrow> Ok (blockNumber > 0 \<or> blockNumber = codec_at BlockTagEarliest))
          else if MethodHasBlockHashParam (Method req) then Ok True
          else if IsMethodStatic (Method req) then Ok True
          else if MethodHasTxHashParam (Method req) then Ok True
          else Ok False)"

definition GetTTL :: "'s ServiceCache \<Rightarrow> string \<Rightarrow> (mdw_error, int) result" where
  "GetTTL c method =
     (if MethodHasBlockNumberParam method then Ok (mdw_CacheMethodHasBlockNumberParamTTL (sc_config c))
      else if MethodHasBlockHashParam method then Ok (mdw_CacheMethodHasBlockHashParamTTL (sc_config c))
      else if IsMethodStatic method then Ok (mdw_CacheStaticMethodTTL (sc_config c))
      else if MethodHasTxHashParam method then Ok (mdw_CacheMethodHasTxHashParamTTL (sc_config c))
      else Err ErrRequestIsNotCacheable)"

text \<open>The tail of a lookup: build the response to this request around the stored result.\<close>

definition restore_response :: "EVMRPCRequestEnvelope option \<Rightarrow> bytes \<Rightarrow> (mdw_error, QueryResponse) result" where
  "restore_response req queryResponseInJSON =
     (case unmarshal_query_response queryResponseInJSON of
        None \<Rightarrow> Err ErrStoredResponse
      | Some queryResponse \<Rightarrow>
          (case req of None \<Rightarrow> Panic NilDereference | Some req \<Rightarrow>
           let ident = json_print (from_goval (ID req));
               response = \<lparr>resp_Version = JSONRPCVersion req, resp_ID = ident,
                           Result = JsonRpcResponseResult queryResponse, resp_JsonRpcError = None\<rparr> in
           case resp_Marshal response of
             Ok responseInJSON \<Rightarrow> Ok (queryResponse\<lparr>JsonRpcResponseResult := responseInJSON @ [CHR 0x0A]\<rparr>)
           | _ \<Rightarrow> Err ErrMarshal))"

definition GetCachedQueryResponse ::
  "(string \<Rightarrow> int option) \<Rightarrow> 's ServiceCache \<Rightarrow> 's \<Rightarrow> (nat \<Rightarrow> int) \<Rightarrow> EVMRPCRequestEnvelope option \<Rightarrow>
    's \<times> (mdw_error, QueryResponse) result" where
  "GetCachedQueryResponse newInt c s now req =
     (case IsCacheable newInt req of
        Panic p \<Rightarrow> (s, Panic p)
      | Err e \<Rightarrow> (s, Err e)
      | Ok cacheable \<Rightarrow>
          if \<not> cacheable then (s, Err ErrRequestIsNotCacheable)
          else (case GetQueryKey (cachePrefix c) req of
            Ok key \<Rightarrow>
              (case cache_Get (cacheClient c) s now key of
                 (s', Ok queryResponseInJSON) \<Rightarrow> (s', restore_response req queryResponseInJSON)
               | (s', Err e) \<Rightarrow> (s', Err (ErrCache e))
               | (s', Panic p) \<Rightarrow> (s', Panic p))
          | Err e \<Rightarrow> (s, Err e)
          | Panic p \<Rightarrow> (s, Panic p)))"

definition CacheQueryResponse ::
  "(string \<Rightarrow> string option) \<Rightarrow> (string \<Rightarrow> int option) \<Rightarrow> 's ServiceCache \<Rightarrow> 's \<Rightarrow> (nat \<Rightarrow> int) \<Rightarrow>
    EVMRPCRequestEnvelope option \<Rightarrow> bytes \<Rightarrow> (string, string) gomap \<Rightarrow> 's \<times> (mdw_error, unit) result" where
  "CacheQueryResponse fnum newInt c s now req responseInBytes headerMap =
     (case IsCacheable newInt req of
        Panic p \<Rightarrow> (s, Panic p)
      | Err e \<Rightarrow> (s, Err e)
      | Ok cacheable \<Rightarrow>
          if \<not> cacheable then (s, Err ErrRequestIsNotCacheable)
          else (case UnmarshalJsonRpcResponse responseInBytes of
            Ok response \<Rightarrow>
              if \<not> resp_IsCacheable fnum response then (s, Err ErrResponseIsNotCacheable)
              else (case req of None \<Rightarrow> (s, Panic NilDereference) | Some r \<Rightarrow>
                if \<not> IsFinal fnum response (Method r) then (s, Err ErrResponseIsNotFinal)
                else (case GetQueryKey (cachePrefix c) req of
                  Ok key \<Rightarrow>
                  (let queryResponse = \<lparr>JsonRpcResponseResult = Result response, HeaderMap = headerMap\<rparr>;
                            queryResponseInJSON = json_print (marshal_query_response queryResponse) in
                    case GetTTL c (Method r) of
                      Ok cacheTTL \<Rightarrow>
                        (case cache_Set (cacheClient c) s now key queryResponseInJSON cacheTTL of
                           (s', None) \<Rightarrow> (s', Ok ())
                         | (s', Some e) \<Rightarrow> (s', Err (ErrCache e)))
                    | Err e \<Rightarrow> (s, Err (ErrTTL e))
                    | Panic p \<Rightarrow> (s, Panic p))
                | Err e \<Rightarrow> (s, Err e)
                | Panic p \<Rightarrow> (s, Panic p)))
          | _ \<Rightarrow> (s, Err ErrUnmarshalResponse)))"

definition sc_Healthcheck :: "'s ServiceCache \<Rightarrow> 's \<Rightarrow> cache_error option" where
  "sc_Healthcheck c s = cache_Healthcheck (cacheClient c) s"

definition IsCacheEnabled :: "'s ServiceCache \<Rightarrow> bool" where
  "IsCacheEnabled c = cacheEnabled c"

section \<open>What the key determines\<close>

lemma GetQueryKey_Ok:
  "GetQueryKey prefix (Some e) =
     Ok (prefix @ '':evm-request:'' @ Method e @ '':sha256:'' @ EncodeToString (Sum256 (request_data e)))"
  by (simp add: GetQueryKey_def BuildCacheKey_def CacheItemType_String_def)

lemma key_same_request:
  "Method e = Method e' \<Longrightarrow> Params e = Params e' \<Longrightarrow> GetQueryKey prefix (Some e) = GetQueryKey prefix (Some e')"
  by (simp add: GetQueryKey_Ok request_data_def)

lemma hash_hex_length: "length (EncodeToString (Sum256 d)) = 64"
  by (simp add: length_EncodeToString)

lemma key_parts:
  assumes "GetQueryKey prefix (Some e) = GetQueryKey prefix' (Some e')"
    and "CHR '':'' \<notin> set prefix" and "CHR '':'' \<notin> set prefix'"
  shows "prefix = prefix' \<and> Method e = Method e' \<and> Sum256 (request_data e) = Sum256 (request_data e')"
proof -
  let ?t = "\<lambda>e. Method e @ '':sha256:'' @ EncodeToString (Sum256 (request_data e))"
  have eq: "prefix @ CHR '':'' # ''evm-request:'' @ ?t e = prefix' @ CHR '':'' # ''evm-request:'' @ ?t e'"
    using assms(1) by (simp add: GetQueryKey_Ok)
  have "hd (strings_Split (q @ CHR '':'' # u) CHR '':'') = q" if "CHR '':'' \<notin> set q" for q u
    using strings_Split_append [OF that] by simp
  then have p: "prefix = prefix'" using eq assms(2,3) by metis
  with eq have "(Method e @ '':sha256:'') @ EncodeToString (Sum256 (request_data e)) =
      (Method e' @ '':sha256:'') @ EncodeToString (Sum256 (request_data e'))" by simp
  then have "Method e @ '':sha256:'' = Method e' @ '':sha256:''"
    "EncodeToString (Sum256 (request_data e)) = EncodeToString (Sum256 (request_data e'))"
    using hash_hex_length by (subst (asm) append_eq_append_conv; simp)+
  with p show ?thesis by (simp add: EncodeToString_inj)
qed

lemma marshal_params_wf: "envelope_canon fnum e \<Longrightarrow> json_wf max_nesting (marshal_params (Params e))"
  using marshal_envelope_wf [of fnum e] json_wf_mono [of "max_nesting - 1" "marshal_params (Params e)" max_nesting]
  by (simp add: marshal_envelope_def)

lemma params_of_text:
  assumes "envelope_canon fnum e" and "envelope_canon fnum e'"
    and "json_print (marshal_params (Params e)) = json_print (marshal_params (Params e'))"
  shows "Params e = Params e'"
proof -
  have "marshal_params (Params e) = marshal_params (Params e')"
    using assms json_parse_print [OF marshal_params_wf] by (metis option.inject)
  moreover have "set_params fnum (marshal_params (Params e)) = Some (Params e)" if "envelope_canon fnum e" for e
    by (rule set_params_marshal [OF that])
  ultimately show ?thesis using assms(1,2) by (metis option.inject)
qed

section \<open>What is stored\<close>

text \<open>The results that say nothing: null, false, empty strings, the zero quantity, empty lists.\<close>

definition empty_value :: "goval \<Rightarrow> bool" where
  "empty_value v \<longleftrightarrow> v \<in> {GNil, GBool False, GStr '''', GStr ''0x'', GStr ''0x0'', GArr []}"

lemma IsResultEmpty_iff:
  "\<not> IsResultEmpty fnum resp \<longleftrightarrow>
     (\<exists>j v. json_parse (Result resp) = Some j \<and> to_goval fnum j = Some v \<and> \<not> empty_value v)"
proof -
  have nil: "json_parse [] = None" by (simp add: json_parse_def p_value.simps skip_ws_def)
  show ?thesis
  proof (cases "Option.bind (json_parse (Result resp)) (to_goval fnum)")
    case None
    then show ?thesis by (cases "json_parse (Result resp)") (auto simp: IsResultEmpty_def)
  next
    case (Some v)
    then obtain j where j: "json_parse (Result resp) = Some j" "to_goval fnum j = Some v"
      by (auto simp: bind_eq_Some_conv)
    then have "Result resp \<noteq> []" using nil by auto
    then show ?thesis using j by (cases v) (auto simp: IsResultEmpty_def empty_value_def)
  qed
qed

lemma resp_IsCacheable_iff:
  "resp_IsCacheable fnum resp \<longleftrightarrow> resp_JsonRpcError resp = None \<and>
     (\<exists>j v. json_parse (Result resp) = Some j \<and> to_goval fnum j = Some v \<and> \<not> empty_value v)"
  unfolding IsResultEmpty_iff [symmetric] by (auto simp: resp_IsCacheable_def resp_Error_def)

lemma IsCacheable_same_request:
  "Method e = Method e' \<Longrightarrow> Params e = Params e' \<Longrightarrow> IsCacheable newInt (Some e) = IsCacheable newInt (Some e')"
  by (simp add: IsCacheable_def)

lemma IsCacheable_GetTTL:
  assumes "IsCacheable newInt (Some e) = Ok True"
  shows "\<exists>ttl. GetTTL c (Method e) = Ok ttl"
  using assms by (auto simp: IsCacheable_def GetTTL_def split: if_splits result.splits)

lemma CacheQueryResponse_cases:
  obtains (kept) r where "CacheQueryResponse fnum newInt c s now req body hm = (s, r)" "r \<noteq> Ok ()"
  | (stored) e resp ttl key where "req = Some e" "IsCacheable newInt req = Ok True" "UnmarshalJsonRpcResponse body = Ok resp"
      "resp_IsCacheable fnum resp" "IsFinal fnum resp (Method e)" "GetTTL c (Method e) = Ok ttl"
      "GetQueryKey (cachePrefix c) (Some e) = Ok key"
      "CacheQueryResponse fnum newInt c s now req body hm =
        (case cache_Set (cacheClient c) s now key
                (json_print (marshal_query_response \<lparr>JsonRpcResponseResult = Result resp, HeaderMap = hm\<rparr>)) ttl of
           (s', None) \<Rightarrow> (s', Ok ()) | (s', Some e) \<Rightarrow> (s', Err (ErrCache e)))"
proof (cases "IsCacheable newInt req = Ok True")
  case True
  then obtain e where e: "req = Some e" by (cases req) (auto simp: IsCacheable_def)
  obtain ttl where ttl: "GetTTL c (Method e) = Ok ttl" using IsCacheable_GetTTL True e by blast
  show ?thesis
  proof (cases "UnmarshalJsonRpcResponse body")
    case (Ok resp)
    with True e ttl that show ?thesis
      by (cases "resp_IsCacheable fnum resp"; cases "IsFinal fnum resp (Method e)")
         (simp_all add: CacheQueryResponse_def GetQueryKey_Ok)
  qed (use True that in \<open>simp_all add: CacheQueryResponse_def\<close>)
next
  case False
  with that(1) show ?thesis by (cases "IsCacheable newInt req") (auto simp: CacheQueryResponse_def)
qed

section \<open>What is served\<close>

definition served_body :: "EVMRPCRequestEnvelope \<Rightarrow> json \<Rightarrow> bytes" where
  "served_body e j =
     json_print (JObj ((if JSONRPCVersion e = [] then [] else [(''jsonrpc'', JStr (quote (JSONRPCVersion e)))]) @
       [(''id'', from_goval (ID e)), (''result'', json_compact j)])) @ [CHR 0x0A]"

lemma json_print_not_Nil: "json_wf d j \<Longrightarrow> json_print j \<noteq> []"
  using json_print_start [of d j] by (auto simp: value_start_def)

lemma restore_response_Ok:
  assumes "envelope_canon fnum e" and "unmarshal_query_response txt = Some qr"
    and "json_parse (JsonRpcResponseResult qr) = Some j"
  shows "restore_response (Some e) txt = Ok (qr\<lparr>JsonRpcResponseResult := served_body e j\<rparr>)"
proof -
  have wf: "json_wf max_nesting (from_goval (ID e))"
    using assms(1) json_wf_mono [of "max_nesting - 1" "from_goval (ID e)" max_nesting]
    by (auto simp: envelope_canon_def intro: json_wf_from_goval)
  have "JsonRpcResponseResult qr \<noteq> []" using assms(3) by (auto simp: json_parse_def p_value.simps skip_ws_def)
  then show ?thesis
    using assms json_parse_print [OF wf] json_print_not_Nil [OF wf]
    by (simp add: restore_response_def resp_Marshal_def omitempty_def marshal_raw_def served_body_def Let_def)
qed

text \<open>
  A service cache over a storage that keeps the contract of a cache. Storing a response and asking
  again, with any identifier and version, gives the stored result; other requests are answered
  as before.
\<close>

locale cached_responses =
  ttl_cache "cache_Set (cacheClient c)" "cache_Get (cacheClient c)" "cache_Delete (cacheClient c)"
  for c :: "'s ServiceCache"
begin

lemma GetCached_answer:
  "snd (GetCachedQueryResponse newInt c s t (Some e)) =
     (case IsCacheable newInt (Some e) of
        Panic p \<Rightarrow> Panic p
      | Err x \<Rightarrow> Err x
      | Ok b \<Rightarrow>
          if \<not> b then Err ErrRequestIsNotCacheable
          else (case snd (cache_Get (cacheClient c) s t (the_Ok (GetQueryKey (cachePrefix c) (Some e)))) of
                  Ok txt \<Rightarrow> restore_response (Some e) txt
                | Err x \<Rightarrow> Err (ErrCache x)
                | Panic p \<Rightarrow> Panic p))"
  by (auto simp: GetCachedQueryResponse_def GetQueryKey_Ok split: result.splits prod.splits)

lemma served_after_stored:
  assumes "CacheQueryResponse fnum newInt c s now (Some e) body hm = (s', Ok ())"
    and "Method e' = Method e" and "Params e' = Params e" and "envelope_canon fnum e'" and "header_map_ok hm"
    and "GetTTL c (Method e) = Ok ttl" and "0 < ttl" and "t 0 \<le> now 0 + ttl"
  shows "\<exists>resp j. UnmarshalJsonRpcResponse body = Ok resp \<and> json_parse (Result resp) = Some j \<and>
    snd (GetCachedQueryResponse newInt c s' t (Some e')) =
      Ok \<lparr>JsonRpcResponseResult = served_body e' j, HeaderMap = sort_key fst hm\<rparr>"
proof (cases rule: CacheQueryResponse_cases [of fnum newInt c s now "Some e" body hm])
  case (stored e0 resp ttl' key)
  let ?qr = "\<lparr>JsonRpcResponseResult = Result resp, HeaderMap = hm\<rparr>"
  let ?txt = "json_print (marshal_query_response ?qr)"
  have set: "cache_Set (cacheClient c) s now key ?txt ttl = (s', None)"
    using stored assms(1,6) by (auto split: prod.splits option.splits)
  have got: "snd (cache_Get (cacheClient c) s' t key) = Ok ?txt"
    using get_set_fresh [OF assms(7) _ set] assms(8) by simp
  obtain j where j: "json_parse (Result resp) = Some j" using stored(4) by (auto simp: resp_IsCacheable_iff)
  have "IsCacheable newInt (Some e') = Ok True" "GetQueryKey (cachePrefix c) (Some e') = Ok key"
    using stored(1,2,7) assms(2,3) key_same_request [of e' e] IsCacheable_same_request [of e' e newInt] by auto
  moreover have "unmarshal_query_response ?txt = Some (?qr\<lparr>HeaderMap := sort_key fst hm\<rparr>)"
    using unmarshal_marshal_query_response [of ?qr] assms(5) by simp
  ultimately show ?thesis
    using stored(3) j got restore_response_Ok [OF assms(4), of ?txt _ j] by (simp add: GetCached_answer)
qed (use assms(1) in simp)

lemma others_unchanged:
  assumes "CacheQueryResponse fnum newInt c s now req body hm = (s', r)"
    and "\<And>e. req = Some e \<Longrightarrow> GetQueryKey (cachePrefix c) (Some e') \<noteq> GetQueryKey (cachePrefix c) (Some e)"
  shows "snd (GetCachedQueryResponse newInt c s' t (Some e')) = snd (GetCachedQueryResponse newInt c s t (Some e'))"
proof (cases rule: CacheQueryResponse_cases [of fnum newInt c s now req body hm])
  case (kept r')
  then show ?thesis using assms(1) by simp
next
  case (stored e resp ttl key)
  then obtain x where set: "cache_Set (cacheClient c) s now key
      (json_print (marshal_query_response \<lparr>JsonRpcResponseResult = Result resp, HeaderMap = hm\<rparr>)) ttl = (s', x)"
    using assms(1) by (auto split: prod.splits option.splits)
  have "the_Ok (GetQueryKey (cachePrefix c) (Some e')) \<noteq> key"
    using assms(2) stored(1,7) by (auto simp: GetQueryKey_Ok)
  note same = get_set_other [OF this set, of t]
  show ?thesis unfolding GetCached_answer same ..
qed

end

text \<open>The contract for the service's two storages.\<close>

interpretation mem_sc: cached_responses "NewServiceCache InMemoryCache_client key prefix enabled whitelisted origin originMap config"
  for key prefix enabled whitelisted origin originMap config
  unfolding cached_responses_def using mem.ttl_cache_axioms
  by (simp add: NewServiceCache_def InMemoryCache_client_def)

lemma redis_sc:
  "redis_ok rc \<Longrightarrow> cached_responses (NewServiceCache (NewRedisCache rc) key prefix enabled whitelisted origin originMap config)"
  using redis_ttl_cache [of rc] by (simp add: cached_responses_def NewServiceCache_def NewRedisCache_def)

section \<open>Properties\<close>

text \<open>C19: The cache key identifies a request: for two decoded requests whose hash inputs do not collide, the keys
  are equal exactly when prefix, method and parameters are; identifier and version do not
  matter.\<close>

theorem query_key_identifies_request:
  assumes "envelope_canon fnum e" and "envelope_canon fnum e'"
    and "CHR '':'' \<notin> set prefix" and "CHR '':'' \<notin> set prefix'"
    and no_collision: "Sum256 (request_data e) = Sum256 (request_data e') \<Longrightarrow> request_data e = request_data e'"
  shows "GetQueryKey prefix (Some e) = GetQueryKey prefix' (Some e') \<longleftrightarrow>
    prefix = prefix' \<and> Method e = Method e' \<and> Params e = Params e'"
proof
  assume "GetQueryKey prefix (Some e) = GetQueryKey prefix' (Some e')"
  from key_parts [OF this assms(3,4)] have "prefix = prefix'" "Method e = Method e'" "request_data e = request_data e'"
    using no_collision by auto
  then show "prefix = prefix' \<and> Method e = Method e' \<and> Params e = Params e'"
    using params_of_text [OF assms(1,2)] by (simp add: request_data_def)
next
  assume "prefix = prefix' \<and> Method e = Method e' \<and> Params e = Params e'"
  then show "GetQueryKey prefix (Some e) = GetQueryKey prefix' (Some e')" using key_same_request by blast
qed

text \<open>A request and the body of its response, for examples.\<close>

definition sample_envelope :: "string \<Rightarrow> EVMRPCRequestEnvelope" where
  "sample_envelope ident = \<lparr>JSONRPCVersion = ''2.0'', ID = GStr ident, Method = ''eth_chainId'', Params = Some []\<rparr>"

definition sample_body :: bytes where
  "sample_body = CHR 0x7B # dquote # ''jsonrpc'' @ dquote # '':'' @ dquote # ''2.0'' @ dquote # '','' @ dquote # ''id'' @ dquote #
     '':7,'' @ dquote # ''result'' @ dquote # '':'' @ dquote # ''0x8ae'' @ [dquote, CHR 0x7D, CHR 0x0A]"

definition sample_cache :: "InMemoryCache ServiceCache" where
  "sample_cache = NewServiceCache InMemoryCache_client ''X-KAVA-PROXY-DECODED-REQUEST-BODY'' ''kava'' True [''Content-Type''] '''' []
     \<lparr>mdw_CacheMethodHasBlockNumberParamTTL = 600, mdw_CacheMethodHasBlockHashParamTTL = 600,
      mdw_CacheStaticMethodTTL = 600, mdw_CacheMethodHasTxHashParamTTL = 600\<rparr>"

lemma sample_cache_contract: "cached_responses sample_cache"
  unfolding sample_cache_def by (rule mem_sc.cached_responses_axioms)

lemma sample_envelope_canon:
  "utf8_valid ident \<Longrightarrow> envelope_canon fnum (sample_envelope ident)"
  by (simp add: envelope_canon_def sample_envelope_def)

lemma sample_unmarshal:
  "UnmarshalJsonRpcResponse sample_body =
     Ok \<lparr>resp_Version = ''2.0'', resp_ID = ''7'', Result = dquote # ''0x8ae'' @ [dquote], resp_JsonRpcError = None\<rparr>"
  by code_simp

lemma sample_result: "json_parse (dquote # ''0x8ae'' @ [dquote]) = Some (JStr ''0x8ae'')"
  by code_simp

lemma sample_cacheable: "IsCacheable newInt (Some (sample_envelope ident)) = Ok True"
  by (simp add: IsCacheable_def sample_envelope_def method_preds method_tables)

lemma sample_ttl: "GetTTL sample_cache ''eth_chainId'' = Ok 600"
  by (simp add: GetTTL_def sample_cache_def NewServiceCache_def method_preds method_tables)

lemma sample_stored:
  "\<exists>s'. CacheQueryResponse fnum newInt sample_cache [] now (Some (sample_envelope ident)) sample_body [] = (s', Ok ())"
proof -
  let ?resp = "\<lparr>resp_Version = ''2.0'', resp_ID = ''7'', Result = dquote # ''0x8ae'' @ [dquote], resp_JsonRpcError = None\<rparr>"
  have "unquote ''0x8ae'' = ''0x8ae''" by (rule unquote_plain) simp
  then have "resp_IsCacheable fnum ?resp"
    using sample_result by (simp add: resp_IsCacheable_iff empty_value_def)
  moreover have "Method (sample_envelope ident) = ''eth_chainId''" by (simp add: sample_envelope_def)
  moreover have "IsFinal fnum ?resp ''eth_chainId''" by (simp add: IsFinal_def)
  moreover have "cacheClient sample_cache = InMemoryCache_client" by (simp add: sample_cache_def NewServiceCache_def)
  ultimately show ?thesis
    by (simp add: CacheQueryResponse_def sample_cacheable sample_unmarshal sample_ttl GetQueryKey_Ok
        InMemoryCache_client_def inmem_Set_def Let_def)
qed

theorem query_key_identifies_request_witness:
  "GetQueryKey ''kava'' (Some (sample_envelope ''a'')) = GetQueryKey ''kava'' (Some (sample_envelope ''b''))"
  using query_key_identifies_request [of sample_num "sample_envelope ''a''" "sample_envelope ''b''" "''kava''" "''kava''"]
  by (simp add: sample_envelope_canon) (simp add: sample_envelope_def request_data_def)

text \<open>C8: Only settled results are stored. When storing succeeds or changes the cache at all, the request is a
  cacheable one, the response has no error, its result is a value other than null, false, an
  empty string or list and the zero quantity, and a transaction looked up by hash is already
  in a block.\<close>

theorem only_settled_results_stored:
  assumes "CacheQueryResponse fnum newInt c s now req body hm = (s', r)" and "s' \<noteq> s \<or> r = Ok ()"
  shows "\<exists>e resp j v. req = Some e \<and> IsCacheable newInt req = Ok True \<and> UnmarshalJsonRpcResponse body = Ok resp \<and>
    resp_JsonRpcError resp = None \<and> json_parse (Result resp) = Some j \<and> to_goval fnum j = Some v \<and> \<not> empty_value v \<and>
    (Method e = ''eth_getTransactionByHash'' \<longrightarrow> (\<exists>x. unmarshal_tx fnum j = Some x \<and> IsIncludedInBlock x))"
proof (cases rule: CacheQueryResponse_cases [of fnum newInt c s now req body hm])
  case (stored e resp ttl key)
  from stored(4) obtain j v where "resp_JsonRpcError resp = None" "json_parse (Result resp) = Some j" "to_goval fnum j = Some v"
    "\<not> empty_value v" unfolding resp_IsCacheable_iff by blast
  with stored(1-3,5) show ?thesis by (auto simp: IsFinal_def split: if_splits option.splits)
qed (use assms in auto)

theorem only_settled_results_stored_witness:
  "\<exists>resp. UnmarshalJsonRpcResponse sample_body = Ok resp \<and> resp_JsonRpcError resp = None"
proof -
  obtain s' where "CacheQueryResponse sample_num newInt_decimal sample_cache [] (\<lambda>_. 0) (Some (sample_envelope ''a'')) sample_body [] = (s', Ok ())"
    using sample_stored by blast
  from only_settled_results_stored [OF this] show ?thesis by blast
qed

text \<open>C7: A stored response is served again. As long as its lifetime lasts, every request with the same method and
  parameters gets the stored result, compacted but of the same value, under its own identifier
  and version, together with the stored headers.\<close>

theorem cached_response_served:
  assumes "cached_responses c"
    and "CacheQueryResponse fnum newInt c s now (Some e) body hm = (s', Ok ())"
    and "Method e' = Method e" and "Params e' = Params e" and "envelope_canon fnum e'" and "header_map_ok hm"
    and "GetTTL c (Method e) = Ok ttl" and "0 < ttl" and "t 0 \<le> now 0 + ttl"
  shows "\<exists>resp j qr. UnmarshalJsonRpcResponse body = Ok resp \<and> json_parse (Result resp) = Some j \<and>
    snd (GetCachedQueryResponse newInt c s' t (Some e')) = Ok qr \<and>
    JsonRpcResponseResult qr =
      json_print (JObj ((if JSONRPCVersion e' = [] then [] else [(''jsonrpc'', JStr (quote (JSONRPCVersion e')))]) @
        [(''id'', from_goval (ID e')), (''result'', json_compact j)])) @ [CHR 0x0A] \<and>
    to_goval fnum (json_compact j) = to_goval fnum j \<and> map_of (HeaderMap qr) = map_of hm"
proof -
  obtain resp j where rj: "UnmarshalJsonRpcResponse body = Ok resp" "json_parse (Result resp) = Some j"
    "snd (GetCachedQueryResponse newInt c s' t (Some e')) =
      Ok \<lparr>JsonRpcResponseResult = served_body e' j, HeaderMap = sort_key fst hm\<rparr>"
    using cached_responses.served_after_stored [OF assms(1-8), where t = t] assms(9) by blast
  have "to_goval fnum (json_compact j) = to_goval fnum j" using to_goval_compact json_parse_wf rj(2) by blast
  moreover have "map_of (sort_key fst hm) = map_of hm"
    using assms(6) by (intro map_of_sort_key) (simp add: header_map_ok_def)
  ultimately show ?thesis using rj by (auto simp: served_body_def)
qed

theorem cached_response_served_witness:
  "\<exists>s' qr. CacheQueryResponse sample_num newInt_decimal sample_cache [] (\<lambda>_. 0) (Some (sample_envelope ''a'')) sample_body [] = (s', Ok ()) \<and>
     snd (GetCachedQueryResponse newInt_decimal sample_cache s' (\<lambda>_. 500) (Some (sample_envelope ''b''))) = Ok qr"
proof -
  obtain s' where s': "CacheQueryResponse sample_num newInt_decimal sample_cache [] (\<lambda>_. 0) (Some (sample_envelope ''a'')) sample_body [] = (s', Ok ())"
    using sample_stored by blast
  have "\<exists>qr. snd (GetCachedQueryResponse newInt_decimal sample_cache s' (\<lambda>_. 500) (Some (sample_envelope ''b''))) = Ok qr"
    using cached_response_served [OF sample_cache_contract s', of "sample_envelope ''b''" 600 "\<lambda>_. 500"]
    by (auto simp: sample_envelope_canon header_map_ok_def sample_ttl) (auto simp: sample_envelope_def sample_ttl)
  with s' show ?thesis by blast
qed

text \<open>C20: Storing a response for one request never changes the answer to a request with another method or other
  parameters, whatever the outcome, unless the two hash inputs collide.\<close>

theorem cached_responses_isolated:
  assumes "cached_responses c" and "CacheQueryResponse fnum newInt c s now (Some e) body hm = (s', r)"
    and "envelope_canon fnum e" and "envelope_canon fnum e'" and "Method e' \<noteq> Method e \<or> Params e' \<noteq> Params e"
    and "CHR '':'' \<notin> set (cachePrefix c)"
    and no_collision: "Sum256 (request_data e') = Sum256 (request_data e) \<Longrightarrow> request_data e' = request_data e"
  shows "snd (GetCachedQueryResponse newInt c s' t (Some e')) = snd (GetCachedQueryResponse newInt c s t (Some e'))"
proof (rule cached_responses.others_unchanged [OF assms(1,2)])
  fix e0 assume e0: "Some e = Some e0"
  show "GetQueryKey (cachePrefix c) (Some e') \<noteq> GetQueryKey (cachePrefix c) (Some e0)"
  proof
    assume "GetQueryKey (cachePrefix c) (Some e') = GetQueryKey (cachePrefix c) (Some e0)"
    from key_parts [OF this assms(6,6)] e0 no_collision have "Method e' = Method e" "request_data e' = request_data e" by auto
    with params_of_text [OF assms(4,3)] assms(5) show False by (auto simp: request_data_def)
  qed
qed

theorem cached_responses_isolated_witness:
  "snd (GetCachedQueryResponse newInt_decimal sample_cache
       (fst (CacheQueryResponse sample_num newInt_decimal sample_cache [] (\<lambda>_. 0) (Some (sample_envelope ''a'')) sample_body []))
       (\<lambda>_. 5) (Some ((sample_envelope ''a'')\<lparr>Method := ''net_version''\<rparr>))) =
     Err (ErrCache ErrNotFound) \<or>
   Sum256 ''net_version[]'' = Sum256 ''eth_chainId[]''"
proof (cases "Sum256 ''net_version[]'' = Sum256 ''eth_chainId[]''")
  case False
  let ?e = "sample_envelope ''a''" and ?e' = "(sample_envelope ''a'')\<lparr>Method := ''net_version''\<rparr>"
  have "snd (GetCachedQueryResponse newInt_decimal sample_cache
       (fst (CacheQueryResponse sample_num newInt_decimal sample_cache [] (\<lambda>_. 0) (Some ?e) sample_body [])) (\<lambda>_. 5) (Some ?e')) =
    snd (GetCachedQueryResponse newInt_decimal sample_cache [] (\<lambda>_. 5) (Some ?e'))"
  proof (rule cached_responses_isolated [OF sample_cache_contract])
    show "CacheQueryResponse sample_num newInt_decimal sample_cache [] (\<lambda>_. 0) (Some ?e) sample_body [] =
      (fst (CacheQueryResponse sample_num newInt_decimal sample_cache [] (\<lambda>_. 0) (Some ?e) sample_body []),
       snd (CacheQueryResponse sample_num newInt_decimal sample_cache [] (\<lambda>_. 0) (Some ?e) sample_body []))" by simp
    show "Sum256 (request_data ?e') = Sum256 (request_data ?e) \<Longrightarrow> request_data ?e' = request_data ?e"
      using False by (simp add: request_data_def sample_envelope_def marshal_params_def)
  qed (simp_all add: envelope_canon_def sample_envelope_def sample_cache_def NewServiceCache_def)
  moreover have "snd (GetCachedQueryResponse newInt_decimal sample_cache [] (\<lambda>_. 5) (Some ?e')) = Err (ErrCache ErrNotFound)"
    by (simp add: cached_responses.GetCached_answer [OF sample_cache_contract] GetQueryKey_Ok)
       (simp add: IsCacheable_def sample_envelope_def sample_cache_def NewServiceCache_def InMemoryCache_client_def
         inmem_Get_def method_preds method_tables)
  ultimately show ?thesis by simp
qed simp

end
