(* ===== verification/CacheMiddleware.thy ===== *)
theory CacheMiddleware
  imports Pipeline ServiceCache
begin

text \<open>
  \<^verbatim>\<open>service/cachemdw/is_cached_middleware.go\<close> and \<^verbatim>\<open>caching_middleware.go\<close>: the middleware that looks a
  request up before it is proxied and the one that stores the response afterwards. Log messages
  are left out, but for the reading of the request body that one of them does.
\<close>

section \<open>Context keys and headers\<close>

definition CachedContextKey :: string where "CachedContextKey = ''X-KAVA-PROXY-CACHED''"
definition ResponseContextKey :: string where "ResponseContextKey = ''X-KAVA-PROXY-RESPONSE''"
definition CacheHeaderKey :: string where "CacheHeaderKey = ''X-Kava-Proxy-Cache-Status''"
definition CacheHitHeaderValue :: string where "CacheHitHeaderValue = ''HIT''"
definition CacheMissHeaderValue :: string where "CacheMissHeaderValue = ''MISS''"
definition CachePartialHeaderValue :: string where "CachePartialHeaderValue = ''PARTIAL''"

lemmas cache_names = CachedContextKey_def ResponseContextKey_def CacheHeaderKey_def CacheHitHeaderValue_def
  CacheMissHeaderValue_def CachePartialHeaderValue_def

definition IsRequestCached :: "Context \<Rightarrow> bool" where
  "IsRequestCached ctx = (case Value ctx CachedContextKey of Some (CtxBool cached) \<Rightarrow> cached | _ \<Rightarrow> False)"

definition IsCacheHitHeaders :: "Header \<Rightarrow> bool" where
  "IsCacheHitHeaders header \<longleftrightarrow> Header_Get header CacheHeaderKey = CacheHitHeaderValue"

text \<open>
  The log function of an undecodable request reads the body and puts a copy in its place; a nil
  body cannot be read.
\<close>

definition LogCannotCastRequestError :: "Request \<Rightarrow> (unit, Request) result" where
  "LogCannotCastRequestError r =
     (case Body r of
        None \<Rightarrow> Panic NilDereference
      | Some body \<Rightarrow> Ok (r\<lparr>Body := Some (Reader (fst (ReadAll body)) False)\<rparr>))"

section \<open>Looking up\<close>

definition IsCachedMiddleware ::
  "('n, 'h) Externals \<Rightarrow> 's ServiceCache \<Rightarrow> ('s, 'w) handler \<Rightarrow> ('s, 'w) handler" where
  "IsCachedMiddleware x c next W w r =
     (if \<not> cacheEnabled c then next W w r
      else (let uncachedContext = WithValue (Ctx r) CachedContextKey (CtxBool False);
                cachedContext = WithValue (Ctx r) CachedContextKey (CtxBool True) in
        case decoded_request r (decodedRequestContextKey c) of
          None \<Rightarrow>
            (case LogCannotCastRequestError r of
               Ok r' \<Rightarrow> next W w (WithContext r' uncachedContext)
             | Err e \<Rightarrow> (W, w, None)
             | Panic p \<Rightarrow> (W, w, Some p))
        | Some decodedReq \<Rightarrow>
            (case GetCachedQueryResponse (x_newInt x) c (w_cache W) (cache_now x W) decodedReq of (s, res) \<Rightarrow>
              let W' = tick 2 (W\<lparr>w_cache := s\<rparr>) in
              case res of
                Panic p \<Rightarrow> (W', w, Some p)
              | Err e \<Rightarrow> next W' w (WithContext r uncachedContext)
              | Ok cachedQueryResponse \<Rightarrow>
                  next W' w (WithContext r
                    (WithValue cachedContext ResponseContextKey (CtxQueryResponse cachedQueryResponse))))))"

section \<open>Storing\<close>

fun getHeadersToCache :: "Header \<Rightarrow> string list \<Rightarrow> (string, string) gomap \<Rightarrow> (string, string) gomap" where
  "getHeadersToCache header [] headersToCache = headersToCache"
| "getHeadersToCache header (headerName # names) headersToCache =
     (let headerValue = Header_Get header headerName in
      if headerValue = [] then getHeadersToCache header names headersToCache
      else getHeadersToCache header names (AList.update headerName headerValue headersToCache))"

text \<open>\<open>hdr\<close> is the \<^verbatim>\<open>Header\<close> method of the response writer.\<close>

definition CachingMiddleware ::
  "('n, 'h) Externals \<Rightarrow> 's ServiceCache \<Rightarrow> ('w \<Rightarrow> Header) \<Rightarrow> ('s, 'w) handler \<Rightarrow> ('s, 'w) handler" where
  "CachingMiddleware x c hdr next W w r =
     (if \<not> cacheEnabled c then next W w r
      else (case decoded_request r (decodedRequestContextKey c) of
        None \<Rightarrow>
          (case LogCannotCastRequestError r of
             Ok r' \<Rightarrow> next W w r'
           | Err e \<Rightarrow> (W, w, None)
           | Panic p \<Rightarrow> (W, w, Some p))
      | Some decodedReq \<Rightarrow>
          (let isCached = IsRequestCached (Ctx r) in
           case IsCacheable (x_newInt x) decodedReq of
             Panic p \<Rightarrow> (W, w, Some p)
           | Err e \<Rightarrow> next W w r
           | Ok cacheable \<Rightarrow>
               (case Value (Ctx r) ResponseContextKey of
                  Some (CtxBytes typedResponse) \<Rightarrow>
                    if \<not> isCached \<and> cacheable then
                      (case CacheQueryResponse (x_fnum x) (x_newInt x) c (w_cache W) (cache_now x W) decodedReq typedResponse
                              (getHeadersToCache (hdr w) (whitelistedHeaders c) []) of
                         (s, Panic p) \<Rightarrow> (tick 2 (W\<lparr>w_cache := s\<rparr>), w, Some p)
                       | (s, _) \<Rightarrow> next (tick 2 (W\<lparr>w_cache := s\<rparr>)) w r)
                    else next W w r
                | _ \<Rightarrow> next W w r))))"

section \<open>Facts\<close>

lemma getHeadersToCache_wf: "map_wf m \<Longrightarrow> map_wf (getHeadersToCache h ns m)"
  by (induction h ns m rule: getHeadersToCache.induct) (auto simp: Let_def)

lemma getHeadersToCache_lookup:
  "map_of (getHeadersToCache h ns m) k =
     (if k \<in> set ns \<and> Header_Get h k \<noteq> [] then Some (Header_Get h k) else map_of m k)"
  by (induction h ns m rule: getHeadersToCache.induct) (auto simp: Let_def update_conv')

lemma LogCannotCast_cases:
  "LogCannotCastRequestError r = Panic NilDereference \<and> Body r = None \<or>
   (\<exists>b. Body r = Some b \<and> LogCannotCastRequestError r = Ok (r\<lparr>Body := Some (Reader (unread b) False)\<rparr>))"
  by (cases "Body r") (simp_all add: LogCannotCastRequestError_def ReadAll_def)

end
