(* ===== verification/Middleware.thy ===== *)
theory Middleware
  imports CacheMiddleware
begin

text \<open>
  \<^verbatim>\<open>service/middleware.go\<close>: decoding a request, proxying it (or serving it from the cache), and
  recording a metric. Log messages are left out. The main facts describe the two ways a request
  is answered and the metric that is recorded.
\<close>

section \<open>Context keys\<close>

definition DefaultAnonymousUserAgent :: string where "DefaultAnonymousUserAgent = ''anon''"
definition DecodedBatchRequestContextKey :: string where
  "DecodedBatchRequestContextKey = ''X-KAVA-PROXY-DECODED-BATCH-REQUEST-BODY''"
definition OriginRoundtripLatencyMillisecondsKey :: string where
  "OriginRoundtripLatencyMillisecondsKey = ''X-KAVA-PROXY-ORIGIN-ROUNDTRIP-LATENCY-MILLISECONDS''"
definition RequestStartTimeContextKey :: string where
  "RequestStartTimeContextKey = ''X-KAVA-PROXY-REQUEST-START-TIME''"
definition RequestHostnameContextKey :: string where
  "RequestHostnameContextKey = ''X-KAVA-PROXY-REQUEST-HOSTNAME''"
definition RequestIPContextKey :: string where "RequestIPContextKey = ''X-KAVA-PROXY-REQUEST-IP''"
definition RequestUserAgentContextKey :: string where "RequestUserAgentContextKey = ''X-KAVA-PROXY-USER-AGENT''"
definition RequestRefererContextKey :: string where "RequestRefererContextKey = ''X-KAVA-PROXY-REFERER''"
definition RequestOriginContextKey :: string where "RequestOriginContextKey = ''X-KAVA-PROXY-ORIGIN''"
definition ProxyMetadataContextKey :: string where "ProxyMetadataContextKey = ''X-KAVA-PROXY-RESPONSE-BACKEND''"
definition LoadBalancerForwardedForHeaderKey :: string where "LoadBalancerForwardedForHeaderKey = ''X-Forwarded-For''"
definition UserAgentHeaderkey :: string where "UserAgentHeaderkey = ''User-Agent''"
definition RefererHeaderKey :: string where "RefererHeaderKey = ''Referer''"
definition OriginHeaderKey :: string where "OriginHeaderKey = ''Origin''"

lemmas context_keys = DecodedRequestContextKey_def DecodedBatchRequestContextKey_def
  OriginRoundtripLatencyMillisecondsKey_def RequestStartTimeContextKey_def RequestHostnameContextKey_def
  RequestIPContextKey_def RequestUserAgentContextKey_def RequestRefererContextKey_def RequestOriginContextKey_def
  ProxyMetadataContextKey_def CachedContextKey_def ResponseContextKey_def

section \<open>Decoding\<close>

definition createDecodeRequestMiddleware ::
  "('n, 'h) Externals \<Rightarrow> ('s, 'w) handler \<Rightarrow> ('s, 'w) handler \<Rightarrow> ('s, 'w) handler" where
  "createDecodeRequestMiddleware x next batchProcessingMiddleware W0 w r =
     (let requestStartTimeContext = WithValue (Ctx r) RequestStartTimeContextKey (CtxTime (time_Now x W0));
          W = tick 1 W0 in
      case Body r of
        None \<Rightarrow> next W w r
      | Some body \<Rightarrow>
          (case ReadAll body of (rawBody, err, drained) \<Rightarrow>
            if err then next W w (r\<lparr>Body := Some drained\<rparr>)
            else (let r = r\<lparr>Body := Some (Reader rawBody False)\<rparr> in
              if length rawBody = 0 then next W w r
              else (case DecodeEVMRPCRequest (x_fnum x) rawBody of
                Ok decodedRequest \<Rightarrow>
                  next W w (WithContext r
                    (WithValue requestStartTimeContext DecodedRequestContextKey (CtxRequest (Some decodedRequest))))
              | _ \<Rightarrow>
                  (case DecodeEVMRPCRequestList (x_fnum x) rawBody of
                     Ok batchRequests \<Rightarrow>
                       if length batchRequests = 0 then next W w r
                       else batchProcessingMiddleware W w (WithContext r
                         (WithValue requestStartTimeContext DecodedBatchRequestContextKey (CtxBatch batchRequests)))
                   | _ \<Rightarrow> next W w r)))))"

section \<open>Proxying\<close>

text \<open>\<^verbatim>\<open>time.Since\<close> in milliseconds: the difference is an int64 that saturates, and division truncates.\<close>

definition duration_Milliseconds :: "int \<Rightarrow> int" where
  "duration_Milliseconds d = (if d < 0 then - ((- d) div 1000000) else d div 1000000)"

definition time_Since :: "int \<Rightarrow> int \<Rightarrow> int" where
  "time_Since now t = max min_int64 (min max_int64 (now - t))"

text \<open>Only the last value of the forwarding header is kept for the backend.\<close>

definition last_forwarded_for :: "Request \<Rightarrow> Request" where
  "last_forwarded_for r =
     (let values = header_values (ReqHeader r) LoadBalancerForwardedForHeaderKey in
      if length values > 1
      then r\<lparr>ReqHeader := Header_Set LoadBalancerForwardedForHeaderKey (last values) (ReqHeader r)\<rparr> else r)"

definition intercept_body :: "RequestInterceptor list \<Rightarrow> Request \<Rightarrow> Request" where
  "intercept_body interceptors r =
     (case Body r of
        None \<Rightarrow> r
      | Some body \<Rightarrow> r\<lparr>Body := Some (Reader (run_interceptors interceptors (fst (ReadAll body))) False)\<rparr>)"

text \<open>The response from the cache: the loop adds a cached header only where none is set.\<close>

definition add_cached_header :: "string \<times> string \<Rightarrow> Header \<Rightarrow> Header" where
  "add_cached_header kv h =
     (case kv of (headerName, headerValue) \<Rightarrow>
        if Header_Get h headerName = [] \<and> headerValue \<noteq> [] then Header_Set headerName headerValue h else h)"

definition cached_headers :: "Config \<Rightarrow> string \<Rightarrow> QueryResponse \<Rightarrow> Header \<Rightarrow> Header" where
  "cached_headers config host response h =
     (let h1 = Header_Set ''Content-Type'' ''application/json'' (Header_Set CacheHeaderKey CacheHitHeaderValue h);
          h2 = fold add_cached_header (HeaderMap response) h1;
          accessControlAllowOriginValue = GetAccessControlAllowOriginValue config host in
      if Header_Get h2 ''Access-Control-Allow-Origin'' = [] \<and> accessControlAllowOriginValue \<noteq> []
      then Header_Set ''Access-Control-Allow-Origin'' accessControlAllowOriginValue h2 else h2)"

definition serve_cached :: "Config \<Rightarrow> Request \<Rightarrow> QueryResponse \<Rightarrow> ResponseWriter \<Rightarrow> ResponseWriter" where
  "serve_cached config r response w =
     w_Write (JsonRpcResponseResult response) (w_change_header (cached_headers config (Host r) response) w)"

text \<open>A header used when it has exactly one value.\<close>

definition single_value :: "Header \<Rightarrow> string \<Rightarrow> string \<Rightarrow> string" where
  "single_value h key fallback = (let values = header_values h key in if length values = 1 then hd values else fallback)"

text \<open>
  What the middlewares after the proxy find in the context. \<open>requestIPHeaderValues\<close> was read before
  the header was rewritten.
\<close>

definition enrich_context ::
  "Config \<Rightarrow> string list \<Rightarrow> int \<Rightarrow> ProxyMetadata \<Rightarrow> bytes \<Rightarrow> Request \<Rightarrow> Context" where
  "enrich_context config requestIPHeaderValues latency proxyMetadata body r =
     (let c1 = WithValue (Ctx r) OriginRoundtripLatencyMillisecondsKey (CtxInt64 latency);
          c2 = WithValue c1 RequestHostnameContextKey (CtxString (Host r));
          c3 = WithValue c2 ProxyMetadataContextKey (CtxProxyMetadata proxyMetadata);
          c4 = (if CacheEnabled config then WithValue c3 ResponseContextKey (CtxBytes body) else c3);
          remoteAddress = hd (strings_Split (RemoteAddr r) CHR '':'');
          c5 = WithValue c4 RequestIPContextKey
                 (CtxString (if length requestIPHeaderValues = 1 then hd requestIPHeaderValues else remoteAddress));
          c6 = WithValue c5 RequestRefererContextKey
                 (CtxString (single_value (ReqHeader r) RefererHeaderKey (''http://'' @ remoteAddress)));
          c7 = WithValue c6 RequestOriginContextKey
                 (CtxString (single_value (ReqHeader r) OriginHeaderKey (''http://'' @ remoteAddress))) in
      WithValue c7 RequestUserAgentContextKey
        (CtxString (single_value (ReqHeader r) UserAgentHeaderkey DefaultAnonymousUserAgent)))"

text \<open>The cached response that is served: cache on, marked as cached, and present in the context.\<close>

definition cached_response :: "Config \<Rightarrow> Context \<Rightarrow> QueryResponse option" where
  "cached_response config ctx =
     (case Value ctx ResponseContextKey of
        Some (CtxQueryResponse response) \<Rightarrow>
          if CacheEnabled config \<and> IsRequestCached ctx then Some response else None
      | _ \<Rightarrow> None)"

definition createProxyRequestMiddleware ::
  "('n, 'h) Externals \<Rightarrow> ('s, 'n bodySaverResponseWriter) handler \<Rightarrow> Config \<Rightarrow> RequestInterceptor list \<Rightarrow>
    RequestInterceptor list \<Rightarrow> ('s, ResponseWriter) handler" where
  "createProxyRequestMiddleware x next config beforeRequestInterceptors afterRequestInterceptors W0 w r0 =
     (case (case decoded_request r0 DecodedRequestContextKey of None \<Rightarrow> LogCannotCastRequestError r0 | Some _ \<Rightarrow> Ok r0) of
        Panic p \<Rightarrow> (W0, w, Some p)
      | Err e \<Rightarrow> (W0, w, None)
      | Ok r1 \<Rightarrow>
        (let proxyRequestAt = time_Now x W0; W = tick 1 W0;
             lrw = new_body_saver x w afterRequestInterceptors in
         case ProxyForRequest (x_newInt x) (NewProxies config) r1 of
           Panic p \<Rightarrow> (W, w, Some p)
         | Err e \<Rightarrow> (W, w, None)
         | Ok (proxy, proxyMetadata, ok) \<Rightarrow>
           if \<not> ok then
             (W, w_Write ''no proxy backend configured for request host'' (w_WriteHeader StatusBadGateway w), None)
           else (let requestIPHeaderValues = header_values (ReqHeader r1) LoadBalancerForwardedForHeaderKey;
                     r = intercept_body beforeRequestInterceptors (last_forwarded_for r1) in
             case (case cached_response config (Ctx r) of
                     Some response \<Rightarrow> (W, lrw\<lparr>bs_inner := serve_cached config r response (bs_inner lrw)\<rparr>, None)
                   | None \<Rightarrow>
                       (case proxy of
                          None \<Rightarrow> (W, bs_change_header (Header_Add CacheHeaderKey CacheMissHeaderValue) lrw, Some NilDereference)
                        | Some p \<Rightarrow> proxy_ServeHTTP x p W (bs_change_header (Header_Add CacheHeaderKey CacheMissHeaderValue) lrw) r)) of
               (W, lrw, Some p) \<Rightarrow> (W, bs_inner lrw, Some p)
             | (W, lrw, None) \<Rightarrow>
                 (let latency = duration_Milliseconds (time_Since (time_Now x W) proxyRequestAt) in
                  case next (tick 1 W) lrw
                         (WithContext r (enrich_context config requestIPHeaderValues latency proxyMetadata (bs_body lrw) r)) of
                    (W, lrw, p) \<Rightarrow> (W, bs_inner lrw, p)))))"

section \<open>Recording a metric\<close>

definition ctx_string :: "Context \<Rightarrow> string \<Rightarrow> string option" where
  "ctx_string ctx key = (case Value ctx key of Some (CtxString s) \<Rightarrow> Some s | _ \<Rightarrow> None)"

definition IsBatchContext :: "Context \<Rightarrow> string \<Rightarrow> bool" where
  "IsBatchContext ctx decodedBatchContextKey =
     (case Value ctx decodedBatchContextKey of Some (CtxBatch batchReq) \<Rightarrow> length batchReq > 0 | _ \<Rightarrow> False)"

text \<open>
  The chain of assertions on the context, in the order of the source; \<open>None\<close> where one of them fails
  and the handler returns. The origin is read with the key of the referer.
\<close>

definition metric_of_context ::
  "('n, 'h) Externals \<Rightarrow> Context \<Rightarrow> (unit, ProxiedRequestMetric option) result" where
  "metric_of_context x ctx =
     (case Value ctx DecodedRequestContextKey of Some (CtxRequest decodedRequestBody) \<Rightarrow>
     (case Value ctx OriginRoundtripLatencyMillisecondsKey of Some (CtxInt64 latency) \<Rightarrow>
     (case Value ctx RequestStartTimeContextKey of Some (CtxTime requestStartTime) \<Rightarrow>
     (case ctx_string ctx RequestHostnameContextKey of None \<Rightarrow> Ok None | Some requestHostname \<Rightarrow>
     (case ctx_string ctx RequestIPContextKey of None \<Rightarrow> Ok None | Some requestIP \<Rightarrow>
     (case ctx_string ctx RequestUserAgentContextKey of None \<Rightarrow> Ok None | Some userAgent \<Rightarrow>
     (case ctx_string ctx RequestRefererContextKey of None \<Rightarrow> Ok None | Some referer \<Rightarrow>
     (case ctx_string ctx RequestRefererContextKey of None \<Rightarrow> Ok None | Some origin \<Rightarrow>
     (case Value ctx ProxyMetadataContextKey of Some (CtxProxyMetadata proxyMetadata) \<Rightarrow>
     (case decodedRequestBody of None \<Rightarrow> Panic NilDereference | Some req \<Rightarrow>
     (case ExtractBlockNumberFromEVMRPCRequest (x_newInt x) (x_hexToHash x) (x_headerByHash x) req of
        Panic p \<Rightarrow> Panic p
      | res \<Rightarrow>
          Ok (Some \<lparr>MetricID = 0, MethodName = Method req,
            BlockNumber = (case res of Ok rawBlockNumber \<Rightarrow> Some rawBlockNumber | _ \<Rightarrow> None),
            ResponseLatencyMilliseconds = latency, Hostname = requestHostname, RequestIP = requestIP,
            RequestTime = requestStartTime, UserAgent = Some userAgent, Referer = Some referer, Origin = Some origin,
            ResponseBackend = BackendName proxyMetadata, ResponseBackendRoute = BackendRoute proxyMetadata,
            CacheHit = IsRequestCached ctx,
            PartOfBatch = IsBatchContext ctx DecodedBatchRequestContextKey\<rparr>)))
     | _ \<Rightarrow> Ok None))))))
     | _ \<Rightarrow> Ok None)
     | _ \<Rightarrow> Ok None)
     | _ \<Rightarrow> Ok None)"

definition createAfterProxyFinalizer :: "('n, 'h) Externals \<Rightarrow> Config \<Rightarrow> ('s, 'w) handler" where
  "createAfterProxyFinalizer x config W w r =
     (if \<not> MetricCollectionEnabled config then (W, w, None)
      else (case metric_of_context x (Ctx r) of
        Panic p \<Rightarrow> (W, w, Some p)
      | Ok (Some metric) \<Rightarrow> (W\<lparr>w_metrics := w_metrics W @ [metric]\<rparr>, w, None)
      | _ \<Rightarrow> (W, w, None)))"

text \<open>The chain for a single request, composed as \<^verbatim>\<open>service.New\<close> composes it.\<close>

definition cacheAfterProxyMiddleware ::
  "('n, 'h) Externals \<Rightarrow> Config \<Rightarrow> 's ServiceCache \<Rightarrow> ('s, 'n bodySaverResponseWriter) handler" where
  "cacheAfterProxyMiddleware x config c = CachingMiddleware x c bs_Header (createAfterProxyFinalizer x config)"

definition proxyMiddleware ::
  "('n, 'h) Externals \<Rightarrow> Config \<Rightarrow> 's ServiceCache \<Rightarrow> ('s, ResponseWriter) handler" where
  "proxyMiddleware x config c = createProxyRequestMiddleware x (cacheAfterProxyMiddleware x config c) config [] []"

definition cacheMiddleware ::
  "('n, 'h) Externals \<Rightarrow> Config \<Rightarrow> 's ServiceCache \<Rightarrow> ('s, ResponseWriter) handler" where
  "cacheMiddleware x config c = IsCachedMiddleware x c (proxyMiddleware x config c)"

section \<open>The two ways to answer\<close>

abbreviation prepared :: "Request \<Rightarrow> Request" where
  "prepared r \<equiv> intercept_body [] (last_forwarded_for r)"

lemma prepared_simps [simp]:
  "Ctx (prepared r) = Ctx r" "Host (prepared r) = Host r" "RemoteAddr (prepared r) = RemoteAddr r"
  "ReqMethod (prepared r) = ReqMethod r" "ReqURL (prepared r) = ReqURL r"
  by (simp_all add: intercept_body_def last_forwarded_for_def Let_def split: option.split)

lemma decoded_request_WithContext [simp]:
  "decoded_request (WithContext r (WithValue ctx k v)) key =
     (if key = k then (case v of CtxRequest p \<Rightarrow> Some p | _ \<Rightarrow> None) else decoded_request (WithContext r ctx) key)"
  by (simp add: decoded_request_def)

lemma decoded_request_Ctx: "decoded_request (WithContext r (Ctx r')) key = decoded_request r' key"
  by (simp add: decoded_request_def)

lemma HostProxies_WithContext [simp]:
  "HostProxies_ProxyForRequest hbp (WithContext r ctx) = HostProxies_ProxyForRequest hbp r"
  by (simp add: HostProxies_ProxyForRequest_def)

text \<open>Routing looks at the host and the decoded request only.\<close>

lemma ProxyForRequest_cong:
  assumes "Host r = Host r'" and "decoded_request r DecodedRequestContextKey = decoded_request r' DecodedRequestContextKey"
  shows "ProxyForRequest newInt p r = ProxyForRequest newInt p r'"
proof -
  have host: "HostProxies_ProxyForRequest hbp r = HostProxies_ProxyForRequest hbp r'" for hbp
    using assms(1) by (simp add: HostProxies_ProxyForRequest_def)
  show ?thesis
    by (induction p) (simp_all only: ProxyForRequest.simps Pruning_ProxyForRequest_def host assms)
qed

definition proxied_request ::
  "('n, 'h) Externals \<Rightarrow> Config \<Rightarrow> 's World \<Rightarrow> ProxyMetadata \<Rightarrow> bytes \<Rightarrow> Request \<Rightarrow> Request" where
  "proxied_request x config W md body r =
     WithContext (prepared r)
       (enrich_context config (header_values (ReqHeader r) LoadBalancerForwardedForHeaderKey)
         (duration_Milliseconds (time_Since (x_clock x (w_clock W + 1)) (x_clock x (w_clock W)))) md body (prepared r))"

lemma proxy_hit:
  assumes "decoded_request r DecodedRequestContextKey = Some d"
    and "ProxyForRequest (x_newInt x) (NewProxies config) r = Ok (proxy, md, True)"
    and "cached_response config (Ctx r) = Some response"
  shows "createProxyRequestMiddleware x next config [] interceptors W w r =
    (case next (tick 2 W) (new_body_saver x (serve_cached config r response w) interceptors)
        (proxied_request x config W md [] r) of
       (W, lrw, p) \<Rightarrow> (W, bs_inner lrw, p))"
  using assms
  by (simp add: createProxyRequestMiddleware_def new_body_saver_def serve_cached_def proxied_request_def time_Now_def
      tick_def Let_def)

definition miss_header :: "Header \<Rightarrow> Header \<Rightarrow> Header" where
  "miss_header reply h = copyHeader reply (Header_Add CacheHeaderKey CacheMissHeaderValue h)"

text \<open>The response to the client when a backend answers: its headers, status and body.\<close>

definition relayed :: "int \<Rightarrow> Header \<Rightarrow> bytes list \<Rightarrow> ResponseWriter \<Rightarrow> ResponseWriter" where
  "relayed status header parts w = fold w_Write parts (w_WriteHeader status (w_change_header (miss_header header) w))"

lemma w_change_header_twice [simp]: "w_change_header f (w_change_header g w) = w_change_header (\<lambda>h. f (g h)) w"
  by (cases w) simp_all

lemma proxy_miss:
  assumes "negroni_ok (x_negroni x)"
    and "decoded_request r DecodedRequestContextKey = Some d"
    and "ProxyForRequest (x_newInt x) (NewProxies config) r = Ok (Some (ReverseProxy target), md, True)"
    and "cached_response config (Ctx r) = None"
    and "x_backend x (length (w_calls W)) target (prepared r) = Reply status header parts False" and "status \<noteq> 0"
  shows "\<exists>lrw. bs_inner lrw = relayed status header parts w \<and> bs_body lrw = concat parts \<and>
    createProxyRequestMiddleware x next config [] [] W w r =
    (case next (tick 2 (W\<lparr>w_calls := w_calls W @ [(target, prepared r)]\<rparr>)) lrw
        (proxied_request x config W md (concat parts) r) of
       (W, lrw, p) \<Rightarrow> (W, bs_inner lrw, p))"
proof -
  let ?lrw = "bs_change_header (Header_Add CacheHeaderKey CacheMissHeaderValue) (new_body_saver x w [])"
  obtain W1 lrw1 pn where serve: "proxy_ServeHTTP x (ReverseProxy target) (tick 1 W) ?lrw (prepared r) = (W1, lrw1, pn)"
    by (metis prod_cases3)
  have i: "bs_interceptors ?lrw = []" "bs_body ?lrw = []"
    "bs_inner ?lrw = w_change_header (Header_Add CacheHeaderKey CacheMissHeaderValue) w"
    by (simp_all add: bs_change_header_def new_body_saver_def)
  have b: "x_backend x (length (w_calls (tick 1 W))) (proxy_target (ReverseProxy target)) (prepared r) = Reply status header parts False"
    using assms(5) by simp
  note out = proxy_ServeHTTP_reply [OF assms(1,6) i(1) b serve]
  have "bs_inner lrw1 = relayed status header parts w" "bs_body lrw1 = concat parts"
    using out(3,4) i by (simp_all add: relayed_def miss_header_def [abs_def])
  moreover have "createProxyRequestMiddleware x next config [] [] W w r =
    (case next (tick 2 (W\<lparr>w_calls := w_calls W @ [(target, prepared r)]\<rparr>)) lrw1
        (proxied_request x config W md (bs_body lrw1) r) of
       (W, lrw, p) \<Rightarrow> (W, bs_inner lrw, p))"
    using assms(2-4) serve out(1,2)
    by (simp add: createProxyRequestMiddleware_def proxied_request_def time_Now_def tick_def Let_def)
  ultimately show ?thesis by (intro exI [of _ lrw1]) simp
qed

section \<open>The context after proxying\<close>

lemma enrich_context_values:
  "Value (enrich_context config ips latency md body r) ProxyMetadataContextKey = Some (CtxProxyMetadata md)"
  "Value (enrich_context config ips latency md body r) OriginRoundtripLatencyMillisecondsKey = Some (CtxInt64 latency)"
  "ctx_string (enrich_context config ips latency md body r) RequestHostnameContextKey = Some (Host r)"
  "ctx_string (enrich_context config ips latency md body r) RequestIPContextKey =
     Some (if length ips = 1 then hd ips else hd (strings_Split (RemoteAddr r) CHR '':''))"
  "ctx_string (enrich_context config ips latency md body r) RequestUserAgentContextKey =
     Some (single_value (ReqHeader r) UserAgentHeaderkey DefaultAnonymousUserAgent)"
  "ctx_string (enrich_context config ips latency md body r) RequestRefererContextKey =
     Some (single_value (ReqHeader r) RefererHeaderKey (''http://'' @ hd (strings_Split (RemoteAddr r) CHR '':'')))"
  "ctx_string (enrich_context config ips latency md body r) RequestOriginContextKey =
     Some (single_value (ReqHeader r) OriginHeaderKey (''http://'' @ hd (strings_Split (RemoteAddr r) CHR '':'')))"
  "CacheEnabled config \<Longrightarrow> Value (enrich_context config ips latency md body r) ResponseContextKey = Some (CtxBytes body)"
  by (simp_all add: enrich_context_def ctx_string_def Let_def context_keys)

lemma enrich_context_kept:
  assumes "key \<in> {DecodedRequestContextKey, DecodedBatchRequestContextKey, RequestStartTimeContextKey, CachedContextKey}"
  shows "Value (enrich_context config ips latency md body r) key = Value (Ctx r) key"
  using assms by (auto simp: enrich_context_def Let_def context_keys)

lemma enrich_context_cached [simp]:
  "IsRequestCached (enrich_context config ips latency md body r) = IsRequestCached (Ctx r)"
  "IsBatchContext (enrich_context config ips latency md body r) DecodedBatchRequestContextKey =
     IsBatchContext (Ctx r) DecodedBatchRequestContextKey"
  "decoded_request (WithContext r' (enrich_context config ips latency md body r)) DecodedRequestContextKey =
     decoded_request r DecodedRequestContextKey"
  by (simp_all add: IsRequestCached_def IsBatchContext_def decoded_request_def enrich_context_kept)

lemma proxied_request_context [simp]:
  "IsRequestCached (Ctx (proxied_request x config W md body r)) = IsRequestCached (Ctx r)"
  "decoded_request (proxied_request x config W md body r) DecodedRequestContextKey = decoded_request r DecodedRequestContextKey"
  "CacheEnabled config \<Longrightarrow> Value (Ctx (proxied_request x config W md body r)) ResponseContextKey = Some (CtxBytes body)"
  by (simp_all add: proxied_request_def enrich_context_values) (simp add: decoded_request_def)

section \<open>After the proxy\<close>

lemma finalizer_keeps:
  assumes "createAfterProxyFinalizer x config W w r = (W', w', p)"
  shows "w' = w" "w_cache W' = w_cache W" "w_calls W' = w_calls W" "w_clock W' = w_clock W"
  using assms by (auto simp: createAfterProxyFinalizer_def split: if_splits result.splits option.splits)

lemma finalizer_records:
  assumes "createAfterProxyFinalizer x config W w r = (W', w', p)" and "metric_of_context x (Ctx r) = Ok (Some m)"
  shows "p = None \<and> w_metrics W' = w_metrics W @ (if MetricCollectionEnabled config then [m] else [])"
  using assms by (auto simp: createAfterProxyFinalizer_def split: if_splits)

lemma finalizer_panics:
  assumes "createAfterProxyFinalizer x config W w r = (W', w', Some pn)"
    and "decoded_request r DecodedRequestContextKey = Some (Some e)"
  shows "MetricCollectionEnabled config \<and>
    (\<exists>pn. ExtractBlockNumberFromEVMRPCRequest (x_newInt x) (x_hexToHash x) (x_headerByHash x) e = Panic pn)"
  using assms by (auto simp: createAfterProxyFinalizer_def metric_of_context_def decoded_request_def
      split: if_splits result.splits option.splits ctxval.splits)

lemma after_proxy_hit:
  assumes "decodedRequestContextKey c = DecodedRequestContextKey"
    and "decoded_request r DecodedRequestContextKey = Some (Some e)"
    and "IsCacheable (x_newInt x) (Some e) = Ok b" and "IsRequestCached (Ctx r)"
  shows "cacheAfterProxyMiddleware x config c W lrw r = createAfterProxyFinalizer x config W lrw r"
  using assms by (auto simp: cacheAfterProxyMiddleware_def CachingMiddleware_def Let_def split: option.split ctxval.split)

lemma after_proxy_miss:
  assumes "cacheEnabled c" and "decodedRequestContextKey c = DecodedRequestContextKey"
    and "decoded_request r DecodedRequestContextKey = Some (Some e)"
    and "IsCacheable (x_newInt x) (Some e) = Ok b" and "\<not> IsRequestCached (Ctx r)"
    and "Value (Ctx r) ResponseContextKey = Some (CtxBytes body)"
  shows "cacheAfterProxyMiddleware x config c W lrw r =
    (if b then createAfterProxyFinalizer x config
       (tick 2 (W\<lparr>w_cache := fst (CacheQueryResponse (x_fnum x) (x_newInt x) c (w_cache W) (cache_now x W) (Some e) body
          (getHeadersToCache (bs_Header lrw) (whitelistedHeaders c) []))\<rparr>)) lrw r
     else createAfterProxyFinalizer x config W lrw r)"
proof -
  have "snd (CacheQueryResponse fnum newInt c s now (Some e) body hm) \<noteq> Panic p"
    if "IsCacheable newInt (Some e) = Ok True" for fnum newInt s now hm p
    by (cases rule: CacheQueryResponse_cases [of fnum newInt c s now "Some e" body hm])
       (use that IsCacheable_GetTTL [of newInt e c] in
         \<open>auto simp: CacheQueryResponse_def GetQueryKey_Ok Let_def split: result.splits if_splits prod.splits option.splits\<close>)
  then have "b \<Longrightarrow> CacheQueryResponse (x_fnum x) (x_newInt x) c s now (Some e) body hm \<noteq> (s', Panic p)" for s now hm s' p
    using assms(4) by (metis (full_types) snd_conv)
  then show ?thesis using assms
    by (auto simp: cacheAfterProxyMiddleware_def CachingMiddleware_def Let_def split: prod.splits result.splits)
qed

section \<open>Headers of a cached response\<close>

lemma add_cached_header_keeps: "Header_Get h k \<noteq> [] \<Longrightarrow> Header_Get (add_cached_header kv h) k = Header_Get h k"
  by (cases kv) (auto simp: add_cached_header_def Header_Get_def Header_Set_def)

lemma add_cached_headers_keep: "Header_Get h k \<noteq> [] \<Longrightarrow> Header_Get (fold add_cached_header kvs h) k = Header_Get h k"
  by (induction kvs arbitrary: h) (auto simp: add_cached_header_keeps)

lemma canonical_names:
  "canonical_key CacheHeaderKey = ''X-Kava-Proxy-Cache-Status''" "canonical_key ''Content-Type'' = ''Content-Type''"
  "canonical_key ''Access-Control-Allow-Origin'' = ''Access-Control-Allow-Origin''"
  by (simp_all add: CacheHeaderKey_def canonical_key_def header_token_def header_case_def)

lemma cached_headers_hit: "Header_Get (cached_headers config host response h) CacheHeaderKey = CacheHitHeaderValue"
proof -
  let ?h1 = "Header_Set ''Content-Type'' ''application/json'' (Header_Set CacheHeaderKey CacheHitHeaderValue h)"
  have "Header_Get ?h1 CacheHeaderKey = CacheHitHeaderValue" by (simp add: canonical_names)
  then have "Header_Get (fold add_cached_header (HeaderMap response) ?h1) CacheHeaderKey = CacheHitHeaderValue"
    using add_cached_headers_keep [of ?h1 CacheHeaderKey] by (simp add: CacheHitHeaderValue_def)
  then show ?thesis by (simp add: cached_headers_def canonical_names Let_def)
qed

lemma serve_cached_response:
  "w_body (serve_cached config r response w) = w_body w @ JsonRpcResponseResult response"
  "Header_Get (w_Header (serve_cached config r response w)) CacheHeaderKey = CacheHitHeaderValue"
  by (simp_all add: serve_cached_def cached_headers_hit)

lemma serve_cached_status:
  "sent_head v = None \<Longrightarrow> \<exists>v'. serve_cached config r response (Server v) = Server v' \<and>
     sent_head v' = Some (StatusOK, live_header v') \<and> sent_body v' = sent_body v @ JsonRpcResponseResult response"
  by (simp add: serve_cached_def server_Write_def server_WriteHeader_def StatusOK_def Let_def)

section \<open>A single request through the chain\<close>

text \<open>How the service cache is set up by \<^verbatim>\<open>service.New\<close>.\<close>

definition cache_wired :: "Config \<Rightarrow> 's ServiceCache \<Rightarrow> bool" where
  "cache_wired config c \<longleftrightarrow>
     decodedRequestContextKey c = DecodedRequestContextKey \<and> cacheEnabled c = CacheEnabled config \<and>
     whitelistedHeaders c = WhitelistedHeaders config \<and> cachePrefix c = CachePrefix config"

lemma cached_response_marks:
  "cached_response config (WithValue (WithValue ctx CachedContextKey (CtxBool True)) ResponseContextKey (CtxQueryResponse qr)) =
     (if CacheEnabled config then Some qr else None)"
  "cached_response config (WithValue ctx CachedContextKey (CtxBool False)) = None"
  by (auto simp: cached_response_def IsRequestCached_def cache_names split: option.split ctxval.split)

lemma GetCached_Ok_cacheable:
  "GetCachedQueryResponse newInt c s now (Some e) = (s', Ok qr) \<Longrightarrow> IsCacheable newInt (Some e) = Ok True"
  by (auto simp: GetCachedQueryResponse_def split: result.splits if_splits)

text \<open>The request behind the lookup: marked as found, with the response, or marked as not found.\<close>

abbreviation found_request :: "QueryResponse \<Rightarrow> Request \<Rightarrow> Request" where
  "found_request qr r \<equiv>
     WithContext r (WithValue (WithValue (Ctx r) CachedContextKey (CtxBool True)) ResponseContextKey (CtxQueryResponse qr))"

abbreviation missed_request :: "Request \<Rightarrow> Request" where
  "missed_request r \<equiv> WithContext r (WithValue (Ctx r) CachedContextKey (CtxBool False))"

lemma hit_chain:
  assumes "cache_wired config c" and "CacheEnabled config"
    and "decoded_request r DecodedRequestContextKey = Some (Some e)"
    and "GetCachedQueryResponse (x_newInt x) c (w_cache W) (cache_now x W) (Some e) = (s', Ok qr)"
    and "ProxyForRequest (x_newInt x) (NewProxies config) r = Ok (proxy, md, True)"
    and "cacheMiddleware x config c W w r = (W', w', p)"
  shows "w' = serve_cached config r qr w" "w_calls W' = w_calls W" "w_cache W' = s'"
    "p \<noteq> None \<Longrightarrow> MetricCollectionEnabled config \<and>
      (\<exists>pn. ExtractBlockNumberFromEVMRPCRequest (x_newInt x) (x_hexToHash x) (x_headerByHash x) e = Panic pn)"
    "metric_of_context x (Ctx (proxied_request x config (tick 2 (W\<lparr>w_cache := s'\<rparr>)) md [] (found_request qr r))) = Ok (Some m) \<Longrightarrow>
      p = None \<and> w_metrics W' = w_metrics W @ (if MetricCollectionEnabled config then [m] else [])"
proof -
  let ?r = "found_request qr r"
  let ?W = "tick 2 (W\<lparr>w_cache := s'\<rparr>)"
  have dec: "decoded_request ?r DecodedRequestContextKey = Some (Some e)"
    using assms(3) by (simp add: context_keys decoded_request_Ctx [of r r])
  have route: "ProxyForRequest (x_newInt x) (NewProxies config) ?r = Ok (proxy, md, True)"
    using assms(5) ProxyForRequest_cong [of ?r r] dec assms(3) by simp
  have cr: "cached_response config (Ctx ?r) = Some qr" using assms(2) by (simp add: cached_response_marks)
  have "cacheMiddleware x config c W w r = proxyMiddleware x config c ?W w ?r"
    using assms(1-4) by (simp add: cacheMiddleware_def IsCachedMiddleware_def cache_wired_def Let_def)
  then have out: "(W', w', p) = (case cacheAfterProxyMiddleware x config c (tick 2 ?W) (new_body_saver x (serve_cached config ?r qr w) [])
      (proxied_request x config ?W md [] ?r) of (W, lrw, p) \<Rightarrow> (W, bs_inner lrw, p))"
    using assms(6) proxy_hit [OF dec route cr, of "cacheAfterProxyMiddleware x config c" "[]" ?W w]
    by (simp add: proxyMiddleware_def)
  have "IsRequestCached (Ctx ?r)" by (simp add: IsRequestCached_def cache_names)
  then have "cacheAfterProxyMiddleware x config c V lrw (proxied_request x config ?W md [] ?r) =
      createAfterProxyFinalizer x config V lrw (proxied_request x config ?W md [] ?r)" for V lrw
    using after_proxy_hit [of c "proxied_request x config ?W md [] ?r" e x True config V lrw] assms(1) dec
      GetCached_Ok_cacheable [OF assms(4)] by (simp add: cache_wired_def)
  then obtain lrw where fin: "createAfterProxyFinalizer x config (tick 2 ?W) (new_body_saver x (serve_cached config ?r qr w) [])
      (proxied_request x config ?W md [] ?r) = (W', lrw, p)" "w' = bs_inner lrw"
    using out by (auto split: prod.splits)
  note k = finalizer_keeps [OF fin(1)]
  show "w' = serve_cached config r qr w" "w_calls W' = w_calls W" "w_cache W' = s'"
    using k fin(2) by (simp_all add: new_body_saver_def serve_cached_def)
  show "p \<noteq> None \<Longrightarrow> MetricCollectionEnabled config \<and>
      (\<exists>pn. ExtractBlockNumberFromEVMRPCRequest (x_newInt x) (x_hexToHash x) (x_headerByHash x) e = Panic pn)"
    using finalizer_panics fin(1) dec by (metis not_Some_eq proxied_request_context(2))
  show "metric_of_context x (Ctx (proxied_request x config ?W md [] ?r)) = Ok (Some m) \<Longrightarrow>
      p = None \<and> w_metrics W' = w_metrics W @ (if MetricCollectionEnabled config then [m] else [])"
    using finalizer_records [OF fin(1)] by simp
qed

lemma GetCached_Err_cacheable:
  "GetCachedQueryResponse newInt c s now (Some e) = (s', Err err) \<Longrightarrow> \<exists>b. IsCacheable newInt (Some e) = Ok b"
  by (auto simp: GetCachedQueryResponse_def IsCacheable_def split: result.splits if_splits)

text \<open>The request as a backend sees it when it was not found in the cache.\<close>

definition forwarded :: "Request \<Rightarrow> Request" where
  "forwarded r = prepared (missed_request r)"

lemma bs_Header_inner: "bs_Header lrw = w_Header (bs_inner lrw)"
  by (simp add: bs_Header_def)

lemma miss_chain:
  assumes "negroni_ok (x_negroni x)" and "cache_wired config c" and "CacheEnabled config"
    and "decoded_request r DecodedRequestContextKey = Some (Some e)"
    and "GetCachedQueryResponse (x_newInt x) c (w_cache W) (cache_now x W) (Some e) = (s', Err err)"
    and "ProxyForRequest (x_newInt x) (NewProxies config) r = Ok (Some (ReverseProxy target), md, True)"
    and "x_backend x (length (w_calls W)) target (forwarded r) = Reply status header parts False" and "status \<noteq> 0"
    and "cacheMiddleware x config c W w r = (W', w', p)"
  shows "w' = relayed status header parts w" "w_calls W' = w_calls W @ [(target, forwarded r)]"
    "w_cache W' = (if IsCacheable (x_newInt x) (Some e) = Ok True
       then fst (CacheQueryResponse (x_fnum x) (x_newInt x) c s' (\<lambda>i. x_clock x (w_clock W + 4 + i)) (Some e) (concat parts)
         (getHeadersToCache (w_Header w') (WhitelistedHeaders config) []))
       else s')"
    "w_clock W' = w_clock W + (if IsCacheable (x_newInt x) (Some e) = Ok True then 6 else 4)"
    "metric_of_context x (Ctx (proxied_request x config (tick 2 (W\<lparr>w_cache := s'\<rparr>)) md (concat parts) (missed_request r))) =
      Ok (Some m) \<Longrightarrow> p = None \<and> w_metrics W' = w_metrics W @ (if MetricCollectionEnabled config then [m] else [])"
proof -
  let ?r = "missed_request r"
  let ?W = "tick 2 (W\<lparr>w_cache := s'\<rparr>)"
  let ?q = "proxied_request x config ?W md (concat parts) ?r"
  let ?W2 = "tick 2 (?W\<lparr>w_calls := w_calls ?W @ [(target, prepared ?r)]\<rparr>)"
  have dec: "decoded_request ?r DecodedRequestContextKey = Some (Some e)"
    using assms(4) by (simp add: context_keys decoded_request_Ctx [of r r])
  have route: "ProxyForRequest (x_newInt x) (NewProxies config) ?r = Ok (Some (ReverseProxy target), md, True)"
    using assms(6) ProxyForRequest_cong [of ?r r] dec assms(4) by simp
  have cr: "cached_response config (Ctx ?r) = None" by (simp add: cached_response_marks)
  have reply: "x_backend x (length (w_calls ?W)) target (prepared ?r) = Reply status header parts False"
    using assms(7) by (simp add: forwarded_def)
  obtain b where b: "IsCacheable (x_newInt x) (Some e) = Ok b" using GetCached_Err_cacheable [OF assms(5)] by blast
  have "cacheMiddleware x config c W w r = proxyMiddleware x config c ?W w ?r"
    using assms(2-5) by (simp add: cacheMiddleware_def IsCachedMiddleware_def cache_wired_def Let_def)
  then obtain lrw where lrw: "bs_inner lrw = relayed status header parts w"
    and out: "(W', w', p) = (case cacheAfterProxyMiddleware x config c ?W2 lrw ?q of (W, lrw, p) \<Rightarrow> (W, bs_inner lrw, p))"
    using assms(9) proxy_miss [OF assms(1) dec route cr reply assms(8), of w "cacheAfterProxyMiddleware x config c"]
    by (auto simp: proxyMiddleware_def)
  have nc: "\<not> IsRequestCached (Ctx ?r)" by (simp add: IsRequestCached_def)
  have now: "cache_now x ?W2 = (\<lambda>i. x_clock x (w_clock W + 4 + i))" by (simp add: cache_now_def fun_eq_iff eval_nat_numeral)
  let ?W3 = "if b then tick 2 (?W2\<lparr>w_cache := fst (CacheQueryResponse (x_fnum x) (x_newInt x) c s'
      (\<lambda>i. x_clock x (w_clock W + 4 + i)) (Some e) (concat parts)
      (getHeadersToCache (w_Header (bs_inner lrw)) (WhitelistedHeaders config) []))\<rparr>) else ?W2"
  have "cacheAfterProxyMiddleware x config c ?W2 lrw ?q = createAfterProxyFinalizer x config ?W3 lrw ?q"
    using after_proxy_miss [of c ?q e x b "concat parts" config ?W2 lrw] assms(2,3) dec b nc now
    by (simp add: cache_wired_def bs_Header_inner)
  then obtain lrw' where fin: "createAfterProxyFinalizer x config ?W3 lrw ?q = (W', lrw', p)" "w' = bs_inner lrw'"
    using out by (auto split: prod.splits)
  note k = finalizer_keeps [OF fin(1)]
  show w': "w' = relayed status header parts w" using k(1) fin(2) lrw by simp
  show "w_calls W' = w_calls W @ [(target, forwarded r)]" using k(3) by (simp add: forwarded_def)
  show "w_cache W' = (if IsCacheable (x_newInt x) (Some e) = Ok True
       then fst (CacheQueryResponse (x_fnum x) (x_newInt x) c s' (\<lambda>i. x_clock x (w_clock W + 4 + i)) (Some e) (concat parts)
         (getHeadersToCache (w_Header w') (WhitelistedHeaders config) [])) else s')"
    using k(2) b w' lrw by (simp split: if_splits)
  show "w_clock W' = w_clock W + (if IsCacheable (x_newInt x) (Some e) = Ok True then 6 else 4)"
    using k(4) b by simp
  show "metric_of_context x (Ctx ?q) = Ok (Some m) \<Longrightarrow>
      p = None \<and> w_metrics W' = w_metrics W @ (if MetricCollectionEnabled config then [m] else [])"
    using finalizer_records [OF fin(1)] by (simp split: if_splits)
qed

lemma w_Writes_body: "w_body (fold w_Write parts w) = w_body w @ concat parts"
  by (rule rw.contents_puts)

lemma relayed_body: "w_body (relayed status header parts w) = w_body w @ concat parts"
  by (simp add: relayed_def w_Writes_body)

lemma relayed_header: "w_Header (relayed status header parts w) = miss_header header (w_Header w)"
  by (simp add: relayed_def rw.hdr_puts)

lemma server_Write_sent: "sent_head v = Some h \<Longrightarrow> sent_head (server_Write b v) = Some h"
  by (simp add: server_Write_def Let_def)

lemma relayed_status:
  assumes "sent_head v = None" and "200 \<le> status"
  shows "\<exists>v'. relayed status header parts (Server v) = Server v' \<and> sent_head v' = Some (status, miss_header header (live_header v))"
proof -
  have "\<exists>v'. fold w_Write parts (Server u) = Server v' \<and> sent_head v' = Some h" if "sent_head u = Some h" for u h
    using that by (induction parts arbitrary: u) (auto simp: server_Write_sent)
  then show ?thesis using assms by (simp add: relayed_def server_WriteHeader_def)
qed

section \<open>Properties\<close>

text \<open>C9: A cache hit is answered from the cache alone. No backend is contacted and nothing is stored; the body
  is the cached response, the status 200, the cache header says HIT and goes out with the
  response.\<close>

theorem cache_hit_served:
  assumes "cache_wired config c" and "CacheEnabled config"
    and "decoded_request r DecodedRequestContextKey = Some (Some e)"
    and "GetCachedQueryResponse (x_newInt x) c (w_cache W) (cache_now x W) (Some e) = (s', Ok qr)"
    and "ProxyForRequest (x_newInt x) (NewProxies config) r = Ok (proxy, md, True)"
    and "cacheMiddleware x config c W (Server new_response) r = (W', w', p)"
  shows "w_calls W' = w_calls W \<and> w_cache W' = s' \<and>
    (\<exists>v. w' = Server v \<and> sent_body v = JsonRpcResponseResult qr \<and> sent_head v = Some (StatusOK, live_header v) \<and>
      Header_Get (live_header v) CacheHeaderKey = CacheHitHeaderValue)"
proof -
  note h = hit_chain [OF assms]
  obtain v where v: "w' = Server v" "sent_head v = Some (StatusOK, live_header v)" "sent_body v = JsonRpcResponseResult qr"
    using h(1) serve_cached_status [of new_response config r qr] by (auto simp: new_response_def)
  moreover have "Header_Get (w_Header w') CacheHeaderKey = CacheHitHeaderValue"
    using h(1) serve_cached_response(2) by simp
  ultimately show ?thesis using h(2,3) by auto
qed

text \<open>C10: A cache miss is forwarded once, to the backend the router chose, and the client gets the backend's
  status and body, with its headers and the header MISS; the request as forwarded is in the
  log. The body is then offered to the cache with the whitelisted headers of the response, at the
  time read after the answer, exactly when the request is of a cacheable kind.\<close>

theorem cache_miss_forwarded:
  assumes "negroni_ok (x_negroni x)" and "cache_wired config c" and "CacheEnabled config"
    and "decoded_request r DecodedRequestContextKey = Some (Some e)"
    and "GetCachedQueryResponse (x_newInt x) c (w_cache W) (cache_now x W) (Some e) = (s', Err err)"
    and "ProxyForRequest (x_newInt x) (NewProxies config) r = Ok (Some (ReverseProxy target), md, True)"
    and "x_backend x (length (w_calls W)) target (forwarded r) = Reply status header parts False" and "200 \<le> status"
    and "cacheMiddleware x config c W (Server new_response) r = (W', w', p)"
  shows "w_calls W' = w_calls W @ [(target, forwarded r)] \<and>
    (\<exists>v. w' = Server v \<and> sent_body v = concat parts \<and>
      sent_head v = Some (status, copyHeader header [(''X-Kava-Proxy-Cache-Status'', [''MISS''])])) \<and>
    w_cache W' = (if IsCacheable (x_newInt x) (Some e) = Ok True
      then fst (CacheQueryResponse (x_fnum x) (x_newInt x) c s' (\<lambda>i. x_clock x (w_clock W + 4 + i)) (Some e) (concat parts)
        (getHeadersToCache (copyHeader header [(''X-Kava-Proxy-Cache-Status'', [''MISS''])]) (WhitelistedHeaders config) []))
      else s')"
proof -
  have "status \<noteq> 0" using assms(8) by simp
  note m = miss_chain [OF assms(1-7) this assms(9)]
  obtain v where v: "w' = Server v" "sent_head v = Some (status, miss_header header [])"
    using m(1) relayed_status [of new_response status header parts] assms(8) by (auto simp: new_response_def)
  moreover have "w_body w' = concat parts" using m(1) by (simp add: relayed_body new_response_def)
  moreover have "Header_Add CacheHeaderKey CacheMissHeaderValue [] = [(''X-Kava-Proxy-Cache-Status'', [''MISS''])]"
    by (simp add: Header_Add_def canonical_names header_values_def CacheMissHeaderValue_def)
  moreover have "w_Header w' = miss_header header []" using m(1) by (simp add: relayed_header new_response_def)
  ultimately show ?thesis using m(2,3) by (simp add: miss_header_def)
qed

text \<open>C28: A request for a host without a backend is answered 502 with an explanation; nothing is forwarded, no
  metric is recorded and nothing is stored, whether or not the cache is used.\<close>

theorem unroutable_host_rejected:
  assumes "cache_wired config c" and "decoded_request r DecodedRequestContextKey = Some (Some e)"
    and "ProxyForRequest (x_newInt x) (NewProxies config) r = Ok (proxy, md, False)"
    and "\<And>p. IsCacheable (x_newInt x) (Some e) \<noteq> Panic p"
    and "cacheMiddleware x config c W (Server new_response) r = (W', w', p)"
    and "\<And>s now k q. snd (cache_Get (cacheClient c) s now k) \<noteq> Panic q"
  shows "p = None \<and> w_calls W' = w_calls W \<and> w_metrics W' = w_metrics W \<and>
    (w_cache W' = w_cache W \<or> w_cache W' = fst (GetCachedQueryResponse (x_newInt x) c (w_cache W) (cache_now x W) (Some e))) \<and>
    (\<exists>v. w' = Server v \<and> sent_head v = Some (502, []) \<and> sent_body v = ''no proxy backend configured for request host'')"
proof -
  let ?body = "''no proxy backend configured for request host''"
  have reject: "proxyMiddleware x config c V w r' = (tick 1 V, w_Write ?body (w_WriteHeader StatusBadGateway w), None)"
    if "decoded_request r' DecodedRequestContextKey = Some (Some e)" "Host r' = Host r" for V w r'
  proof -
    have "ProxyForRequest (x_newInt x) (NewProxies config) r' = Ok (proxy, md, False)"
      using assms(3) ProxyForRequest_cong [of r' r] that assms(2) by simp
    then show ?thesis using that(1) by (simp add: proxyMiddleware_def createProxyRequestMiddleware_def Let_def)
  qed
  have w502: "\<exists>v. w_Write ?body (w_WriteHeader StatusBadGateway (Server new_response)) = Server v \<and>
      sent_head v = Some (502, []) \<and> sent_body v = ?body"
    by (simp add: writer_defs status_codes Let_def)
  show ?thesis
  proof (cases "CacheEnabled config")
    case False
    then have "cacheMiddleware x config c W (Server new_response) r = proxyMiddleware x config c W (Server new_response) r"
      using assms(1) by (simp add: cacheMiddleware_def IsCachedMiddleware_def cache_wired_def)
    then show ?thesis using reject [OF assms(2) refl] assms(5) w502 by auto
  next
    case True
    obtain s' res where g: "GetCachedQueryResponse (x_newInt x) c (w_cache W) (cache_now x W) (Some e) = (s', res)"
      by (metis surj_pair)
    have np: "res \<noteq> Panic q" for q
      using g assms(4,6)
      by (auto simp: GetCachedQueryResponse_def GetQueryKey_Ok restore_response_def Let_def
          split: result.splits if_splits prod.splits option.splits) (metis snd_conv)
    have "\<exists>ctx. cacheMiddleware x config c W (Server new_response) r =
        proxyMiddleware x config c (tick 2 (W\<lparr>w_cache := s'\<rparr>)) (Server new_response) (WithContext r ctx) \<and>
        decoded_request (WithContext r ctx) DecodedRequestContextKey = Some (Some e)"
      using g np True assms(1,2)
      by (cases res) (auto simp: cacheMiddleware_def IsCachedMiddleware_def cache_wired_def context_keys
          decoded_request_Ctx [of r r] Let_def intro!: exI)
    then obtain ctx where c: "cacheMiddleware x config c W (Server new_response) r =
        proxyMiddleware x config c (tick 2 (W\<lparr>w_cache := s'\<rparr>)) (Server new_response) (WithContext r ctx)"
      "decoded_request (WithContext r ctx) DecodedRequestContextKey = Some (Some e)" by blast
    then show ?thesis using reject [OF c(2)] assms(5) w502 g by auto
  qed
qed

lemma prepared_header: "key \<noteq> LoadBalancerForwardedForHeaderKey \<Longrightarrow> header_values (ReqHeader (prepared r)) key = header_values (ReqHeader r) key"
proof -
  have "canonical_key LoadBalancerForwardedForHeaderKey = LoadBalancerForwardedForHeaderKey"
    by (simp add: LoadBalancerForwardedForHeaderKey_def canonical_key_def header_token_def header_case_def)
  then show "key \<noteq> LoadBalancerForwardedForHeaderKey \<Longrightarrow> header_values (ReqHeader (prepared r)) key = header_values (ReqHeader r) key"
    by (auto simp: intercept_body_def last_forwarded_for_def header_values_Set Let_def split: option.splits)
qed

lemma header_keys_differ:
  "RefererHeaderKey \<noteq> LoadBalancerForwardedForHeaderKey" "OriginHeaderKey \<noteq> LoadBalancerForwardedForHeaderKey"
  "UserAgentHeaderkey \<noteq> LoadBalancerForwardedForHeaderKey"
  by (simp_all add: RefererHeaderKey_def OriginHeaderKey_def UserAgentHeaderkey_def LoadBalancerForwardedForHeaderKey_def)

lemma single_value_prepared:
  "single_value (ReqHeader (prepared r)) RefererHeaderKey = single_value (ReqHeader r) RefererHeaderKey"
  "single_value (ReqHeader (prepared r)) OriginHeaderKey = single_value (ReqHeader r) OriginHeaderKey"
  "single_value (ReqHeader (prepared r)) UserAgentHeaderkey = single_value (ReqHeader r) UserAgentHeaderkey"
  using header_keys_differ by (simp_all add: single_value_def prepared_header fun_eq_iff)

lemma proxied_metric:
  assumes "decoded_request r DecodedRequestContextKey = Some (Some e)"
    and "Value (Ctx r) RequestStartTimeContextKey = Some (CtxTime start)"
    and "\<not> is_panic (ExtractBlockNumberFromEVMRPCRequest (x_newInt x) (x_hexToHash x) (x_headerByHash x) e)"
  shows "\<exists>m. metric_of_context x (Ctx (proxied_request x config W md body r)) = Ok (Some m) \<and>
    MethodName m = Method e \<and> RequestTime m = start \<and> Hostname m = Host r \<and>
    BlockNumber m = (case ExtractBlockNumberFromEVMRPCRequest (x_newInt x) (x_hexToHash x) (x_headerByHash x) e of
       Ok n \<Rightarrow> Some n | _ \<Rightarrow> None) \<and>
    ResponseLatencyMilliseconds m =
      duration_Milliseconds (time_Since (x_clock x (w_clock W + 1)) (x_clock x (w_clock W))) \<and>
    RequestIP m = (case header_values (ReqHeader r) LoadBalancerForwardedForHeaderKey of
       [ip] \<Rightarrow> ip | _ \<Rightarrow> hd (strings_Split (RemoteAddr r) CHR '':'')) \<and>
    UserAgent m = Some (single_value (ReqHeader r) UserAgentHeaderkey ''anon'') \<and>
    Referer m = Some (single_value (ReqHeader r) RefererHeaderKey (''http://'' @ hd (strings_Split (RemoteAddr r) CHR '':''))) \<and>
    Origin m = Referer m \<and>
    ResponseBackend m = BackendName md \<and> ResponseBackendRoute m = BackendRoute md \<and>
    CacheHit m = IsRequestCached (Ctx r) \<and> PartOfBatch m = IsBatchContext (Ctx r) DecodedBatchRequestContextKey"
proof -
  let ?ctx = "Ctx (proxied_request x config W md body r)"
  have d: "Value ?ctx DecodedRequestContextKey = Some (CtxRequest (Some e))"
    using assms(1) by (auto simp: proxied_request_def enrich_context_kept decoded_request_def split: option.splits ctxval.splits)
  have s: "Value ?ctx RequestStartTimeContextKey = Some (CtxTime start)"
    using assms(2) by (simp add: proxied_request_def enrich_context_kept)
  have ip: "(if length ips = 1 then hd ips else d) = (case ips of [ip] \<Rightarrow> ip | _ \<Rightarrow> d)" for ips :: "string list" and d
    by (cases ips) (auto split: list.splits)
  show ?thesis
    using d s assms(3)
    by (cases "ExtractBlockNumberFromEVMRPCRequest (x_newInt x) (x_hexToHash x) (x_headerByHash x) e")
       (simp_all add: metric_of_context_def proxied_request_def enrich_context_values single_value_prepared
         DefaultAnonymousUserAgent_def ip split: list.split)
qed

definition lookup_hit :: "('e, 'a) result \<Rightarrow> bool" where
  "lookup_hit res = (case res of Ok _ \<Rightarrow> True | _ \<Rightarrow> False)"

text \<open>The chain hands the finalizer a request whose metric is known, on a hit and on a miss.\<close>

definition backend_answers :: "('n, 'h) Externals \<Rightarrow> 's World \<Rightarrow> string \<Rightarrow> Request \<Rightarrow> bool" where
  "backend_answers x W target r =
     (case x_backend x (length (w_calls W)) target (forwarded r) of
        Reply status header parts failed \<Rightarrow> status \<noteq> 0 \<and> \<not> failed | _ \<Rightarrow> False)"

lemma chain_records:
  assumes "negroni_ok (x_negroni x)" and "cache_wired config c" and "CacheEnabled config"
    and "decoded_request r DecodedRequestContextKey = Some (Some e)"
    and "GetCachedQueryResponse (x_newInt x) c (w_cache W) (cache_now x W) (Some e) = (s', res)" and "\<not> is_panic res"
    and "ProxyForRequest (x_newInt x) (NewProxies config) r = Ok (Some (ReverseProxy target), md, True)"
    and "lookup_hit res \<or> backend_answers x W target r"
    and "cacheMiddleware x config c W w r = (W', w', p)"
  shows "\<exists>r' body. (r' = missed_request r \<and> \<not> lookup_hit res \<or> (\<exists>qr. r' = found_request qr r) \<and> lookup_hit res) \<and>
    (\<forall>m. metric_of_context x (Ctx (proxied_request x config (tick 2 (W\<lparr>w_cache := s'\<rparr>)) md body r')) = Ok (Some m) \<longrightarrow>
      p = None \<and> w_metrics W' = w_metrics W @ (if MetricCollectionEnabled config then [m] else []))"
proof (cases res)
  case (Ok qr)
  then show ?thesis using hit_chain(5) [OF assms(2-4) _ assms(7,9)] assms(5) by (fastforce simp: lookup_hit_def)
next
  case (Err err)
  then obtain status header parts where b: "x_backend x (length (w_calls W)) target (forwarded r) = Reply status header parts False"
    "status \<noteq> 0" using assms(8) by (auto simp: backend_answers_def lookup_hit_def split: backend_reply.splits)
  show ?thesis using miss_chain(5) [OF assms(1-4) _ assms(7) b assms(9)] assms(5) Err by (fastforce simp: lookup_hit_def)
next
  case (Panic q)
  then show ?thesis using assms(6) by simp
qed

text \<open>C29: Every answered request is recorded, once, when metrics are collected, and not otherwise, whether it was
  served from the cache or by a backend; the handler does not panic. The metric is given field by field: it
  says whether the cache was hit, and the latency is the time between the reading of the clock before the
  request is routed and the one after it is answered. Two fields are not what their names say: the origin is
  the value recorded as the referer, and a request with several forwarding addresses is recorded under the
  address of the connection.\<close>

theorem metric_of_proxied_request:
  assumes "negroni_ok (x_negroni x)" and "cache_wired config c" and "CacheEnabled config"
    and "decoded_request r DecodedRequestContextKey = Some (Some e)"
    and "GetCachedQueryResponse (x_newInt x) c (w_cache W) (cache_now x W) (Some e) = (s', res)" and "\<not> is_panic res"
    and "ProxyForRequest (x_newInt x) (NewProxies config) r = Ok (Some (ReverseProxy target), md, True)"
    and "lookup_hit res \<or> backend_answers x W target r"
    and "cacheMiddleware x config c W w r = (W', w', p)"
    and "Value (Ctx r) RequestStartTimeContextKey = Some (CtxTime start)"
    and "\<not> is_panic (ExtractBlockNumberFromEVMRPCRequest (x_newInt x) (x_hexToHash x) (x_headerByHash x) e)"
  shows "p = None \<and> (\<exists>m. w_metrics W' = w_metrics W @ (if MetricCollectionEnabled config then [m] else []) \<and>
    MethodName m = Method e \<and> RequestTime m = start \<and> Hostname m = Host r \<and>
    BlockNumber m = (case ExtractBlockNumberFromEVMRPCRequest (x_newInt x) (x_hexToHash x) (x_headerByHash x) e of
       Ok n \<Rightarrow> Some n | _ \<Rightarrow> None) \<and>
    ResponseLatencyMilliseconds m =
      duration_Milliseconds (time_Since (x_clock x (w_clock W + 3)) (x_clock x (w_clock W + 2))) \<and>
    RequestIP m = (case header_values (ReqHeader r) LoadBalancerForwardedForHeaderKey of
       [ip] \<Rightarrow> ip | _ \<Rightarrow> hd (strings_Split (RemoteAddr r) CHR '':'')) \<and>
    UserAgent m = Some (single_value (ReqHeader r) UserAgentHeaderkey ''anon'') \<and>
    Referer m = Some (single_value (ReqHeader r) RefererHeaderKey (''http://'' @ hd (strings_Split (RemoteAddr r) CHR '':''))) \<and>
    Origin m = Referer m \<and>
    ResponseBackend m = BackendName md \<and> ResponseBackendRoute m = BackendRoute md \<and>
    CacheHit m = lookup_hit res \<and> PartOfBatch m = IsBatchContext (Ctx r) DecodedBatchRequestContextKey)"
proof -
  let ?W = "tick 2 (W\<lparr>w_cache := s'\<rparr>)"
  obtain r' body where r': "r' = missed_request r \<and> \<not> lookup_hit res \<or> (\<exists>qr. r' = found_request qr r) \<and> lookup_hit res"
    and rec: "\<And>m. metric_of_context x (Ctx (proxied_request x config ?W md body r')) = Ok (Some m) \<Longrightarrow>
      p = None \<and> w_metrics W' = w_metrics W @ (if MetricCollectionEnabled config then [m] else [])"
    using chain_records [OF assms(1-9)] by blast
  have same: "decoded_request r' DecodedRequestContextKey = Some (Some e)" "Host r' = Host r" "ReqHeader r' = ReqHeader r"
    "Value (Ctx r') RequestStartTimeContextKey = Some (CtxTime start)" "RemoteAddr r' = RemoteAddr r"
    "IsBatchContext (Ctx r') DecodedBatchRequestContextKey = IsBatchContext (Ctx r) DecodedBatchRequestContextKey"
    "IsRequestCached (Ctx r') = lookup_hit res"
    using r' assms(4,10)
    by (auto simp: IsRequestCached_def IsBatchContext_def context_keys decoded_request_Ctx [of r r])
  have clk: "w_clock ?W = w_clock W + 2" "w_clock W + 2 + 1 = w_clock W + 3" by simp_all
  show ?thesis
    using proxied_metric [OF same(1,4) assms(11), of config ?W md body, unfolded clk same(2,3,5-7)]
    by (elim exE conjE) (rule conjI [OF rec [THEN conjunct1]], assumption, intro exI conjI, rule rec [THEN conjunct2], assumption+)
qed

text \<open>An environment for the examples: a backend that answers every request, and a clock.\<close>

definition sample_negroni :: "int negroni" where
  "sample_negroni =
     \<lparr>neg_New = 0, neg_WriteHeader = (\<lambda>c (n, w). (c, w_WriteHeader c w)),
      neg_Write = (\<lambda>b (n, w). (n, w_Write b w)), neg_Written = (\<lambda>n. n \<noteq> 0), neg_Status = (\<lambda>n. n)\<rparr>"

lemma sample_negroni_ok: "negroni_ok sample_negroni"
  by (simp add: negroni_ok_def sample_negroni_def)

definition sample_externals :: "(int, string) Externals" where
  "sample_externals =
     \<lparr>x_clock = (\<lambda>n. int n * 50), x_backend = (\<lambda>n u r. Reply 200 [] [sample_body] False), x_newInt = newInt_decimal,
      x_fnum = sample_num, x_hexToHash = (\<lambda>s. s), x_headerByHash = (\<lambda>h. Inl ''not found''), x_negroni = sample_negroni\<rparr>"

definition sample_config :: Config where
  "sample_config = (ReadConfig Some sample_env)\<lparr>CacheEnabled := True, MetricCollectionEnabled := True\<rparr>"

definition sample_service_cache :: "InMemoryCache ServiceCache" where
  "sample_service_cache = NewServiceCache InMemoryCache_client DecodedRequestContextKey (CachePrefix sample_config) True
     (WhitelistedHeaders sample_config) '''' []
     \<lparr>mdw_CacheMethodHasBlockNumberParamTTL = 600, mdw_CacheMethodHasBlockHashParamTTL = 600,
      mdw_CacheStaticMethodTTL = 600, mdw_CacheMethodHasTxHashParamTTL = 600\<rparr>"

lemma sample_wired: "cache_wired sample_config sample_service_cache"
  by (simp add: cache_wired_def sample_service_cache_def NewServiceCache_def sample_config_def)

definition sample_world :: "InMemoryCache \<Rightarrow> InMemoryCache World" where
  "sample_world s = \<lparr>w_cache = s, w_clock = 0, w_calls = [], w_metrics = []\<rparr>"

definition chain_request :: "string \<Rightarrow> Request" where
  "chain_request host =
     (sample_request ''eth_chainId'' [])\<lparr>Host := host, Ctx := [(RequestStartTimeContextKey, CtxTime 7),
        (DecodedRequestContextKey, CtxRequest (Some (sample_envelope ''a'')))]\<rparr>"

lemma chain_request_decoded: "decoded_request (chain_request h) DecodedRequestContextKey = Some (Some (sample_envelope ''a''))"
  by (simp add: decoded_request_def chain_request_def Value_def context_keys)

lemma sample_chain_route:
  "ProxyForRequest newInt_decimal (NewProxies sample_config) (chain_request ''h'') =
   Ok (Some (ReverseProxy ''http://p''), \<lparr>BackendName = ''PRUNING'', BackendRoute = ''http://p'', ShardEndHeight = 0\<rparr>, True)"
  "ProxyForRequest newInt_decimal (NewProxies sample_config) (chain_request ''nowhere'') =
   Ok (None, \<lparr>BackendName = ''DEFAULT'', BackendRoute = '''', ShardEndHeight = 0\<rparr>, False)"
  by (simp_all add: route_eval sample_config_def chain_request_def sample_envelope_def RequestStartTimeContextKey_def
      MethodRequiresNoHistory_def NoHistoryMethods_def Let_def)

lemma sample_lookup_empty:
  "GetCachedQueryResponse newInt_decimal sample_service_cache [] now (Some (sample_envelope ''a'')) = ([], Err (ErrCache ErrNotFound))"
  by (simp add: GetCachedQueryResponse_def sample_cacheable GetQueryKey_Ok sample_service_cache_def NewServiceCache_def
      InMemoryCache_client_def inmem_Get_def)

definition sample_stored_item :: InMemoryCache where
  "sample_stored_item = [(the_Ok (GetQueryKey (CachePrefix sample_config) (Some (sample_envelope ''a''))),
     \<lparr>ci_data = json_print (marshal_query_response \<lparr>JsonRpcResponseResult = dquote # ''0x8ae'' @ [dquote], HeaderMap = []\<rparr>),
      ci_expiration = 10000\<rparr>)]"

lemma sample_lookup_stored:
  "GetCachedQueryResponse newInt_decimal sample_service_cache sample_stored_item (\<lambda>i. int i * 50) (Some (sample_envelope ''a'')) =
   (sample_stored_item, Ok \<lparr>JsonRpcResponseResult = served_body (sample_envelope ''a'') (JStr ''0x8ae''), HeaderMap = []\<rparr>)"
proof -
  let ?qr = "\<lparr>JsonRpcResponseResult = dquote # ''0x8ae'' @ [dquote], HeaderMap = []\<rparr>"
  have "unmarshal_query_response (json_print (marshal_query_response ?qr)) = Some ?qr"
    using unmarshal_marshal_query_response [of ?qr] by (simp add: header_map_ok_def)
  then have "restore_response (Some (sample_envelope ''a'')) (json_print (marshal_query_response ?qr)) =
      Ok (?qr\<lparr>JsonRpcResponseResult := served_body (sample_envelope ''a'') (JStr ''0x8ae'')\<rparr>)"
    by (intro restore_response_Ok [of sample_num]) (use sample_result in \<open>simp_all add: sample_envelope_canon\<close>)
  then show ?thesis
    by (simp add: GetCachedQueryResponse_def sample_cacheable GetQueryKey_Ok sample_service_cache_def NewServiceCache_def
      InMemoryCache_client_def inmem_Get_def sample_stored_item_def)
qed

lemma sample_externals_simps:
  "x_newInt sample_externals = newInt_decimal" "cache_now sample_externals (sample_world s) = (\<lambda>i. int i * 50)"
  "x_negroni sample_externals = sample_negroni" "w_cache (sample_world s) = s" "w_calls (sample_world s) = []"
  by (simp_all add: sample_externals_def cache_now_def sample_world_def fun_eq_iff)

theorem metric_of_proxied_request_witness:
  "\<exists>m. w_metrics (fst (cacheMiddleware sample_externals sample_config sample_service_cache (sample_world sample_stored_item)
      (Server new_response) (chain_request ''h''))) = [m] \<and>
    CacheHit m \<and> RequestTime m = 7 \<and> Origin m = Some ''http://10.0.0.1'' \<and> ResponseBackend m = ''PRUNING''"
proof -
  let ?out = "cacheMiddleware sample_externals sample_config sample_service_cache (sample_world sample_stored_item)
      (Server new_response) (chain_request ''h'')"
  have out: "?out = (fst ?out, fst (snd ?out), snd (snd ?out))" by simp
  have start: "Value (Ctx (chain_request ''h'')) RequestStartTimeContextKey = Some (CtxTime 7)"
    by (simp add: chain_request_def Value_def)
  have nopanic: "\<not> is_panic (ExtractBlockNumberFromEVMRPCRequest (x_newInt sample_externals) (x_hexToHash sample_externals)
      (x_headerByHash sample_externals) (sample_envelope ''a''))"
    by (simp add: ExtractBlockNumberFromEVMRPCRequest_def sample_envelope_def method_preds method_tables)
  have neg: "negroni_ok (x_negroni sample_externals)" by (simp add: sample_externals_simps sample_negroni_ok)
  note rec = metric_of_proxied_request [OF neg sample_wired _ chain_request_decoded _ _ _ _ out start nopanic]
  have "w_metrics (sample_world sample_stored_item) = []" "MetricCollectionEnabled sample_config" "CacheEnabled sample_config"
    by (simp_all add: sample_world_def sample_config_def)
  then show ?thesis
    using rec [unfolded sample_externals_simps, OF _ sample_lookup_stored _ sample_chain_route(1)]
    by (fastforce simp: lookup_hit_def chain_request_def sample_request_def single_value_def header_values_def)
qed

theorem cache_hit_served_witness:
  "\<exists>v. fst (snd (cacheMiddleware sample_externals sample_config sample_service_cache (sample_world sample_stored_item)
      (Server new_response) (chain_request ''h''))) = Server v \<and> sent_body v = served_body (sample_envelope ''a'') (JStr ''0x8ae'')"
proof -
  let ?out = "cacheMiddleware sample_externals sample_config sample_service_cache (sample_world sample_stored_item)
      (Server new_response) (chain_request ''h'')"
  have "?out = (fst ?out, fst (snd ?out), snd (snd ?out))" by simp
  note hit = cache_hit_served [OF sample_wired _ chain_request_decoded _ _ this]
  show ?thesis
    using hit [unfolded sample_externals_simps, OF _ sample_lookup_stored sample_chain_route(1)] by (auto simp: sample_config_def)
qed

theorem cache_miss_forwarded_witness:
  "\<exists>v. fst (snd (cacheMiddleware sample_externals sample_config sample_service_cache (sample_world [])
      (Server new_response) (chain_request ''h''))) = Server v \<and> sent_body v = sample_body"
proof -
  let ?out = "cacheMiddleware sample_externals sample_config sample_service_cache (sample_world [])
      (Server new_response) (chain_request ''h'')"
  have out: "?out = (fst ?out, fst (snd ?out), snd (snd ?out))" by simp
  have neg: "negroni_ok (x_negroni sample_externals)" by (simp add: sample_externals_simps sample_negroni_ok)
  have reply: "x_backend sample_externals n u q = Reply 200 [] [sample_body] False" for n u q
    by (simp add: sample_externals_def)
  have look: "GetCachedQueryResponse (x_newInt sample_externals) sample_service_cache (w_cache (sample_world []))
      (cache_now sample_externals (sample_world [])) (Some (sample_envelope ''a'')) = ([], Err (ErrCache ErrNotFound))"
    by (simp add: sample_externals_simps sample_lookup_empty)
  show ?thesis
    using cache_miss_forwarded [OF neg sample_wired _ chain_request_decoded look
        sample_chain_route(1) [folded sample_externals_simps(1)] reply _ out]
      sample_externals_simps(4) [of "[]"] by (auto simp: sample_config_def)
qed

theorem unroutable_host_rejected_witness:
  "snd (snd (cacheMiddleware sample_externals sample_config sample_service_cache (sample_world [])
      (Server new_response) (chain_request ''nowhere''))) = None"
proof -
  let ?out = "cacheMiddleware sample_externals sample_config sample_service_cache (sample_world [])
      (Server new_response) (chain_request ''nowhere'')"
  have out: "?out = (fst ?out, fst (snd ?out), snd (snd ?out))" by simp
  have get: "snd (cache_Get (cacheClient sample_service_cache) s now k) \<noteq> Panic q" for s now k q
    by (auto simp: sample_service_cache_def NewServiceCache_def InMemoryCache_client_def inmem_Get_def split: option.splits if_splits)
  show ?thesis
    using unroutable_host_rejected [OF sample_wired chain_request_decoded
        sample_chain_route(2) [folded sample_externals_simps(1)] _ out get] by (simp add: sample_cacheable)
qed

end
