(* ===== verification/Batch.thy ===== *)
theory Batch
  imports Middleware
begin

text \<open>
  \<^verbatim>\<open>service/batchmdw\<close>: splitting a batch into single requests, serving them concurrently and
  collating the responses. The goroutines of a \<^verbatim>\<open>BatchProcessor\<close> interleave at the operations that
  take its mutex and at the operations of the wait group; a schedule is the list of the goroutines
  in the order they move, and what a batch answers is proved for every schedule. A sub-request runs
  its handler in one move: the reports of error statuses it makes while it runs come out one by one
  afterwards, which no one can tell apart because the handler never reads the processor.
  The header map of the batch, which the sub-requests share, is a value here.
\<close>

section \<open>The processor\<close>

record 's BatchProcessor =
  bp_handler :: "('s, ResponseWriter) handler"
  bp_requests :: "Request list"
  bp_responses :: "bytes option list"
  bp_header :: "Header option"
  bp_cacheHits :: int
  bp_status :: int

definition NewBatchProcessor :: "('s, ResponseWriter) handler \<Rightarrow> Request list \<Rightarrow> 's BatchProcessor" where
  "NewBatchProcessor handler reqs =
     \<lparr>bp_handler = handler, bp_requests = reqs, bp_responses = replicate (length reqs) None,
      bp_header = None, bp_cacheHits = 0, bp_status = StatusOK\<rparr>"

definition setResponse :: "nat \<Rightarrow> bytes \<Rightarrow> 's BatchProcessor \<Rightarrow> 's BatchProcessor" where
  "setResponse idx res bp = bp\<lparr>bp_responses := (bp_responses bp)[idx := Some res]\<rparr>"

definition applyHeaders :: "Header \<Rightarrow> 's BatchProcessor \<Rightarrow> 's BatchProcessor" where
  "applyHeaders h bp =
     (let bp1 = (if bp_header bp = None
                 then bp\<lparr>bp_header := Some (Header_Del CacheHeaderKey (Header_Del ''Content-Length'' h))\<rparr> else bp) in
      if IsCacheHitHeaders h then bp1\<lparr>bp_cacheHits := bp_cacheHits bp1 + 1\<rparr> else bp1)"

definition setErrStatus :: "int \<Rightarrow> 's BatchProcessor \<Rightarrow> 's BatchProcessor" where
  "setErrStatus status bp = bp\<lparr>bp_status := status\<rparr>"

definition cacheHitValue :: "int \<Rightarrow> int \<Rightarrow> string" where
  "cacheHitValue totalNum cacheHits =
     (if cacheHits = 0 \<or> totalNum = 0 then CacheMissHeaderValue
      else if cacheHits = totalNum then CacheHitHeaderValue
      else CachePartialHeaderValue)"

section \<open>The goroutines\<close>

text \<open>
  Where the goroutine of a sub-request is: started; its handler has returned or panicked and the
  calls of \<^verbatim>\<open>setErrStatus\<close> in the list are outstanding; after \<^verbatim>\<open>setResponse\<close>; after
  \<^verbatim>\<open>applyHeaders\<close>; after \<^verbatim>\<open>wg.Done\<close>, be it at the end or in the recovery of a panic.
\<close>

datatype goroutine =
    Started
  | Served "int list" fakeResponseWriter "go_panic option"
  | Responded fakeResponseWriter
  | Combined fakeResponseWriter
  | Finished fakeResponseWriter "go_panic option"

record 's batch_run =
  run_world :: "'s World"
  run_bp :: "'s BatchProcessor"
  run_wg :: int
  run_go :: "goroutine list"

definition start_run :: "'s World \<Rightarrow> 's BatchProcessor \<Rightarrow> 's batch_run" where
  "start_run W bp = \<lparr>run_world = W, run_bp = bp, run_wg = 0, run_go = []\<rparr>"

text \<open>A handler hands back the writer it was given, so that the second case never arises.\<close>

fun fake_of :: "ResponseWriter \<Rightarrow> fakeResponseWriter" where
  "fake_of (Fake w) = w"
| "fake_of (Server w) = newFakeResponseWriter []"

definition new_fake :: ResponseWriter where
  "new_fake = Fake (newFakeResponseWriter [])"

text \<open>The next iteration of the loop that starts the goroutines.\<close>

definition launch :: "'s batch_run \<Rightarrow> 's batch_run" where
  "launch st = st\<lparr>run_wg := run_wg st + 1, run_go := run_go st @ [Started]\<rparr>"

definition move_to :: "nat \<Rightarrow> goroutine \<Rightarrow> 's batch_run \<Rightarrow> 's batch_run" where
  "move_to idx g st = st\<lparr>run_go := (run_go st)[idx := g]\<rparr>"

definition on_bp :: "('s BatchProcessor \<Rightarrow> 's BatchProcessor) \<Rightarrow> 's batch_run \<Rightarrow> 's batch_run" where
  "on_bp f st = st\<lparr>run_bp := f (run_bp st)\<rparr>"

definition wg_Done :: "'s batch_run \<Rightarrow> 's batch_run" where
  "wg_Done st = st\<lparr>run_wg := run_wg st - 1\<rparr>"

fun resume :: "nat \<Rightarrow> goroutine \<Rightarrow> 's batch_run \<Rightarrow> 's batch_run" where
  "resume idx Started st =
     (case bp_handler (run_bp st) (run_world st) new_fake (bp_requests (run_bp st) ! idx) of
        (W, w, p) \<Rightarrow> move_to idx (Served (fw_errors (fake_of w)) (fake_of w) p) (st\<lparr>run_world := W\<rparr>))"
| "resume idx (Served (e # es) frw p) st = move_to idx (Served es frw p) (on_bp (setErrStatus e) st)"
| "resume idx (Served [] frw (Some p)) st = move_to idx (Finished frw (Some p)) (wg_Done st)"
| "resume idx (Served [] frw None) st = move_to idx (Responded frw) (on_bp (setResponse idx (fw_body frw)) st)"
| "resume idx (Responded frw) st = move_to idx (Combined frw) (on_bp (applyHeaders (fw_header frw)) st)"
| "resume idx (Combined frw) st = move_to idx (Finished frw None) (wg_Done st)"
| "resume idx (Finished frw p) st = st"

datatype event = Launch | Resume nat

fun enabled :: "'s batch_run \<Rightarrow> event \<Rightarrow> bool" where
  "enabled st Launch \<longleftrightarrow> length (run_go st) < length (bp_requests (run_bp st))"
| "enabled st (Resume idx) \<longleftrightarrow>
     idx < length (run_go st) \<and> (case run_go st ! idx of Finished _ _ \<Rightarrow> False | _ \<Rightarrow> True)"

fun fire :: "event \<Rightarrow> 's batch_run \<Rightarrow> 's batch_run" where
  "fire Launch st = launch st"
| "fire (Resume idx) st = resume idx (run_go st ! idx) st"

inductive batch_step :: "'s batch_run \<Rightarrow> 's batch_run \<Rightarrow> bool" where
  step: "enabled st ev \<Longrightarrow> batch_step st (fire ev st)"

inductive reachable :: "'s batch_run \<Rightarrow> 's batch_run \<Rightarrow> bool" for st where
  here: "reachable st st"
| more: "reachable st st' \<Longrightarrow> batch_step st' st'' \<Longrightarrow> reachable st st''"

text \<open>\<^verbatim>\<open>wg.Wait\<close> returns: every goroutine was started and the counter is back at zero.\<close>

definition wait_over :: "'s batch_run \<Rightarrow> bool" where
  "wait_over st \<longleftrightarrow> length (run_go st) = length (bp_requests (run_bp st)) \<and> run_wg st = 0"

section \<open>Every run ends\<close>

text \<open>
  The work left: starting a goroutine and running its handler (which decides how many reports
  follow), then the moves of the goroutines.
\<close>

fun unserved :: "goroutine \<Rightarrow> nat" where
  "unserved Started = 1"
| "unserved _ = 0"

fun moves_left :: "goroutine \<Rightarrow> nat" where
  "moves_left Started = 0"
| "moves_left (Served es _ _) = length es + 3"
| "moves_left (Responded _) = 2"
| "moves_left (Combined _) = 1"
| "moves_left (Finished _ _) = 0"

definition work_left :: "'s batch_run \<Rightarrow> nat \<times> nat" where
  "work_left st =
     (2 * (length (bp_requests (run_bp st)) - length (run_go st)) + (\<Sum>g\<leftarrow>run_go st. unserved g),
      \<Sum>g\<leftarrow>run_go st. moves_left g)"

lemma sum_list_move:
  fixes f :: "'a \<Rightarrow> nat"
  shows "i < length gs \<Longrightarrow> (\<Sum>g\<leftarrow>gs[i := g]. f g) + f (gs ! i) = (\<Sum>g\<leftarrow>gs. f g) + f g"
proof (induction gs arbitrary: i)
  case (Cons a gs)
  then show ?case by (cases i) auto
qed simp

lemma sum_list_less:
  fixes f :: "'a \<Rightarrow> nat"
  shows "i < length gs \<Longrightarrow> f g < f (gs ! i) \<Longrightarrow> (\<Sum>g\<leftarrow>gs[i := g]. f g) < (\<Sum>g\<leftarrow>gs. f g)"
  using sum_list_move [of i gs f g] by simp

lemma move_to_simps [simp]:
  "run_world (move_to i g st) = run_world st" "run_bp (move_to i g st) = run_bp st" "run_wg (move_to i g st) = run_wg st"
  "run_go (move_to i g st) = (run_go st)[i := g]"
  by (simp_all add: move_to_def)

lemma on_bp_simps [simp]:
  "run_world (on_bp f st) = run_world st" "run_bp (on_bp f st) = f (run_bp st)" "run_wg (on_bp f st) = run_wg st"
  "run_go (on_bp f st) = run_go st"
  by (simp_all add: on_bp_def)

lemma wg_Done_simps [simp]:
  "run_world (wg_Done st) = run_world st" "run_bp (wg_Done st) = run_bp st" "run_wg (wg_Done st) = run_wg st - 1"
  "run_go (wg_Done st) = run_go st"
  by (simp_all add: wg_Done_def)

lemma bp_requests_kept [simp]:
  "bp_requests (setResponse i b bp) = bp_requests bp" "bp_requests (applyHeaders h bp) = bp_requests bp"
  "bp_requests (setErrStatus s bp) = bp_requests bp" "bp_handler (setResponse i b bp) = bp_handler bp"
  "bp_handler (applyHeaders h bp) = bp_handler bp" "bp_handler (setErrStatus s bp) = bp_handler bp"
  by (simp_all add: setResponse_def applyHeaders_def setErrStatus_def Let_def)

lemma resume_kept [simp]:
  "bp_requests (run_bp (resume i g st)) = bp_requests (run_bp st)"
  "bp_handler (run_bp (resume i g st)) = bp_handler (run_bp st)"
  "length (run_go (resume i g st)) = length (run_go st)"
  by (cases "(i, g, st)" rule: resume.cases; simp split: prod.split)+

lemma fire_kept [simp]:
  "bp_requests (run_bp (fire ev st)) = bp_requests (run_bp st)"
  "bp_handler (run_bp (fire ev st)) = bp_handler (run_bp st)"
  by (cases ev; simp add: launch_def)+

lemma fire_decreases:
  assumes "enabled st ev"
  shows "(work_left (fire ev st), work_left st) \<in> less_than <*lex*> less_than"
proof (cases ev)
  case Launch
  with assms show ?thesis by (simp add: work_left_def launch_def)
next
  case (Resume i)
  let ?g = "run_go st ! i"
  have i: "i < length (run_go st)" and live: "\<And>f p. ?g \<noteq> Finished f p"
    using assms Resume by (auto split: goroutine.splits)
  note less = sum_list_less [OF i] sum_list_move [OF i, of unserved]
  show ?thesis
  proof (cases "(i, ?g, st)" rule: resume.cases)
    case (1 idx st')
    have g: "?g = Started" using 1 by blast
    show ?thesis using g less(1) [of unserved] Resume
      by (simp add: work_left_def g split: prod.split)
  qed (use less Resume live in \<open>auto simp: work_left_def\<close>)
qed

definition next_event :: "'s batch_run \<Rightarrow> event option" where
  "next_event st = find (enabled st) (Launch # map Resume [0..<length (run_go st)])"

lemma next_event_Some: "next_event st = Some ev \<Longrightarrow> enabled st ev"
  by (auto simp: next_event_def find_Some_iff simp del: enabled.simps find.simps)

lemma next_event_None: "next_event st = None \<longleftrightarrow> (\<forall>ev. \<not> enabled st ev)"
proof -
  have "enabled st ev \<Longrightarrow> ev \<in> set (Launch # map Resume [0..<length (run_go st)])" for ev
    by (cases ev) auto
  then show ?thesis by (auto simp: next_event_def find_None_iff simp del: enabled.simps find.simps)
qed

text \<open>The rest of a run: goroutines move in turn until none can.\<close>

function run_rest :: "'s batch_run \<Rightarrow> 's batch_run" where
  "run_rest st = (case next_event st of None \<Rightarrow> st | Some ev \<Rightarrow> run_rest (fire ev st))"
  by pat_completeness auto
termination
  by (relation "inv_image (less_than <*lex*> less_than) work_left")
     (auto intro: fire_decreases next_event_Some)

declare run_rest.simps [simp del]

text \<open>A schedule: the events in the order they are tried; one that is not enabled is passed over.\<close>

definition try_event :: "event \<Rightarrow> 's batch_run \<Rightarrow> 's batch_run" where
  "try_event ev st = (if enabled st ev then fire ev st else st)"

definition run_schedule :: "event list \<Rightarrow> 's batch_run \<Rightarrow> 's batch_run" where
  "run_schedule evs st = run_rest (fold try_event evs st)"

lemma reachable_trans: "reachable b c \<Longrightarrow> reachable a b \<Longrightarrow> reachable a c"
  by (induction rule: reachable.induct) (auto intro: reachable.more)

lemma reachable_step: "batch_step a b \<Longrightarrow> reachable b c \<Longrightarrow> reachable a c"
  by (rule reachable_trans [of b c a]) (auto intro: reachable.intros)

lemma reachable_try: "reachable st (try_event ev st)"
  by (auto simp: try_event_def intro: reachable.intros batch_step.intros)

lemma reachable_tries: "reachable st (fold try_event evs st)"
proof (induction evs arbitrary: st)
  case (Cons ev evs)
  show ?case using reachable_trans [OF Cons.IH reachable_try] by simp
qed (simp add: reachable.here)

lemma reachable_rest: "reachable st (run_rest st)"
proof (induction st rule: run_rest.induct)
  case (1 st)
  then show ?case
    by (subst run_rest.simps)
       (auto split: option.split intro: reachable.here reachable_step batch_step.intros next_event_Some)
qed

lemma run_rest_stuck: "\<not> enabled (run_rest st) ev"
proof (induction st rule: run_rest.induct)
  case (1 st)
  then show ?case by (subst run_rest.simps) (auto split: option.split simp: next_event_None simp del: enabled.simps)
qed

lemma reachable_schedule: "reachable st (run_schedule evs st)"
  unfolding run_schedule_def by (rule reachable_trans [OF reachable_rest reachable_tries])

text \<open>Every run that is over is one of a schedule.\<close>

lemma reachable_has_schedule: "reachable st st' \<Longrightarrow> \<exists>evs. st' = fold try_event evs st"
proof (induction rule: reachable.induct)
  case here
  show ?case by (rule exI [of _ "[]"]) simp
next
  case (more st' st'')
  then obtain evs where evs: "st' = fold try_event evs st" by blast
  from more(2) obtain ev where "enabled st' ev" "st'' = fire ev st'" by (auto elim: batch_step.cases)
  with evs show ?case by (intro exI [of _ "evs @ [ev]"]) (simp add: try_event_def [of ev])
qed

lemma wf_batch_step: "wfP (\<lambda>st' st. batch_step st st')"
proof -
  have "{(st', st). batch_step st st'} \<subseteq> inv_image (less_than <*lex*> less_than) work_left"
    by (auto elim!: batch_step.cases intro: fire_decreases)
  then show ?thesis unfolding wfp_def by (rule wf_subset [rotated]) auto
qed

section \<open>What every interleaving preserves\<close>

text \<open>What a goroutine has done to the processor so far.\<close>

fun answered :: "goroutine \<Rightarrow> fakeResponseWriter option" where
  "answered (Responded frw) = Some frw"
| "answered (Combined frw) = Some frw"
| "answered (Finished frw None) = Some frw"
| "answered _ = None"

fun combined :: "goroutine \<Rightarrow> fakeResponseWriter option" where
  "combined (Combined frw) = Some frw"
| "combined (Finished frw None) = Some frw"
| "combined _ = None"

fun reported :: "goroutine \<Rightarrow> int list" where
  "reported Started = []"
| "reported (Served es frw p) = take (length (fw_errors frw) - length es) (fw_errors frw)"
| "reported (Responded frw) = fw_errors frw"
| "reported (Combined frw) = fw_errors frw"
| "reported (Finished frw p) = fw_errors frw"

fun live :: "goroutine \<Rightarrow> int" where
  "live (Finished _ _) = 0"
| "live _ = 1"

fun hit :: "goroutine \<Rightarrow> int" where
  "hit g = (case combined g of Some frw \<Rightarrow> if IsCacheHitHeaders (fw_header frw) then 1 else 0 | None \<Rightarrow> 0)"

text \<open>The writer and the panic of a goroutine are what its handler produced in some world.\<close>

fun outcome_of :: "goroutine \<Rightarrow> (fakeResponseWriter \<times> go_panic option) option" where
  "outcome_of Started = None"
| "outcome_of (Served es frw p) = Some (frw, p)"
| "outcome_of (Responded frw) = Some (frw, None)"
| "outcome_of (Combined frw) = Some (frw, None)"
| "outcome_of (Finished frw p) = Some (frw, p)"

definition handler_outcome :: "('s, ResponseWriter) handler \<Rightarrow> Request \<Rightarrow> fakeResponseWriter \<times> go_panic option \<Rightarrow> bool" where
  "handler_outcome h req out \<longleftrightarrow> (\<exists>W W' w p. h W new_fake req = (W', w, p) \<and> out = (fake_of w, p))"

definition pending_ok :: "goroutine \<Rightarrow> bool" where
  "pending_ok g \<longleftrightarrow> (\<forall>es frw p. g = Served es frw p \<longrightarrow> (\<exists>es'. fw_errors frw = es' @ es))"

definition batch_header :: "fakeResponseWriter \<Rightarrow> Header" where
  "batch_header frw = Header_Del CacheHeaderKey (Header_Del ''Content-Length'' (fw_header frw))"

definition run_inv :: "('s, ResponseWriter) handler \<Rightarrow> Request list \<Rightarrow> 's batch_run \<Rightarrow> bool" where
  "run_inv h reqs st \<longleftrightarrow>
     bp_handler (run_bp st) = h \<and> bp_requests (run_bp st) = reqs \<and> length (run_go st) \<le> length reqs \<and>
     run_wg st = (\<Sum>g\<leftarrow>run_go st. live g) \<and>
     bp_responses (run_bp st) =
       map (\<lambda>g. map_option fw_body (answered g)) (run_go st) @ replicate (length reqs - length (run_go st)) None \<and>
     bp_cacheHits (run_bp st) = (\<Sum>g\<leftarrow>run_go st. hit g) \<and>
     (\<forall>i < length (run_go st). \<forall>out. outcome_of (run_go st ! i) = Some out \<longrightarrow> handler_outcome h (reqs ! i) out) \<and>
     (\<forall>g\<in>set (run_go st). pending_ok g)"

definition status_inv :: "int list list \<Rightarrow> int \<Rightarrow> bool" where
  "status_inv reports status \<longleftrightarrow> (if concat reports = [] then status = StatusOK else status \<in> set (concat reports))"

definition header_inv :: "fakeResponseWriter option list \<Rightarrow> Header option \<Rightarrow> bool" where
  "header_inv writers header \<longleftrightarrow>
     (case header of
        None \<Rightarrow> set writers \<subseteq> {None}
      | Some h \<Rightarrow> \<exists>frw. Some frw \<in> set writers \<and> h = batch_header frw)"

declare hit.simps [simp del]

lemma sum_list_move_int:
  fixes f :: "'a \<Rightarrow> int"
  shows "i < length gs \<Longrightarrow> (\<Sum>g\<leftarrow>gs[i := g]. f g) = (\<Sum>g\<leftarrow>gs. f g) + f g - f (gs ! i)"
proof (induction gs arbitrary: i)
  case (Cons a gs)
  then show ?case by (cases i) auto
qed simp

lemma run_inv_start: "run_inv h reqs (start_run W (NewBatchProcessor h reqs))"
  by (simp add: run_inv_def start_run_def NewBatchProcessor_def)

lemma run_inv_launch:
  assumes "run_inv h reqs st" and "enabled st Launch"
  shows "run_inv h reqs (launch st)"
proof -
  have "length (run_go st) < length reqs" using assms by (simp add: run_inv_def)
  then obtain n where n: "length reqs - length (run_go st) = Suc n" "length reqs - Suc (length (run_go st)) = n"
    by (metis Suc_diff_Suc)
  show ?thesis using assms n
    by (auto simp: run_inv_def launch_def nth_append pending_ok_def less_Suc_eq hit.simps)
qed

text \<open>A move of one goroutine that changes the processor as the new place of the goroutine says.\<close>

lemma run_inv_move:
  assumes inv: "run_inv h reqs st" and i: "i < length (run_go st)"
    and st': "run_go st' = run_go st" "bp_handler (run_bp st') = h" "bp_requests (run_bp st') = reqs"
      "run_wg st' = run_wg st + live g - live (run_go st ! i)"
      "bp_responses (run_bp st') = (bp_responses (run_bp st))[i := map_option fw_body (answered g)]"
      "bp_cacheHits (run_bp st') = bp_cacheHits (run_bp st) + hit g - hit (run_go st ! i)"
    and g: "case outcome_of g of Some out \<Rightarrow> handler_outcome h (reqs ! i) out | None \<Rightarrow> True" "pending_ok g"
  shows "run_inv h reqs (move_to i g st')"
proof -
  have pend: "\<forall>g'\<in>set ((run_go st)[i := g]). pending_ok g'"
    using inv g(2) set_update_subset_insert [of "run_go st" i g] by (auto simp: run_inv_def)
  have out: "handler_outcome h (reqs ! j) out"
    if "j < length (run_go st)" "outcome_of ((run_go st)[i := g] ! j) = Some out" for j out
    using inv that g(1) i by (cases out; cases "j = i") (auto simp: run_inv_def)
  show ?thesis unfolding run_inv_def
    using inv i st' pend out sum_list_move_int [OF i, of live g] sum_list_move_int [OF i, of hit g]
    by (simp add: run_inv_def list_update_append map_update)
qed

lemma run_inv_nth:
  assumes "run_inv h reqs st" and "i < length (run_go st)"
  shows "bp_responses (run_bp st) ! i = map_option fw_body (answered (run_go st ! i))" "i < length reqs"
    "i < length (bp_responses (run_bp st))"
    "outcome_of (run_go st ! i) = Some out \<Longrightarrow> handler_outcome h (reqs ! i) out" "pending_ok (run_go st ! i)"
  using assms by (auto simp: run_inv_def nth_append) (cases out; simp)

lemma responses_same:
  assumes "run_inv h reqs st" and "i < length (run_go st)" and "answered g = answered (run_go st ! i)"
  shows "(bp_responses (run_bp st))[i := map_option fw_body (answered g)] = bp_responses (run_bp st)"
  unfolding assms(3) run_inv_nth(1) [OF assms(1,2), symmetric] by simp

lemma bp_fields [simp]:
  "bp_responses (setErrStatus e bp) = bp_responses bp" "bp_cacheHits (setErrStatus e bp) = bp_cacheHits bp"
  "bp_header (setErrStatus e bp) = bp_header bp" "bp_status (setErrStatus e bp) = e"
  "bp_responses (setResponse i b bp) = (bp_responses bp)[i := Some b]" "bp_cacheHits (setResponse i b bp) = bp_cacheHits bp"
  "bp_header (setResponse i b bp) = bp_header bp" "bp_status (setResponse i b bp) = bp_status bp"
  "bp_responses (applyHeaders h bp) = bp_responses bp" "bp_status (applyHeaders h bp) = bp_status bp"
  "bp_cacheHits (applyHeaders h bp) = bp_cacheHits bp + (if IsCacheHitHeaders h then 1 else 0)"
  by (simp_all add: setErrStatus_def setResponse_def applyHeaders_def Let_def)

lemma run_inv_resume:
  assumes inv: "run_inv h reqs st" and i: "i < length (run_go st)"
  shows "run_inv h reqs (resume i (run_go st ! i) st)"
proof -
  note nth = run_inv_nth [OF inv i] and same = responses_same [OF inv i]
  have bp: "bp_handler (run_bp st) = h" "bp_requests (run_bp st) = reqs" using inv by (simp_all add: run_inv_def)
  note move = run_inv_move [OF inv i]
  show ?thesis
  proof (cases "run_go st ! i")
    case Started
    obtain W w p where out: "h (run_world st) new_fake (reqs ! i) = (W, w, p)" by (metis prod_cases3)
    then have "handler_outcome h (reqs ! i) (fake_of w, p)" by (auto simp: handler_outcome_def)
    moreover have "pending_ok (Served (fw_errors (fake_of w)) (fake_of w) p)" by (simp add: pending_ok_def)
    ultimately show ?thesis using Started out bp same [of Started] by (simp add: move hit.simps)
  next
    case (Served es frw p)
    then show ?thesis
    proof (cases es)
      case (Cons e es')
      have "pending_ok (Served es' frw p)" using nth(5) Served Cons by (auto simp: pending_ok_def)
      then show ?thesis using Served Cons bp same [of "run_go st ! i"] nth(4) by (simp add: move hit.simps)
    next
      case Nil
      then show ?thesis using Served bp same [of "run_go st ! i"] nth(4) by (cases p) (simp_all add: move pending_ok_def hit.simps)
    qed
  next
    case (Responded frw)
    then show ?thesis using bp same [of "run_go st ! i"] nth(4) by (simp add: move pending_ok_def hit.simps)
  next
    case (Combined frw)
    then show ?thesis using bp same [of "run_go st ! i"] nth(4) by (simp add: move pending_ok_def hit.simps)
  next
    case (Finished frw p)
    then show ?thesis using inv by simp
  qed
qed

lemma run_inv_reachable:
  assumes "reachable (start_run W (NewBatchProcessor h reqs)) st"
  shows "run_inv h reqs st"
  using assms
proof (induction rule: reachable.induct)
  case (more st' st'')
  from more(2) obtain ev where ev: "enabled st' ev" "st'' = fire ev st'" by (auto elim: batch_step.cases)
  with more.IH show ?case by (cases ev) (auto simp: run_inv_resume intro: run_inv_launch)
qed (rule run_inv_start)

definition shown_inv :: "'s batch_run \<Rightarrow> bool" where
  "shown_inv st \<longleftrightarrow> status_inv (map reported (run_go st)) (bp_status (run_bp st)) \<and>
     header_inv (map combined (run_go st)) (bp_header (run_bp st))"

lemma status_inv_report:
  assumes "i < length rs" and "e \<in> set r"
  shows "status_inv (rs[i := r]) e"
proof -
  have "r \<in> set (rs[i := r])" using assms(1) by (simp add: set_update_memI)
  with assms(2) have "e \<in> set (concat (rs[i := r]))" by auto
  then show ?thesis unfolding status_inv_def by (metis empty_iff empty_set)
qed

lemma header_inv_combine:
  assumes "i < length cs" and "header_inv cs (bp_header bp)" and "cs ! i = None"
  shows "header_inv (cs[i := Some frw]) (bp_header (applyHeaders (fw_header frw) bp))"
proof (cases "bp_header bp")
  case None
  have "Some frw \<in> set (cs[i := Some frw])" using assms(1) by (simp add: set_update_memI)
  with None show ?thesis by (auto simp: header_inv_def applyHeaders_def Let_def batch_header_def)
next
  case (Some h)
  then obtain f where f: "Some f \<in> set cs" "h = batch_header f" using assms(2) by (auto simp: header_inv_def)
  from f(1) obtain j where "j < length cs" "cs ! j = Some f" by (auto simp: in_set_conv_nth)
  with assms(3) have "Some f \<in> set (cs[i := Some frw])" by (metis in_set_conv_nth length_list_update nth_list_update_neq option.distinct(1))
  with Some f(2) show ?thesis by (auto simp: header_inv_def applyHeaders_def Let_def)
qed

lemma map_move_same: "f g = f (gs ! i) \<Longrightarrow> map f (gs[i := g]) = map f gs"
  by (metis list_update_id map_update)

lemma shown_inv_resume:
  assumes inv: "shown_inv st" and i: "i < length (run_go st)" and pend: "pending_ok (run_go st ! i)"
  shows "shown_inv (resume i (run_go st ! i) st)"
proof (cases "run_go st ! i")
  case Started
  then show ?thesis using inv by (simp add: shown_inv_def map_move_same split: prod.split)
next
  case (Served es frw p)
  show ?thesis
  proof (cases es)
    case (Cons e es')
    then obtain es0 where es0: "fw_errors frw = es0 @ e # es'" using pend Served by (auto simp: pending_ok_def)
    have "status_inv (map reported ((run_go st)[i := Served es' frw p])) e"
      unfolding map_update by (rule status_inv_report) (use i es0 in simp_all)
    then show ?thesis using inv Served Cons by (simp add: shown_inv_def map_move_same)
  next
    case Nil
    then show ?thesis using inv Served by (cases p) (simp_all add: shown_inv_def map_move_same)
  qed
next
  case (Responded frw)
  have "header_inv (map combined ((run_go st)[i := Combined frw])) (bp_header (applyHeaders (fw_header frw) (run_bp st)))"
    using header_inv_combine [of i "map combined (run_go st)" "run_bp st" frw] i inv Responded
    by (simp add: map_update shown_inv_def)
  then show ?thesis using inv Responded by (simp add: shown_inv_def map_move_same)
next
  case (Combined frw)
  then show ?thesis using inv by (simp add: shown_inv_def map_move_same)
next
  case (Finished frw p)
  then show ?thesis using inv by simp
qed

lemma shown_inv_reachable:
  assumes "reachable (start_run W (NewBatchProcessor h reqs)) st"
  shows "shown_inv st"
  using assms
proof (induction rule: reachable.induct)
  case here
  show ?case by (simp add: shown_inv_def start_run_def NewBatchProcessor_def status_inv_def header_inv_def)
next
  case (more st' st'')
  from more(2) obtain ev where ev: "enabled st' ev" "st'' = fire ev st'" by (auto elim: batch_step.cases)
  show ?case
  proof (cases ev)
    case Launch
    have "status_inv (rs @ [[]]) s = status_inv rs s" for rs s by (simp add: status_inv_def)
    moreover have "header_inv (cs @ [None]) hd = header_inv cs hd" for cs hd by (auto simp: header_inv_def split: option.split)
    ultimately show ?thesis using Launch ev more.IH by (simp add: shown_inv_def launch_def)
  next
    case (Resume i)
    with ev more.IH show ?thesis
      using shown_inv_resume [of st' i] run_inv_nth(5) [OF run_inv_reachable [OF more(1)], of i] by simp
  qed
qed

text \<open>A run that cannot go on is over: the wait group is at zero and every goroutine has finished.\<close>

lemma stuck_finished:
  assumes "run_inv h reqs st" and "\<And>ev. \<not> enabled st ev"
  shows "length (run_go st) = length reqs" "\<And>i. i < length reqs \<Longrightarrow> \<exists>frw p. run_go st ! i = Finished frw p"
    "run_wg st = 0"
proof -
  show len: "length (run_go st) = length reqs" using assms(1) assms(2) [of Launch] by (auto simp: run_inv_def)
  show fin: "\<And>i. i < length reqs \<Longrightarrow> \<exists>frw p. run_go st ! i = Finished frw p"
  proof -
    fix i assume "i < length reqs"
    then show "\<exists>frw p. run_go st ! i = Finished frw p"
      using assms(2) [of "Resume i"] len by (cases "run_go st ! i") simp_all
  qed
  have "\<forall>g\<in>set (run_go st). live g = 0" using fin len by (metis in_set_conv_nth live.simps(1))
  then show "run_wg st = 0" using assms(1) by (simp add: run_inv_def cong: map_cong)
qed

lemma wait_over_finished:
  assumes "run_inv h reqs st" and "wait_over st" and "i < length reqs"
  shows "\<exists>frw p. run_go st ! i = Finished frw p"
proof -
  have "0 \<le> live g" for g by (cases g) simp_all
  then have nonneg: "\<And>v. v \<in> set (map live (run_go st)) \<Longrightarrow> 0 \<le> v" by auto
  have "sum_list (map live (run_go st)) = 0" using assms(1,2) by (simp add: run_inv_def wait_over_def)
  then have "\<forall>v\<in>set (map live (run_go st)). v = 0" using sum_list_nonneg_eq_0_iff [of "map live (run_go st)"] nonneg by blast
  then have "live (run_go st ! i) = 0" using assms by (auto simp: run_inv_def wait_over_def)
  then show ?thesis by (cases "run_go st ! i") simp_all
qed

section \<open>Collating\<close>

text \<open>Each value of a header is set in turn, so that the last one stays.\<close>

definition write_headers :: "Header \<Rightarrow> Header \<Rightarrow> Header" where
  "write_headers src dst = fold (\<lambda>(k, vs) h. fold (\<lambda>v h. Header_Set k v h) vs h) src dst"

definition serve_results :: "'s BatchProcessor \<Rightarrow> ResponseWriter \<Rightarrow> ResponseWriter \<times> (unit, unit) result" where
  "serve_results bp w =
     (let w1 = w_change_header (\<lambda>h. Header_Set CacheHeaderKey
                 (cacheHitValue (int (length (bp_requests bp))) (bp_cacheHits bp))
                 (case bp_header bp of None \<Rightarrow> h | Some header \<Rightarrow> write_headers header h)) w in
      if bp_status bp \<noteq> StatusOK then (w_Write [] (w_WriteHeader (bp_status bp) w1), Ok ())
      else if None \<in> set (bp_responses bp) then (w1, Panic NilDereference)
      else (case those (map (\<lambda>r. marshal_raw (the r)) (bp_responses bp)) of
              None \<Rightarrow> (w1, Err ())
            | Some rawMessages \<Rightarrow> (w_Write (json_print (JArr rawMessages)) (w_WriteHeader StatusOK w1), Ok ())))"

definition RequestAndServe ::
  "event list \<Rightarrow> 's BatchProcessor \<Rightarrow> 's World \<Rightarrow> ResponseWriter \<Rightarrow> 's World \<times> ResponseWriter \<times> (unit, unit) result" where
  "RequestAndServe schedule bp W w =
     (let st = run_schedule schedule (start_run W bp) in
      case serve_results (run_bp st) w of (w', res) \<Rightarrow> (run_world st, w', res))"

section \<open>The middleware\<close>

record BatchMiddlewareConfig =
  ContextKeyDecodedRequestBatch :: string
  ContextKeyDecodedRequestSingle :: string
  MaximumBatchSize :: int

text \<open>
  The request of one member of the batch. \<^verbatim>\<open>http.NewRequestWithContext\<close> refuses a method that is
  not a token and a URL that does not parse; parsing is a parameter.
\<close>

definition NewRequestWithContext ::
  "(string \<Rightarrow> URL option) \<Rightarrow> Context \<Rightarrow> string \<Rightarrow> string \<Rightarrow> bytes \<Rightarrow> Request option" where
  "NewRequestWithContext urlParse ctx method url body =
     (let m = (if method = [] then ''GET'' else method) in
      if \<not> list_all header_token m then None
      else (case urlParse url of
        None \<Rightarrow> None
      | Some u \<Rightarrow> Some \<lparr>ReqMethod = m, ReqURL = u, Host = [], ReqHeader = [], Body = Some (Reader body False),
                       RemoteAddr = [], Ctx = ctx\<rparr>))"

definition marshal_single :: "EVMRPCRequestEnvelope option \<Rightarrow> bytes" where
  "marshal_single single = json_print (case single of None \<Rightarrow> JNull | Some e \<Rightarrow> marshal_envelope e)"

definition sub_request ::
  "(string \<Rightarrow> URL option) \<Rightarrow> string \<Rightarrow> Request \<Rightarrow> EVMRPCRequestEnvelope option \<Rightarrow> Request option" where
  "sub_request urlParse key r single =
     (let singleRequestContext = (case single of
            None \<Rightarrow> Ctx r
          | Some e \<Rightarrow> WithValue (Ctx r) key (CtxRequest (Some e))) in
      case NewRequestWithContext urlParse singleRequestContext (ReqMethod r) (ReqURL r) (marshal_single single) of
        None \<Rightarrow> None
      | Some req \<Rightarrow> Some (req\<lparr>Host := Host r, ReqHeader := ReqHeader r\<rparr>))"

fun sub_requests ::
  "(string \<Rightarrow> URL option) \<Rightarrow> string \<Rightarrow> Request \<Rightarrow> EVMRPCRequestEnvelope option list \<Rightarrow> Request list" where
  "sub_requests urlParse key r [] = []"
| "sub_requests urlParse key r (single # batch) =
     (case sub_request urlParse key r single of
        None \<Rightarrow> sub_requests urlParse key r batch
      | Some req \<Rightarrow> req # sub_requests urlParse key r batch)"

definition CreateBatchProcessingMiddleware ::
  "(string \<Rightarrow> URL option) \<Rightarrow> event list \<Rightarrow> ('s, ResponseWriter) handler \<Rightarrow> BatchMiddlewareConfig \<Rightarrow> ('s, ResponseWriter) handler" where
  "CreateBatchProcessingMiddleware urlParse schedule singleRequestHandler config W w r =
     (let batchReq = (case Value (Ctx r) (ContextKeyDecodedRequestBatch config) of Some (CtxBatch b) \<Rightarrow> b | _ \<Rightarrow> []) in
      if int (length batchReq) > MaximumBatchSize config then
        (W, w_Write (''request batch size is too large ('' @ show_int (int (length batchReq)) @ ''>'' @
              show_int (MaximumBatchSize config) @ '')'') (w_WriteHeader StatusRequestEntityTooLarge w), None)
      else (let reqs = sub_requests urlParse (ContextKeyDecodedRequestSingle config) r batchReq in
        case RequestAndServe schedule (NewBatchProcessor singleRequestHandler reqs) W w of
          (W', w', res) \<Rightarrow> (W', w', case res of Panic p \<Rightarrow> Some p | _ \<Rightarrow> None)))"

section \<open>What a finished batch holds\<close>

text \<open>The processor after the wait, in terms of what the handlers produced.\<close>

definition batch_result ::
  "('s, ResponseWriter) handler \<Rightarrow> Request list \<Rightarrow> 's BatchProcessor \<Rightarrow> (fakeResponseWriter \<times> go_panic option) list \<Rightarrow> bool" where
  "batch_result h reqs bp outs \<longleftrightarrow>
     length outs = length reqs \<and> (\<forall>i < length reqs. handler_outcome h (reqs ! i) (outs ! i)) \<and>
     bp_requests bp = reqs \<and>
     bp_responses bp = map (\<lambda>(f, p). if p = None then Some (fw_body f) else None) outs \<and>
     bp_cacheHits bp = (\<Sum>(f, p)\<leftarrow>outs. if p = None \<and> IsCacheHitHeaders (fw_header f) then 1 else 0) \<and>
     status_inv (map (fw_errors \<circ> fst) outs) (bp_status bp) \<and>
     header_inv (map (\<lambda>(f, p). if p = None then Some f else None) outs) (bp_header bp)"

lemma run_outcomes:
  assumes "st = run_schedule schedule (start_run W (NewBatchProcessor h reqs))"
  shows "\<exists>outs. batch_result h reqs (run_bp st) outs \<and> run_go st = map (\<lambda>(f, p). Finished f p) outs"
proof -
  have reach: "reachable (start_run W (NewBatchProcessor h reqs)) st" unfolding assms by (rule reachable_schedule)
  note inv = run_inv_reachable [OF reach] and shown = shown_inv_reachable [OF reach]
  have "\<not> enabled st ev" for ev unfolding assms run_schedule_def by (rule run_rest_stuck)
  note fin = stuck_finished [OF inv this]
  define outs where "outs = map (\<lambda>g. the (outcome_of g)) (run_go st)"
  have go: "run_go st = map (\<lambda>(f, p). Finished f p) outs"
  proof (rule nth_equalityI)
    fix i assume "i < length (run_go st)"
    then show "run_go st ! i = map (\<lambda>(f, p). Finished f p) outs ! i"
      using fin(1) fin(2) [of i] by (auto simp: outs_def)
  qed (simp add: outs_def)
  have len: "length outs = length reqs" using fin(1) by (simp add: outs_def)
  have h: "handler_outcome h (reqs ! i) (outs ! i)" if "i < length reqs" for i
    using run_inv_nth(4) [OF inv, of i "outs ! i"] that len fin(1) by (simp add: go case_prod_beta)
  have ans: "answered (Finished f p) = (if p = None then Some f else None)"
    "combined (Finished f p) = (if p = None then Some f else None)" for f p by (cases p; simp)+
  have "bp_responses (run_bp st) = map (\<lambda>(f, p). if p = None then Some (fw_body f) else None) outs"
    using inv fin(1) len by (auto simp: run_inv_def go case_prod_beta ans)
  moreover have "bp_cacheHits (run_bp st) = (\<Sum>(f, p)\<leftarrow>outs. if p = None \<and> IsCacheHitHeaders (fw_header f) then 1 else 0)"
    using inv by (simp add: run_inv_def go case_prod_beta hit.simps ans o_def if_distrib cong: if_cong)
       (intro arg_cong [where f = sum_list] map_cong; auto)
  moreover have "status_inv (map (fw_errors \<circ> fst) outs) (bp_status (run_bp st))"
    using shown by (simp add: shown_inv_def go case_prod_beta o_def)
  moreover have "header_inv (map (\<lambda>(f, p). if p = None then Some f else None) outs) (bp_header (run_bp st))"
    using shown by (simp add: shown_inv_def go case_prod_unfold o_def ans)
  ultimately show ?thesis using len h inv go by (auto simp: run_inv_def batch_result_def)
qed

lemma batch_outcomes:
  assumes "RequestAndServe schedule (NewBatchProcessor h reqs) W w = (W', w', res)"
  obtains bp outs where "serve_results bp w = (w', res)" "batch_result h reqs bp outs"
proof -
  let ?st = "run_schedule schedule (start_run W (NewBatchProcessor h reqs))"
  obtain outs where "batch_result h reqs (run_bp ?st) outs" using run_outcomes [OF refl] by blast
  moreover have "serve_results (run_bp ?st) w = (w', res)"
    using assms by (simp add: RequestAndServe_def Let_def split: prod.splits)
  ultimately show thesis using that by blast
qed

lemma collated_header:
  "Header_Get (w_Header (fst (serve_results bp w))) CacheHeaderKey =
     cacheHitValue (int (length (bp_requests bp))) (bp_cacheHits bp)"
  by (auto simp: serve_results_def Let_def split: option.split)

text \<open>The header map is complete when the head is sent.\<close>

lemma collated_head_sent:
  assumes "serve_results bp (Server v) = (Server v', res)" and "sent_head v = None" and "sent_head v' = Some (status, hdrs)"
  shows "hdrs = live_header v'"
  using assms
  by (auto simp: serve_results_def server_WriteHeader_def server_Write_def Let_def split: if_splits option.splits)

lemma serve_results_ok:
  assumes "bp_status bp = StatusOK" and "bp_responses bp = map Some bodies"
    and "map marshal_raw bodies = map Some js" and "sent_head v = None"
  shows "\<exists>v'. serve_results bp (Server v) = (Server v', Ok ()) \<and> sent_body v' = sent_body v @ json_print (JArr js) \<and>
    (\<exists>h. sent_head v' = Some (StatusOK, h))"
proof -
  have "those (map Some js) = Some js" by (induction js) simp_all
  then have "those (map (\<lambda>r. marshal_raw (the r)) (map Some bodies)) = Some js"
    using assms(3) by (simp add: o_def)
  then show ?thesis using assms(1,2,4)
    by (auto simp: serve_results_def server_WriteHeader_def server_Write_def StatusOK_def Let_def o_def)
qed

lemma serve_results_error:
  assumes "bp_status bp > 200" and "sent_head v = None"
  shows "\<exists>v'. serve_results bp (Server v) = (Server v', Ok ()) \<and> sent_body v' = sent_body v \<and>
    (\<exists>h. sent_head v' = Some (bp_status bp, h))"
  using assms by (auto simp: serve_results_def server_WriteHeader_def server_Write_def StatusOK_def Let_def)

text \<open>What is collated when every sub-request answered, and how many answers came from the cache.\<close>

lemma collated_answers:
  assumes r: "batch_result h reqs bp outs" and serve: "serve_results bp (Server v) = (w', res)"
    and out: "\<forall>i < length reqs. snd (outs ! i) = None \<and> fw_errors (fst (outs ! i)) = [] \<and>
      marshal_raw (fw_body (fst (outs ! i))) = Some (js ! i)"
    and "length js = length reqs" and "sent_head v = None"
  shows "res = Ok () \<and> (\<exists>v'. w' = Server v' \<and> sent_body v' = sent_body v @ json_print (JArr js) \<and>
    (\<exists>hdrs. sent_head v' = Some (StatusOK, hdrs)))"
proof -
  have len: "length outs = length reqs" and resp: "bp_responses bp = map (\<lambda>(f, p). if p = None then Some (fw_body f) else None) outs"
    and status: "status_inv (map (fw_errors \<circ> fst) outs) (bp_status bp)"
    using r by (simp_all add: batch_result_def)
  have "bp_responses bp = map Some (map (fw_body \<circ> fst) outs)"
    unfolding resp using out len by (intro nth_equalityI) (auto simp: case_prod_beta)
  moreover have "map marshal_raw (map (fw_body \<circ> fst) outs) = map Some js"
    using out len assms(4) by (intro nth_equalityI) auto
  moreover have "\<forall>x\<in>set outs. fw_errors (fst x) = []" using out len by (metis in_set_conv_nth)
  then have "bp_status bp = StatusOK" using status by (simp add: status_inv_def)
  ultimately show ?thesis
    using serve_results_ok [of bp "map (fw_body \<circ> fst) outs" js v] assms(5) serve by auto
qed

lemma collated_hits:
  assumes r: "batch_result h reqs bp outs" and serve: "serve_results bp w = (w', res)"
    and out: "\<forall>i < length reqs. snd (outs ! i) = None \<and> IsCacheHitHeaders (fw_header (fst (outs ! i))) = cached i"
  shows "Header_Get (w_Header w') CacheHeaderKey =
    (if \<forall>i < length reqs. \<not> cached i then CacheMissHeaderValue
     else if \<forall>i < length reqs. cached i then CacheHitHeaderValue else CachePartialHeaderValue)"
proof -
  let ?n = "length reqs" and ?C = "{i \<in> {..<length reqs}. cached i}"
  have len: "length outs = ?n" using r by (simp add: batch_result_def)
  have "bp_cacheHits bp = (\<Sum>i<?n. if snd (outs ! i) = None \<and> IsCacheHitHeaders (fw_header (fst (outs ! i))) then 1 else 0)"
    using r len by (simp add: batch_result_def sum_list_sum_nth case_prod_unfold atLeast0LessThan)
  also have "\<dots> = (\<Sum>i<?n. if cached i then 1 else 0)" using out by (intro sum.cong refl) (metis lessThan_iff)
  also have "\<dots> = int (card ?C)" by (simp add: sum.If_cases Int_def)
  finally have hits: "bp_cacheHits bp = int (card ?C)" .
  have all: "card ?C = ?n \<longleftrightarrow> (\<forall>i < ?n. cached i)"
  proof
    assume "card ?C = ?n"
    then have "?C = {..<?n}" by (intro card_subset_eq) auto
    then show "\<forall>i < ?n. cached i" by auto
  next
    assume "\<forall>i < ?n. cached i"
    then have "?C = {..<?n}" by auto
    then show "card ?C = ?n" by simp
  qed
  have none: "card ?C = 0 \<longleftrightarrow> (\<forall>i < ?n. \<not> cached i)" by auto
  have "Header_Get (w_Header w') CacheHeaderKey = cacheHitValue (int ?n) (int (card ?C))"
    using collated_header [of bp w] serve r hits by (simp add: batch_result_def)
  then show ?thesis using all none by (auto simp: cacheHitValue_def)
qed

section \<open>Properties\<close>

text \<open>C4: The responses of a batch come back in the order of its requests, whatever the interleaving of
  the goroutines. When every sub-request answers valid JSON and reports no error status, the batch answers 200
  with the JSON array of the (compacted) answers, one per request and in the order of the requests.\<close>

theorem batch_answers_in_order:
  assumes answer: "\<forall>i < length reqs. \<forall>W. \<exists>W' f.
      h W new_fake (reqs ! i) = (W', Fake f, None) \<and> fw_errors f = [] \<and> marshal_raw (fw_body f) = Some (js ! i)"
    and "length js = length reqs" and "sent_head v = None"
    and "RequestAndServe schedule (NewBatchProcessor h reqs) W (Server v) = (W', w', res)"
  shows "res = Ok () \<and> (\<exists>v'. w' = Server v' \<and> sent_body v' = sent_body v @ json_print (JArr js) \<and>
    (\<exists>hdrs. sent_head v' = Some (StatusOK, hdrs)))"
proof -
  from assms(4) obtain bp outs where serve: "serve_results bp (Server v) = (w', res)" and r: "batch_result h reqs bp outs"
    by (rule batch_outcomes)
  have "snd (outs ! i) = None \<and> fw_errors (fst (outs ! i)) = [] \<and> marshal_raw (fw_body (fst (outs ! i))) = Some (js ! i)"
    if i: "i < length reqs" for i
  proof -
    obtain W W' w p where "h W new_fake (reqs ! i) = (W', w, p)" "outs ! i = (fake_of w, p)"
      using r i by (auto simp: batch_result_def handler_outcome_def)
    moreover from answer i obtain V f where "h W new_fake (reqs ! i) = (V, Fake f, None)" "fw_errors f = []"
      "marshal_raw (fw_body f) = Some (js ! i)" by blast
    ultimately show ?thesis by auto
  qed
  then show ?thesis using collated_answers [OF r serve _ assms(2,3)] by blast
qed

text \<open>C13: An error status of any sub-request makes the whole batch fail: the response has no body, and its
  status is one that some sub-request reported.\<close>

theorem batch_error_status:
  assumes final: "\<forall>i < length reqs. \<forall>out. handler_outcome h (reqs ! i) out \<longrightarrow> (\<forall>s\<in>set (fw_errors (fst out)). 200 < s)"
    and "k < length reqs" and failing: "\<forall>out. handler_outcome h (reqs ! k) out \<longrightarrow> fw_errors (fst out) \<noteq> []"
    and "sent_head v = None"
    and "RequestAndServe schedule (NewBatchProcessor h reqs) W (Server v) = (W', w', res)"
  shows "\<exists>v' status hdrs. w' = Server v' \<and> sent_body v' = sent_body v \<and> sent_head v' = Some (status, hdrs) \<and>
    (\<exists>i out. i < length reqs \<and> handler_outcome h (reqs ! i) out \<and> status \<in> set (fw_errors (fst out)))"
proof -
  from assms(5) obtain bp outs where serve: "serve_results bp (Server v) = (w', res)" and "batch_result h reqs bp outs"
    by (rule batch_outcomes)
  then have outs: "length outs = length reqs" "\<And>i. i < length reqs \<Longrightarrow> handler_outcome h (reqs ! i) (outs ! i)"
    "status_inv (map (fw_errors \<circ> fst) outs) (bp_status bp)"
    by (simp_all add: batch_result_def)
  have "fw_errors (fst (outs ! k)) \<noteq> []" using failing outs(2) assms(2) by blast
  moreover have "outs ! k \<in> set outs" using outs(1) assms(2) by simp
  ultimately have "\<not> (\<forall>x\<in>set outs. fw_errors (fst x) = [])" by blast
  then have "bp_status bp \<in> set (concat (map (fw_errors \<circ> fst) outs))"
    using outs(3) by (auto simp: status_inv_def split: if_splits)
  then obtain i where i: "i < length reqs" "bp_status bp \<in> set (fw_errors (fst (outs ! i)))"
    using outs(1) by (force simp: in_set_conv_nth [of _ outs])
  with final outs(2) have "200 < bp_status bp" by blast
  then show ?thesis
    using serve_results_error [of bp v] assms(4) serve i outs(2) by (metis Pair_inject)
qed

text \<open>C15: The cache status of a batch tells how much of it came from the cache: HIT when every answer did, MISS when
  none did, PARTIAL otherwise. It goes out with the head of the response, whenever one is sent.\<close>

theorem batch_cache_status:
  assumes flag: "\<forall>i < length reqs. \<forall>out. handler_outcome h (reqs ! i) out \<longrightarrow>
      snd out = None \<and> IsCacheHitHeaders (fw_header (fst out)) = cached i"
    and "RequestAndServe schedule (NewBatchProcessor h reqs) W w = (W', w', res)"
  shows "Header_Get (w_Header w') CacheHeaderKey =
    (if \<forall>i < length reqs. \<not> cached i then CacheMissHeaderValue
     else if \<forall>i < length reqs. cached i then CacheHitHeaderValue else CachePartialHeaderValue) \<and>
    (\<forall>v v' status hdrs. w = Server v \<and> sent_head v = None \<and> w' = Server v' \<and> sent_head v' = Some (status, hdrs) \<longrightarrow>
      Header_Get hdrs CacheHeaderKey = Header_Get (w_Header w') CacheHeaderKey)"
proof -
  from assms(2) obtain bp outs where serve: "serve_results bp w = (w', res)" and r: "batch_result h reqs bp outs"
    by (rule batch_outcomes)
  have "\<forall>i < length reqs. snd (outs ! i) = None \<and> IsCacheHitHeaders (fw_header (fst (outs ! i))) = cached i"
    using r flag unfolding batch_result_def by blast
  from collated_hits [OF r serve this] show ?thesis using serve by (auto dest: collated_head_sent)
qed

text \<open>C16: A panic of a sub-request is discarded while it runs and comes back when the responses are collated: with a
  sub-request that panicked and no error status reported, collating dereferences its missing response, and nothing
  has been sent to the client by then.\<close>

theorem batch_panic_resurfaces:
  assumes quiet: "\<forall>i < length reqs. \<forall>out. handler_outcome h (reqs ! i) out \<longrightarrow> fw_errors (fst out) = []"
    and "k < length reqs" and panics: "\<forall>out. handler_outcome h (reqs ! k) out \<longrightarrow> snd out \<noteq> None"
    and "RequestAndServe schedule (NewBatchProcessor h reqs) W (Server v) = (W', w', res)"
  shows "res = Panic NilDereference \<and> (\<exists>v'. w' = Server v' \<and> sent_head v' = sent_head v \<and> sent_body v' = sent_body v)"
proof -
  from assms(4) obtain bp outs where serve: "serve_results bp (Server v) = (w', res)" and r: "batch_result h reqs bp outs"
    by (rule batch_outcomes)
  have len: "length outs = length reqs" and out: "\<And>i. i < length reqs \<Longrightarrow> handler_outcome h (reqs ! i) (outs ! i)"
    using r by (simp_all add: batch_result_def)
  have "snd (outs ! k) \<noteq> None" using panics out assms(2) by blast
  then have "bp_responses bp ! k = None" using r assms(2) len by (auto simp: batch_result_def case_prod_unfold)
  then have "None \<in> set (bp_responses bp)"
    using r assms(2) len by (metis (no_types, lifting) batch_result_def length_map nth_mem)
  moreover have "\<forall>x\<in>set outs. fw_errors (fst x) = []" using quiet out len by (metis in_set_conv_nth)
  then have "bp_status bp = StatusOK" using r by (simp add: batch_result_def status_inv_def)
  ultimately show ?thesis using serve by (auto simp: serve_results_def Let_def)
qed

text \<open>C11: The wait of a batch is never stuck and never ends early: in every state a run can reach, the counter of
  the wait group is the number of goroutines that have not finished; as long as the wait is not over some goroutine
  can move; and when it is over every sub-request has finished.\<close>

theorem batch_wait_is_live:
  assumes "reachable (start_run W (NewBatchProcessor h reqs)) st"
  shows "run_wg st = int (length (filter (\<lambda>g. live g = 1) (run_go st))) \<and>
    (wait_over st \<or> (\<exists>st'. batch_step st st')) \<and>
    (wait_over st \<longrightarrow> (\<forall>i < length reqs. \<exists>frw p. run_go st ! i = Finished frw p))"
proof -
  note inv = run_inv_reachable [OF assms]
  have "live g = 1 \<or> live g = 0" for g by (cases g) simp_all
  then have "(\<Sum>g\<leftarrow>gs. live g) = int (length (filter (\<lambda>g. live g = 1) gs))" for gs
    by (induction gs) auto
  then have "run_wg st = int (length (filter (\<lambda>g. live g = 1) (run_go st)))" using inv by (simp add: run_inv_def)
  moreover have "wait_over st \<or> (\<exists>st'. batch_step st st')"
    using stuck_finished [OF inv] inv by (metis batch_step.step run_inv_def wait_over_def)
  ultimately show ?thesis using wait_over_finished [OF inv] by blast
qed

text \<open>A batch with more requests than the configured maximum is refused with status 413 and a message that
  names both numbers; no sub-request is served.\<close>

theorem oversized_batch_refused:
  assumes "Value (Ctx r) (ContextKeyDecodedRequestBatch config) = Some (CtxBatch batch)"
    and "int (length batch) > MaximumBatchSize config" and "sent_head v = None"
    and "CreateBatchProcessingMiddleware urlParse schedule h config W (Server v) r = (W', w', p)"
  shows "W' = W \<and> p = None \<and> (\<exists>v'. w' = Server v' \<and> sent_head v' = Some (413, live_header v) \<and>
    sent_body v' = sent_body v @ ''request batch size is too large ('' @ show_int (int (length batch)) @ ''>'' @
      show_int (MaximumBatchSize config) @ '')'')"
  using assms by (auto simp: CreateBatchProcessingMiddleware_def server_Write_def server_WriteHeader_def status_codes Let_def)

lemma those_nth: "those xs = Some ys \<Longrightarrow> length ys = length xs \<and> (\<forall>i < length xs. xs ! i = Some (ys ! i))"
proof (induction xs arbitrary: ys)
  case (Cons x xs)
  then show ?case by (auto simp: nth_Cons split: option.splits nat.splits)
qed simp

lemma decoded_member_canon:
  assumes "float_roundtrip fnum" and "DecodeEVMRPCRequestList fnum body = Ok batch" and "i < length batch" and "batch ! i = Some e"
  shows "envelope_canon fnum e"
proof -
  from assms(2,3) obtain js where js: "json_parse body = Some (JArr js)" "those (map (unmarshal_pointer fnum) js) = Some batch"
    by (auto simp: DecodeEVMRPCRequestList_def split: option.splits json.splits)
  then have i: "i < length js" "unmarshal_pointer fnum (js ! i) = Some (Some e)"
    using those_nth [OF js(2)] assms(3,4) by auto
  have "json_wf (max_nesting - 1) (js ! i)" using json_parse_wf [OF js(1)] i(1) by simp
  then have "json_wf max_nesting (js ! i)" by (rule json_wf_mono) simp
  moreover have "unmarshal_envelope fnum (js ! i) = Some e" using i(2) by (cases "js ! i") auto
  ultimately show ?thesis using unmarshal_canon [OF assms(1)] by blast
qed

lemma sub_requests_map:
  assumes "list_all header_token (ReqMethod r)" and "ReqMethod r \<noteq> []" and "urlParse (ReqURL r) = Some u"
  shows "sub_requests urlParse key r batch = map (\<lambda>single.
    \<lparr>ReqMethod = ReqMethod r, ReqURL = u, Host = Host r, ReqHeader = ReqHeader r,
     Body = Some (Reader (marshal_single single) False), RemoteAddr = [],
     Ctx = (case single of None \<Rightarrow> Ctx r | Some e \<Rightarrow> WithValue (Ctx r) key (CtxRequest (Some e)))\<rparr>) batch"
  using assms by (induction batch) (simp_all add: sub_request_def NewRequestWithContext_def Let_def)

text \<open>C14: A batch is split without loss: there is one sub-request per member, in order, for the same host with the
  same headers; a member that is an envelope is in the context of its sub-request, and the body of the sub-request
  decodes to the same envelope; a \<^verbatim>\<open>null\<close> member stays undecoded.\<close>

theorem batch_split_faithful:
  assumes "float_roundtrip fnum" and "DecodeEVMRPCRequestList fnum body = Ok batch"
    and "list_all header_token (ReqMethod r)" and "ReqMethod r \<noteq> []" and "urlParse (ReqURL r) = Some u"
    and "decoded_request r key = None" and "reqs = sub_requests urlParse key r batch"
  shows "length reqs = length batch \<and> (\<forall>i < length batch. Host (reqs ! i) = Host r \<and> ReqHeader (reqs ! i) = ReqHeader r \<and>
    (case batch ! i of
       Some e \<Rightarrow> decoded_request (reqs ! i) key = Some (Some e) \<and>
         (\<exists>bs. Body (reqs ! i) = Some (Reader bs False) \<and> DecodeEVMRPCRequest fnum bs = Ok e)
     | None \<Rightarrow> decoded_request (reqs ! i) key = None \<and> Body (reqs ! i) = Some (Reader ''null'' False)))"
proof -
  note map = sub_requests_map [of r urlParse u key batch, OF assms(3-5), folded assms(7)]
  have dec: "DecodeEVMRPCRequest fnum (marshal_single (Some e)) = Ok e" if "i < length batch" "batch ! i = Some e" for i e
  proof -
    note canon = decoded_member_canon [OF assms(1,2) that]
    show ?thesis
      by (simp add: marshal_single_def DecodeEVMRPCRequest_def json_parse_print [OF marshal_envelope_wf [OF canon]]
          unmarshal_marshal_envelope [OF canon])
  qed
  show ?thesis unfolding map
    using assms(6) dec by (auto simp: decoded_request_def marshal_single_def split: option.split)
qed

section \<open>Examples\<close>

text \<open>Handlers that answer with the URL of the request, and misbehave on the URL \<^verbatim>\<open>2\<close>.\<close>

definition sample_sub :: "string \<Rightarrow> Request" where
  "sample_sub url = \<lparr>ReqMethod = ''POST'', ReqURL = url, Host = ''h'', ReqHeader = [], Body = None, RemoteAddr = [], Ctx = []\<rparr>"

definition echo_handler :: "(InMemoryCache, ResponseWriter) handler" where
  "echo_handler W w r = (W, w_Write (ReqURL r) w, None)"

definition failing_handler :: "(InMemoryCache, ResponseWriter) handler" where
  "failing_handler W w r = (W, if ReqURL r = ''2'' then w_WriteHeader 502 w else w_Write (ReqURL r) w, None)"

definition half_cached_handler :: "(InMemoryCache, ResponseWriter) handler" where
  "half_cached_handler W w r =
     (W, if ReqURL r = ''2'' then w_change_header (Header_Set CacheHeaderKey CacheHitHeaderValue) w else w, None)"

definition panicking_handler :: "(InMemoryCache, ResponseWriter) handler" where
  "panicking_handler W w r = (W, w, if ReqURL r = ''2'' then Some AbortHandler else None)"

lemmas sample_handlers = echo_handler_def failing_handler_def half_cached_handler_def panicking_handler_def

lemma sample_outcomes:
  "handler_outcome echo_handler (sample_sub u) out \<longleftrightarrow> out = (\<lparr>fw_body = u, fw_header = [], fw_errors = []\<rparr>, None)"
  "handler_outcome failing_handler (sample_sub u) out \<longleftrightarrow>
     out = (\<lparr>fw_body = if u = ''2'' then [] else u, fw_header = [], fw_errors = if u = ''2'' then [502] else []\<rparr>, None)"
  "handler_outcome half_cached_handler (sample_sub u) out \<longleftrightarrow>
     out = (\<lparr>fw_body = [], fw_header = if u = ''2'' then Header_Set CacheHeaderKey CacheHitHeaderValue [] else [], fw_errors = []\<rparr>, None)"
  "handler_outcome panicking_handler (sample_sub u) out \<longleftrightarrow>
     out = (\<lparr>fw_body = [], fw_header = [], fw_errors = []\<rparr>, if u = ''2'' then Some AbortHandler else None)"
  by (auto simp: handler_outcome_def sample_handlers sample_sub_def new_fake_def writer_defs status_codes)

text \<open>The second goroutine overtakes the first.\<close>

definition sample_schedule :: "event list" where
  "sample_schedule = [Launch, Launch, Resume 1, Resume 1, Resume 0, Resume 1, Resume 1]"

lemma RequestAndServe_triple:
  "RequestAndServe s bp W w = (fst (RequestAndServe s bp W w), fst (snd (RequestAndServe s bp W w)), snd (snd (RequestAndServe s bp W w)))"
  by simp

abbreviation sample_subs :: "Request list" where
  "sample_subs \<equiv> [sample_sub ''1'', sample_sub ''2'']"

abbreviation sample_run :: "(InMemoryCache, ResponseWriter) handler \<Rightarrow> InMemoryCache World \<times> ResponseWriter \<times> (unit, unit) result" where
  "sample_run h \<equiv> RequestAndServe sample_schedule (NewBatchProcessor h sample_subs) (sample_world []) (Server new_response)"

lemma sample_run_triple: "sample_run h = (fst (sample_run h), fst (snd (sample_run h)), snd (snd (sample_run h)))"
  by simp

lemma new_response_unsent: "sent_head new_response = None" "sent_body new_response = []"
  by (simp_all add: new_response_def)

lemma all_subs: "(\<forall>i < length sample_subs. P i) \<longleftrightarrow> P 0 \<and> P 1"
  by (auto simp: less_Suc_eq)

theorem batch_answers_in_order_witness:
  "\<exists>v'. fst (snd (sample_run echo_handler)) = Server v' \<and> sent_body v' = ''[1,2]''"
proof -
  have raw: "marshal_raw ''1'' = Some (JNum ''1'')" "marshal_raw ''2'' = Some (JNum ''2'')" by code_simp+
  have "\<forall>i < length sample_subs. \<forall>W. \<exists>W' f. echo_handler W new_fake (sample_subs ! i) = (W', Fake f, None) \<and>
      fw_errors f = [] \<and> marshal_raw (fw_body f) = Some ([JNum ''1'', JNum ''2''] ! i)"
    unfolding all_subs using raw by (simp add: echo_handler_def new_fake_def sample_sub_def writer_defs)
  from batch_answers_in_order [where reqs = sample_subs and h = echo_handler and js = "[JNum ''1'', JNum ''2'']",
      OF this _ new_response_unsent(1) sample_run_triple]
  show ?thesis by (auto simp: new_response_unsent)
qed

theorem batch_error_status_witness:
  "\<exists>v' status hdrs. fst (snd (sample_run failing_handler)) = Server v' \<and> sent_body v' = [] \<and>
     sent_head v' = Some (status, hdrs) \<and> status \<noteq> 200"
proof -
  have codes: "\<forall>i < length sample_subs. \<forall>out. handler_outcome failing_handler (sample_subs ! i) out \<longrightarrow>
      (\<forall>s\<in>set (fw_errors (fst out)). 200 < s)"
    unfolding all_subs by (simp add: sample_outcomes)
  have k: "1 < length sample_subs" by simp
  have "\<forall>out. handler_outcome failing_handler (sample_subs ! 1) out \<longrightarrow> fw_errors (fst out) \<noteq> []"
    by (simp add: sample_outcomes)
  from batch_error_status [OF codes k this new_response_unsent(1) sample_run_triple]
  obtain v' status hdrs i out where
    v': "fst (snd (sample_run failing_handler)) = Server v'" "sent_body v' = sent_body new_response" "sent_head v' = Some (status, hdrs)"
    and "i < length sample_subs" "handler_outcome failing_handler (sample_subs ! i) out" "status \<in> set (fw_errors (fst out))"
    by blast
  with codes have "200 < status" by blast
  then have "status \<noteq> 200" by simp
  with v' show ?thesis unfolding new_response_unsent by (intro exI conjI) simp_all
qed

theorem batch_cache_status_witness:
  "Header_Get (w_Header (fst (snd (sample_run half_cached_handler)))) CacheHeaderKey = ''PARTIAL''"
proof -
  have "\<forall>i < length sample_subs. \<forall>out. handler_outcome half_cached_handler (sample_subs ! i) out \<longrightarrow>
      snd out = None \<and> IsCacheHitHeaders (fw_header (fst out)) = (i = 1)"
    unfolding all_subs by (simp add: sample_outcomes IsCacheHitHeaders_def CacheHitHeaderValue_def)
       (simp add: Header_Get_def header_values_def)
  from batch_cache_status [OF this sample_run_triple] show ?thesis
    unfolding all_subs by (simp add: CachePartialHeaderValue_def)
qed

theorem batch_panic_resurfaces_witness: "snd (snd (sample_run panicking_handler)) = Panic NilDereference"
proof -
  have "\<forall>i < length sample_subs. \<forall>out. handler_outcome panicking_handler (sample_subs ! i) out \<longrightarrow> fw_errors (fst out) = []"
    unfolding all_subs by (simp add: sample_outcomes)
  note quiet = this
  have k: "1 < length sample_subs" by simp
  have "\<forall>out. handler_outcome panicking_handler (sample_subs ! 1) out \<longrightarrow> snd out \<noteq> None"
    by (simp add: sample_outcomes)
  from batch_panic_resurfaces [OF quiet k this sample_run_triple] show ?thesis by blast
qed

theorem batch_wait_is_live_witness:
  "\<exists>st'. batch_step (start_run (sample_world []) (NewBatchProcessor echo_handler sample_subs)) st'"
  using batch_wait_is_live [OF reachable.here, of "sample_world []" echo_handler sample_subs]
  by (auto simp: wait_over_def start_run_def NewBatchProcessor_def)

definition sample_batch_config :: BatchMiddlewareConfig where
  "sample_batch_config = \<lparr>ContextKeyDecodedRequestBatch = DecodedBatchRequestContextKey,
     ContextKeyDecodedRequestSingle = DecodedRequestContextKey, MaximumBatchSize = 1\<rparr>"

theorem oversized_batch_refused_witness:
  "\<exists>v'. fst (snd (CreateBatchProcessingMiddleware Some sample_schedule echo_handler sample_batch_config (sample_world [])
      (Server new_response) ((sample_sub ''/'')\<lparr>Ctx := [(DecodedBatchRequestContextKey, CtxBatch [None, None])]\<rparr>))) = Server v' \<and>
    sent_body v' = ''request batch size is too large (2>1)''"
proof -
  let ?r = "(sample_sub ''/'')\<lparr>Ctx := [(DecodedBatchRequestContextKey, CtxBatch [None, None])]\<rparr>"
  let ?out = "CreateBatchProcessingMiddleware Some sample_schedule echo_handler sample_batch_config (sample_world [])
      (Server new_response) ?r"
  have out: "?out = (fst ?out, fst (snd ?out), snd (snd ?out))" by simp
  have "Value (Ctx ?r) (ContextKeyDecodedRequestBatch sample_batch_config) = Some (CtxBatch [None, None])"
    by (simp add: sample_batch_config_def Value_def)
  moreover have "int (length ([None, None] :: EVMRPCRequestEnvelope option list)) > MaximumBatchSize sample_batch_config"
    by (simp add: sample_batch_config_def)
  ultimately obtain v' where "fst (snd ?out) = Server v'"
    "sent_body v' = ''request batch size is too large ('' @ show_int (int (length ([None, None] :: EVMRPCRequestEnvelope option list))) @ ''>'' @
      show_int (MaximumBatchSize sample_batch_config) @ '')''"
    using oversized_batch_refused [OF _ _ new_response_unsent(1) out] unfolding new_response_unsent by auto
  moreover have "show_int 2 = ''2''" "show_int 1 = ''1''" by code_simp+
  ultimately show ?thesis by (auto simp: sample_batch_config_def)
qed

text \<open>A batch of one request and a \<^verbatim>\<open>null\<close>.\<close>

definition sample_batch_body :: bytes where
  "sample_batch_body = ''['' @ json_print (marshal_envelope (sample_envelope ''a'')) @ '',null]''"

theorem batch_split_faithful_witness:
  "length (sub_requests Some DecodedRequestContextKey (sample_sub ''/'') [Some (sample_envelope ''a''), None]) = 2"
proof -
  have d: "DecodeEVMRPCRequestList sample_num sample_batch_body = Ok [Some (sample_envelope ''a''), None]" by code_simp
  have m: "list_all header_token (ReqMethod (sample_sub ''/''))" "ReqMethod (sample_sub ''/'') \<noteq> []"
    "decoded_request (sample_sub ''/'') DecodedRequestContextKey = None"
    by (simp_all add: sample_sub_def header_token_def decoded_request_def Value_def)
  from batch_split_faithful [where urlParse = Some, OF sample_num_roundtrip d m(1,2) refl m(3) refl]
  show ?thesis by (simp del: sub_requests.simps)
qed

end
