(* ===== verification/Postgres.thy ===== *)
theory Postgres
  imports Database ConfigData
begin

text \<open>
  \<^verbatim>\<open>clients/database/postgres\<close>: the settings of a connection (\<^verbatim>\<open>database.go\<close>), the catalogue queries
  and the pruning query of \<^verbatim>\<open>request_metric.go\<close>, and running the migrations (\<^verbatim>\<open>migrate.go\<close>). The
  driver, the query builder and the migrator are third-party packages: a connection is the
  record of the options handed to them, a query is its text, and the migrator is a record of
  operations on a state of its own. The lock of the migrations is taken in a loop without an
  end of its own, which is a partial function.
\<close>

section \<open>A connection\<close>

record DatabaseConfig =
  dc_DatabaseName :: string
  dc_DatabaseEndpointURL :: string
  dc_DatabaseUsername :: string
  dc_DatabasePassword :: string
  dc_ReadTimeoutSeconds :: int
  dc_WriteTimeoutSeconds :: int
  dc_DatabaseMaxIdleConnections :: int
  dc_DatabaseConnectionMaxIdleSeconds :: int
  dc_DatabaseMaxOpenConnections :: int
  dc_SSLEnabled :: bool
  dc_QueryLoggingEnabled :: bool
  dc_RunDatabaseMigrations :: bool

text \<open>The options of the driver, in the order they are applied, and the limits of the pool.\<close>

datatype pg_option =
    WithAddr string
  | WithUser string
  | WithTLSConfig bool
  | WithInsecure bool
  | WithPassword string
  | WithDatabase string
  | WithReadTimeout int
  | WithWriteTimeout int

record Client =
  cl_options :: "pg_option list"
  cl_MaxIdleConns :: int
  cl_ConnMaxIdleTime :: int
  cl_MaxOpenConns :: int
  cl_verboseQueryHook :: bool

text \<open>\<open>WithTLSConfig\<close> holds the value of \<^verbatim>\<open>InsecureSkipVerify\<close>; a duration is an int64 of nanoseconds.\<close>

definition seconds :: "int \<Rightarrow> int" where
  "seconds n = int64_wrap (1000000000 * n)"

definition NewClient :: "DatabaseConfig \<Rightarrow> (string, Client) result" where
  "NewClient config =
     (let pgOptions =
        (if dc_SSLEnabled config then
           [WithAddr (dc_DatabaseEndpointURL config), WithUser (dc_DatabaseUsername config), WithTLSConfig False,
            WithPassword (dc_DatabasePassword config), WithDatabase (dc_DatabaseName config),
            WithReadTimeout (seconds (dc_ReadTimeoutSeconds config)),
            WithWriteTimeout (seconds (dc_WriteTimeoutSeconds config))]
         else
           [WithAddr (dc_DatabaseEndpointURL config), WithUser (dc_DatabaseUsername config), WithInsecure True,
            WithPassword (dc_DatabasePassword config), WithDatabase (dc_DatabaseName config),
            WithReadTimeout (seconds (dc_ReadTimeoutSeconds config)),
            WithWriteTimeout (seconds (dc_WriteTimeoutSeconds config))]) in
      Ok \<lparr>cl_options = pgOptions, cl_MaxIdleConns = dc_DatabaseMaxIdleConnections config,
          cl_ConnMaxIdleTime = seconds (dc_DatabaseConnectionMaxIdleSeconds config),
          cl_MaxOpenConns = dc_DatabaseMaxOpenConnections config,
          cl_verboseQueryHook = dc_QueryLoggingEnabled config\<rparr>)"

section \<open>Queries\<close>

definition ProxiedRequestMetricsTableName :: string where
  "ProxiedRequestMetricsTableName = ''proxied_request_metrics''"

definition nl :: string where "nl = [CHR 0x0A]"
definition tab :: string where "tab = [CHR 0x09]"
definition sql_quoted :: "string \<Rightarrow> string" where "sql_quoted s = CHR 0x27 # s @ [CHR 0x27]"

text \<open>The joins both catalogue queries share, each line after an indentation.\<close>

definition catalogue_joins :: "string \<Rightarrow> string" where
  "catalogue_joins indent =
     indent @ ''JOIN pg_class parent            ON pg_inherits.inhparent = parent.oid'' @ nl @
     indent @ ''JOIN pg_class child             ON pg_inherits.inhrelid   = child.oid'' @ nl @
     indent @ ''JOIN pg_namespace nmsp_parent   ON nmsp_parent.oid  = parent.relnamespace'' @ nl @
     indent @ ''JOIN pg_namespace nmsp_child    ON nmsp_child.oid   = child.relnamespace'' @ nl"

definition countPartitionsQuery :: string where
  "countPartitionsQuery =
     nl @ tab @ ''SELECT COUNT (*)'' @ nl @ tab @ ''FROM pg_inherits'' @ nl @ catalogue_joins (tab @ tab) @
     tab @ ''WHERE parent.relname='' @ sql_quoted ProxiedRequestMetricsTableName @ '';''"

definition lastCreatedAttachedPartitionNameQuery :: string where
  "lastCreatedAttachedPartitionNameQuery =
     nl @ ''SELECT'' @ nl @ tab @ ''child.relname       AS child'' @ nl @ ''FROM pg_inherits'' @ nl @ catalogue_joins tab @
     ''WHERE parent.relname='' @ sql_quoted ProxiedRequestMetricsTableName @ '' order by child.oid desc limit 1;''"

text \<open>\<open>queryRow\<close> stands for the query and the scan of its single row.\<close>

definition CountAttachedProxiedRequestMetricPartitions :: "(string \<Rightarrow> (string, int) result) \<Rightarrow> int \<times> error" where
  "CountAttachedProxiedRequestMetricPartitions queryRow =
     (case queryRow countPartitionsQuery of
        Ok count \<Rightarrow> (count, None)
      | Err err \<Rightarrow> (0, Some (''error '' @ err @ '' querying '' @ countPartitionsQuery @ '' count of partitions''))
      | Panic p \<Rightarrow> (0, None))"

definition GetLastCreatedAttachedProxiedRequestMetricsPartitionName ::
  "(string \<Rightarrow> (string, string) result) \<Rightarrow> string \<times> error" where
  "GetLastCreatedAttachedProxiedRequestMetricsPartitionName queryRow =
     (case queryRow lastCreatedAttachedPartitionNameQuery of
        Ok name \<Rightarrow> (name, None)
      | Err err \<Rightarrow> ([], Some (''error '' @ err @ '' querying '' @ lastCreatedAttachedPartitionNameQuery @
          '' latest proxied request metrics partition name''))
      | Panic p \<Rightarrow> ([], None))"

text \<open>\<open>exec_delete\<close> stands for the delete query with its condition.\<close>

definition DeleteProxiedRequestMetricsOlderThanNDays :: "('d \<Rightarrow> string \<Rightarrow> 'd \<times> error) \<Rightarrow> 'd \<Rightarrow> int \<Rightarrow> 'd \<times> error" where
  "DeleteProxiedRequestMetricsOlderThanNDays exec_delete db n =
     exec_delete db (''request_time < now() - interval '' @ sql_quoted (show_int n) @ '' day'')"

section \<open>Migrations\<close>

record ('m, 'x) migrator =
  mg_Init :: "'m \<Rightarrow> 'm \<times> error"
  mg_Lock :: "'m \<Rightarrow> 'm \<times> error"
  mg_Unlock :: "'m \<Rightarrow> 'm \<times> error"
  mg_Migrate :: "'m \<Rightarrow> 'm \<times> (string + int)"
  mg_Rollback :: "'m \<Rightarrow> 'm \<times> (string + int)"
  mg_MigrationsWithStatus :: "'m \<Rightarrow> 'm \<times> (string + 'x)"

text \<open>Taking the lock is tried until it succeeds.\<close>

partial_function (option) acquire :: "('m, 'x) migrator \<Rightarrow> 'm \<Rightarrow> 'm option" where
  "acquire mg m = (case mg_Lock mg m of (m', Some err) \<Rightarrow> acquire mg m' | (m', None) \<Rightarrow> Some m')"

text \<open>What happens while the lock is held; a group is its number.\<close>

definition migrate_locked :: "('m, 'x) migrator \<Rightarrow> 'm \<Rightarrow> 'm \<times> (string + 'x)" where
  "migrate_locked mg m =
     (case mg_Migrate mg m of
        (m', Inl err) \<Rightarrow>
          (case mg_Rollback mg m' of
             (m'', Inl rollbackErr) \<Rightarrow> (m'', Inl (''error '' @ rollbackErr @ '' rolling back after original error '' @ err))
           | (m'', Inr groupID) \<Rightarrow>
               if groupID = 0 then (m'', Inl (''no groups to rollback after migration error '' @ err))
               else (m'', Inl (''rolled back after migration error '' @ err)))
      | (m', Inr groupID) \<Rightarrow> mg_MigrationsWithStatus mg m')"

definition Migrate :: "('m, 'x) migrator \<Rightarrow> 'm \<Rightarrow> ('m \<times> (string + 'x)) option" where
  "Migrate mg m =
     (case mg_Init mg m of
        (m1, Some err) \<Rightarrow> Some (m1, Inl err)
      | (m1, None) \<Rightarrow>
          (case acquire mg m1 of
             None \<Rightarrow> None
           | Some m2 \<Rightarrow> (case migrate_locked mg m2 of (m3, res) \<Rightarrow> Some (fst (mg_Unlock mg m3), res))))"

text \<open>The state after \<open>n\<close> attempts at the lock.\<close>

definition after_tries :: "('m, 'x) migrator \<Rightarrow> nat \<Rightarrow> 'm \<Rightarrow> 'm" where
  "after_tries mg n m = ((\<lambda>m. fst (mg_Lock mg m)) ^^ n) m"

lemma acquire_eventually:
  assumes "snd (mg_Lock mg (after_tries mg n m)) = None"
  shows "\<exists>k \<le> n. snd (mg_Lock mg (after_tries mg k m)) = None \<and> acquire mg m = Some (after_tries mg (Suc k) m)"
  using assms
proof (induction n arbitrary: m)
  case 0
  then show ?case by (cases "mg_Lock mg m") (auto simp: acquire.simps after_tries_def)
next
  case (Suc n)
  obtain m' e where lock: "mg_Lock mg m = (m', e)" by fastforce
  have step: "after_tries mg (Suc k) m = after_tries mg k m'" for k
    using lock by (simp add: after_tries_def funpow_Suc_right del: funpow.simps)
  show ?case
  proof (cases e)
    case None
    then show ?thesis using lock by (intro exI [of _ 0]) (simp add: acquire.simps after_tries_def)
  next
    case (Some err)
    obtain k where "k \<le> n" "snd (mg_Lock mg (after_tries mg k m')) = None" "acquire mg m' = Some (after_tries mg (Suc k) m')"
      using Suc.IH [of m'] Suc.prems step by auto
    then show ?thesis using lock Some step by (intro exI [of _ "Suc k"]) (simp add: acquire.simps)
  qed
qed

text \<open>The attempt that is granted first.\<close>

definition granted_at :: "('m, 'x) migrator \<Rightarrow> 'm \<Rightarrow> nat \<Rightarrow> bool" where
  "granted_at mg m k \<longleftrightarrow> snd (mg_Lock mg (after_tries mg k m)) = None \<and> (\<forall>j < k. snd (mg_Lock mg (after_tries mg j m)) \<noteq> None)"

lemma granted_at_unique: "granted_at mg m k \<Longrightarrow> granted_at mg m k' \<Longrightarrow> k = k'"
  unfolding granted_at_def by (meson linorder_neqE_nat)

lemma granted_at_next:
  assumes "mg_Lock mg m = (m', Some err)" and "granted_at mg m' k"
  shows "granted_at mg m (Suc k) \<and> after_tries mg (Suc (Suc k)) m = after_tries mg (Suc k) m'"
proof -
  have step: "after_tries mg (Suc k) m = after_tries mg k m'" for k
    using assms(1) by (simp add: after_tries_def funpow_Suc_right del: funpow.simps)
  have "snd (mg_Lock mg (after_tries mg j m)) \<noteq> None" if "j < Suc k" for j
    using that assms by (cases j) (simp_all add: step granted_at_def, simp add: after_tries_def)
  then show ?thesis using assms(2) step by (simp add: granted_at_def)
qed

lemma acquire_granted: "acquire mg m = Some m' \<Longrightarrow> \<exists>k. granted_at mg m k \<and> m' = after_tries mg (Suc k) m"
proof -
  assume "acquire mg m = Some m'"
  then show ?thesis
  proof (rule acquire.raw_induct [rotated])
    fix rec :: "('m, 'x) migrator \<Rightarrow> 'm \<Rightarrow> 'm option" and mg m m'
    assume IH: "\<And>mg m m'. rec mg m = Some m' \<Longrightarrow> \<exists>k. granted_at mg m k \<and> m' = after_tries mg (Suc k) m"
      and run: "(case mg_Lock mg m of (m', None) \<Rightarrow> Some m' | (m', Some err) \<Rightarrow> rec mg m') = Some m'"
    obtain m1 e where lock: "mg_Lock mg m = (m1, e)" by fastforce
    show "\<exists>k. granted_at mg m k \<and> m' = after_tries mg (Suc k) m"
    proof (cases e)
      case None
      then show ?thesis using run lock by (intro exI [of _ 0]) (simp add: after_tries_def granted_at_def)
    next
      case (Some err)
      then obtain k where "granted_at mg m1 k" "m' = after_tries mg (Suc k) m1" using IH [of mg m1 m'] run lock by auto
      then show ?thesis using granted_at_next [of mg m m1 err k] lock Some by metis
    qed
  qed
qed

lemma acquire_granted_at:
  assumes "granted_at mg m k"
  shows "acquire mg m = Some (after_tries mg (Suc k) m)"
proof -
  have "snd (mg_Lock mg (after_tries mg k m)) = None" using assms by (simp add: granted_at_def)
  then obtain m' where "acquire mg m = Some m'" using acquire_eventually [of mg k m] by auto
  then show ?thesis using acquire_granted [of mg m m'] granted_at_unique [OF assms] by auto
qed

lemma acquire_None: "acquire mg m = None \<longleftrightarrow> (\<forall>n. snd (mg_Lock mg (after_tries mg n m)) \<noteq> None)"
proof (cases "acquire mg m")
  case None
  then have "snd (mg_Lock mg (after_tries mg n m)) \<noteq> None" for n using acquire_eventually [of mg n m] by auto
  then show ?thesis using None by simp
next
  case (Some m')
  then obtain k where "snd (mg_Lock mg (after_tries mg k m)) = None" using acquire_granted [OF Some] by (auto simp: granted_at_def)
  then show ?thesis using Some by auto
qed

text \<open>
  A migrator that notes each of its operations, and whether it succeeded, in the order in which
  they are run.
\<close>

datatype migrator_op = OpInit | OpLock | OpUnlock | OpMigrate | OpRollback | OpStatus

fun noting :: "migrator_op \<Rightarrow> ('m \<Rightarrow> 'm \<times> 'a) \<Rightarrow> ('a \<Rightarrow> bool) \<Rightarrow> 'm \<times> (migrator_op \<times> bool) list \<Rightarrow>
    ('m \<times> (migrator_op \<times> bool) list) \<times> 'a" where
  "noting oper f good (m, log) = (case f m of (m', a) \<Rightarrow> ((m', log @ [(oper, good a)]), a))"

definition logged :: "('m, 'x) migrator \<Rightarrow> ('m \<times> (migrator_op \<times> bool) list, 'x) migrator" where
  "logged mg =
     \<lparr>mg_Init = noting OpInit (mg_Init mg) (\<lambda>e. e = None), mg_Lock = noting OpLock (mg_Lock mg) (\<lambda>e. e = None),
      mg_Unlock = noting OpUnlock (mg_Unlock mg) (\<lambda>e. e = None), mg_Migrate = noting OpMigrate (mg_Migrate mg) (\<lambda>r. \<not> isl r),
      mg_Rollback = noting OpRollback (mg_Rollback mg) (\<lambda>r. \<not> isl r),
      mg_MigrationsWithStatus = noting OpStatus (mg_MigrationsWithStatus mg) (\<lambda>r. \<not> isl r)\<rparr>"

lemma after_tries_Suc: "after_tries mg (Suc n) m = fst (mg_Lock mg (after_tries mg n m))"
  by (simp add: after_tries_def)

lemma after_tries_logged:
  "after_tries (logged mg) n (m, log) =
     (after_tries mg n m, log @ map (\<lambda>j. (OpLock, snd (mg_Lock mg (after_tries mg j m)) = None)) [0..<n])"
  by (induction n) (simp_all add: after_tries_Suc logged_def split_def, simp add: after_tries_def)

lemma lock_logged: "snd (mg_Lock (logged mg) (m, log)) = snd (mg_Lock mg m)"
  by (simp add: logged_def split_def)

lemma granted_at_logged: "granted_at (logged mg) (m, log) k \<longleftrightarrow> granted_at mg m k"
  by (simp add: granted_at_def after_tries_logged lock_logged)

lemma acquire_logged:
  "acquire mg m = None \<longleftrightarrow> acquire (logged mg) (m, log) = None"
  "acquire (logged mg) (m, log) = Some (m', log') \<Longrightarrow>
     acquire mg m = Some m' \<and> (\<exists>k. log' = log @ replicate k (OpLock, False) @ [(OpLock, True)])"
proof -
  show "acquire mg m = None \<longleftrightarrow> acquire (logged mg) (m, log) = None"
    by (simp only: acquire_None after_tries_logged lock_logged)
  assume "acquire (logged mg) (m, log) = Some (m', log')"
  then obtain k where k: "granted_at mg m k" "(m', log') = after_tries (logged mg) (Suc k) (m, log)"
    using acquire_granted [of "logged mg"] granted_at_logged by metis
  have "map (\<lambda>j. (OpLock, snd (mg_Lock mg (after_tries mg j m)) = None)) [0..<k] = replicate k (OpLock, False)"
    using k(1) by (intro nth_equalityI) (auto simp: granted_at_def)
  moreover have "snd (mg_Lock mg (after_tries mg k m)) = None" using k(1) by (simp add: granted_at_def)
  ultimately show "acquire mg m = Some m' \<and> (\<exists>k. log' = log @ replicate k (OpLock, False) @ [(OpLock, True)])"
    using k(2) acquire_granted_at [OF k(1)] by (auto simp: after_tries_logged)
qed

lemma migrate_locked_logged:
  assumes "migrate_locked (logged mg) (m, log) = ((m', log'), res)"
  shows "migrate_locked mg m = (m', res) \<and>
    (log' = log @ [(OpMigrate, True), (OpStatus, \<not> isl res)] \<or>
     isl res \<and> (\<exists>b. log' = log @ [(OpMigrate, False), (OpRollback, b)]))"
  using assms
  by (auto simp: migrate_locked_def logged_def split: prod.splits sum.splits if_splits)

text \<open>C34: Running the migrations ends exactly when the lock is granted at some attempt, and then the operations
  were, in this order: the set-up, the refused attempts at the lock, one granted attempt, the
  migration, reading the list back (after a failed migration a rollback in its place), and last of
  all the release of the lock. So nothing is migrated without the lock, and it is released on
  every path. The result is a list exactly when migrating and reading it back succeeded. The
  log changes nothing of what is run.\<close>

theorem migrations_release_lock:
  assumes "mg_Init mg m = (m1, None)"
  shows "(Migrate mg m = None \<longleftrightarrow> (\<forall>n. snd (mg_Lock mg (after_tries mg n m1)) \<noteq> None)) \<and>
    Migrate mg m = map_option (\<lambda>((m', log), res). (m', res)) (Migrate (logged mg) (m, [])) \<and>
    (\<forall>m' log res. Migrate (logged mg) (m, []) = Some ((m', log), res) \<longrightarrow>
      (\<exists>k work released.
        log = (OpInit, True) # replicate k (OpLock, False) @ [(OpLock, True)] @ work @ [(OpUnlock, released)] \<and>
        (work = [(OpMigrate, True), (OpStatus, \<not> isl res)] \<or>
         isl res \<and> (\<exists>b. work = [(OpMigrate, False), (OpRollback, b)]))))"
proof (cases "acquire (logged mg) (m1, [(OpInit, True)])")
  case None
  then have none: "acquire mg m1 = None" using acquire_logged(1) [of mg m1 "[(OpInit, True)]"] by simp
  have "mg_Init (logged mg) (m, []) = ((m1, [(OpInit, True)]), None)" using assms by (simp add: logged_def)
  then have "Migrate (logged mg) (m, []) = None" using None by (simp add: Migrate_def)
  moreover have "Migrate mg m = None" using assms none by (simp add: Migrate_def)
  moreover have "\<forall>n. snd (mg_Lock mg (after_tries mg n m1)) \<noteq> None" using none unfolding acquire_None .
  ultimately show ?thesis by simp
next
  case (Some p)
  obtain m2 log2 m3 log3 res where p: "p = (m2, log2)" and l: "migrate_locked (logged mg) (m2, log2) = ((m3, log3), res)"
    by (metis surj_pair)
  have acq: "acquire mg m1 = Some m2" using acquire_logged(2) [OF Some [unfolded p]] by simp
  obtain k where k: "log2 = (OpInit, True) # replicate k (OpLock, False) @ [(OpLock, True)]"
    using acquire_logged(2) [OF Some [unfolded p]] by auto
  obtain work where work: "log3 = log2 @ work"
      "work = [(OpMigrate, True), (OpStatus, \<not> isl res)] \<or> isl res \<and> (\<exists>b. work = [(OpMigrate, False), (OpRollback, b)])"
    and run: "migrate_locked mg m2 = (m3, res)"
    using migrate_locked_logged [OF l] by blast
  obtain m4 e where un: "mg_Unlock mg m3 = (m4, e)" by fastforce
  have init: "mg_Init (logged mg) (m, []) = ((m1, [(OpInit, True)]), None)" using assms by (simp add: logged_def)
  have "mg_Unlock (logged mg) (m3, log3) = ((m4, log3 @ [(OpUnlock, e = None)]), e)" using un by (simp add: logged_def)
  then have "Migrate (logged mg) (m, []) = Some ((m4, log3 @ [(OpUnlock, e = None)]), res)"
    using Some p l init by (simp add: Migrate_def)
  moreover have "Migrate mg m = Some (m4, res)" using assms acq run un by (simp add: Migrate_def)
  moreover have "\<not> (\<forall>n. snd (mg_Lock mg (after_tries mg n m1)) \<noteq> None)" using acq acquire_None [of mg m1] by simp
  ultimately show ?thesis using work k by auto
qed

text \<open>A migrator whose lock is refused twice and whose migrations fail.\<close>

definition sample_migrator :: "(nat, string list) migrator" where
  "sample_migrator =
     \<lparr>mg_Init = (\<lambda>m. (m, None)), mg_Lock = (\<lambda>m. (m + 1, if m < 2 then Some ''locked'' else None)),
      mg_Unlock = (\<lambda>m. (0, None)), mg_Migrate = (\<lambda>m. (m, Inl ''syntax error'')), mg_Rollback = (\<lambda>m. (m, Inr 4)),
      mg_MigrationsWithStatus = (\<lambda>m. (m, Inr []))\<rparr>"

theorem migrations_release_lock_witness: "\<exists>m res. Migrate sample_migrator 0 = Some (m, res)"
proof -
  have "mg_Init sample_migrator 0 = (0, None)" by (simp add: sample_migrator_def)
  moreover have "snd (mg_Lock sample_migrator (after_tries sample_migrator 2 0)) = None"
    by (simp add: sample_migrator_def after_tries_def numeral_2_eq_2)
  ultimately show ?thesis using migrations_release_lock [of sample_migrator 0 0] by fastforce
qed

end
