(* ===== verification/StatusApi.thy ===== *)
theory StatusApi
  imports Batch Postgres
begin

text \<open>
  The service's own endpoints, \<^verbatim>\<open>service/handlers.go\<close> and \<^verbatim>\<open>service/api.go\<close>, and the client of the
  database status endpoint, \<^verbatim>\<open>service/client.go\<close>. The HTTP transport of the client is a parameter;
  the text of an error that a library made is not modelled. The main fact: what the client reads is
  what the handler wrote.
\<close>

section \<open>Endpoints\<close>

record ('d, 's) ProxyService =
  svc_Database :: "'d MetricsDatabase"
  svc_Cache :: "'s ServiceCache"

fun cache_error_text :: "cache_error \<Rightarrow> string" where
  "cache_error_text ErrNotFound = ''value not found in the cache''"
| "cache_error_text (ErrCacheBackend msg) = msg"

text \<open>The messages of the joined errors are on lines of their own.\<close>

definition health_errors :: "('d, 's) ProxyService \<Rightarrow> 'd \<Rightarrow> 's \<Rightarrow> string list" where
  "health_errors service d s =
     (case db_HealthCheck (svc_Database service) d of
        Some err \<Rightarrow> [''proxy service unable to connect to database'']
      | None \<Rightarrow> []) @
     (if IsCacheEnabled (svc_Cache service) then
        (case sc_Healthcheck (svc_Cache service) s of
           Some err \<Rightarrow> [''proxy service unable to connect to cache: '' @ cache_error_text err]
         | None \<Rightarrow> [])
      else [])"

definition createHealthcheckHandler :: "('d, 's) ProxyService \<Rightarrow> 'd \<Rightarrow> ('s, ResponseWriter) handler" where
  "createHealthcheckHandler service d W w r =
     (let combinedErrors = health_errors service d (w_cache W) in
      if combinedErrors \<noteq> []
      then (W, w_Write (strings_Join combinedErrors [CHR 0x0A]) (w_WriteHeader StatusInternalServerError w), None)
      else (W, w_Write ''proxy service is healthy'' (w_WriteHeader StatusOK w), None))"

definition createServicecheckHandler :: "('d, 's) ProxyService \<Rightarrow> ('s, ResponseWriter) handler" where
  "createServicecheckHandler service W w r =
     (W, w_Write ''proxy service is in service'' (w_WriteHeader StatusOK w), None)"

record DatabaseStatusResponse =
  LatestProxiedRequestMetricPartitionTableName :: string
  TotalProxiedRequestMetricPartitions :: int

definition status_json :: "DatabaseStatusResponse \<Rightarrow> json" where
  "status_json response =
     JObj [(''latest_proxied_request_metric_partition_table_name'',
              JStr (quote (LatestProxiedRequestMetricPartitionTableName response))),
           (''total_proxied_request_metric_partitions'', JNum (show_int (TotalProxiedRequestMetricPartitions response)))]"

text \<open>An encoder writes the value and a newline.\<close>

definition MarshalJSONResponse :: "json \<Rightarrow> ResponseWriter \<Rightarrow> ResponseWriter" where
  "MarshalJSONResponse obj w =
     w_Write (json_print obj @ [CHR 0x0A]) (w_change_header (Header_Set ''Content-Type'' ''application/json'') w)"

definition createDatabaseStatusHandler :: "'d MetricsDatabase \<Rightarrow> 'd \<Rightarrow> ('s, ResponseWriter) handler" where
  "createDatabaseStatusHandler db d W w r =
     (case db_CountAttachedProxiedRequestMetricPartitions db d of
        (_, Some err) \<Rightarrow> (W, w_WriteHeader StatusInternalServerError w, None)
      | (proxiedRequestMetricPartitionsCount, None) \<Rightarrow>
          (case db_GetLastCreatedAttachedProxiedRequestMetricsPartitionName db d of
             (_, Some err) \<Rightarrow> (W, w_WriteHeader StatusInternalServerError w, None)
           | (proxiedRequestMetricLatestAttachedPartitionName, None) \<Rightarrow>
               (W, MarshalJSONResponse
                     (status_json \<lparr>LatestProxiedRequestMetricPartitionTableName = proxiedRequestMetricLatestAttachedPartitionName,
                                   TotalProxiedRequestMetricPartitions = proxiedRequestMetricPartitionsCount\<rparr>)
                     (w_WriteHeader StatusOK w), None)))"

section \<open>The client\<close>

definition DatabaseStatusPath :: string where "DatabaseStatusPath = ''/status/database''"

record ProxyServiceClientConfig =
  ProxyServiceHostname :: string
  psc_DebugLogResponses :: bool

record ProxyServiceClient =
  client_config :: ProxyServiceClientConfig
  DebugLogResponses :: bool

definition NewProxyServiceClient :: "ProxyServiceClientConfig \<Rightarrow> ProxyServiceClient" where
  "NewProxyServiceClient config = \<lparr>client_config = config, DebugLogResponses = psc_DebugLogResponses config\<rparr>"

text \<open>The message of an error: the text of a library's error, or one the client made.\<close>

datatype error_text = LibraryText | ErrorText string

record RequestError =
  re_message :: error_text
  re_URL :: string
  re_StatusCode :: int

definition RequestError_Error :: "RequestError \<Rightarrow> error_text" where
  "RequestError_Error err = re_message err"

definition NewError :: "error_text \<Rightarrow> string \<Rightarrow> int \<Rightarrow> RequestError" where
  "NewError message url statusCode = \<lparr>re_message = message, re_URL = url, re_StatusCode = statusCode\<rparr>"

definition CreateRequest :: "(string \<Rightarrow> URL option) \<Rightarrow> string \<Rightarrow> string \<Rightarrow> json \<Rightarrow> (RequestError, Request) result" where
  "CreateRequest urlParse method path params =
     (case NewRequestWithContext urlParse [] method path (json_print params @ [CHR 0x0A]) of
        None \<Rightarrow> Err \<lparr>re_message = LibraryText, re_URL = path, re_StatusCode = 0\<rparr>
      | Some req \<Rightarrow> Ok req)"

text \<open>
  \<^verbatim>\<open>Decode\<close> of a JSON decoder: the first value of the stream. An object or a list ends itself; any
  other value is over at a white space character or at the end of the stream.
\<close>

definition decode_stream :: "reader \<Rightarrow> json option" where
  "decode_stream body =
     (case p_value max_nesting (unread body) of
        None \<Rightarrow> None
      | Some (j, rest) \<Rightarrow>
          (case j of
             JObj _ \<Rightarrow> Some j
           | JArr _ \<Rightarrow> Some j
           | _ \<Rightarrow> if (case rest of [] \<Rightarrow> \<not> read_fails body | c # _ \<Rightarrow> is_ws c) then Some j else None))"

text \<open>
  The transport answers with a status and a body, or fails. The result, if one is expected, is
  read by \<open>decode\<close>.
\<close>

definition Call ::
  "ProxyServiceClient \<Rightarrow> (Request \<Rightarrow> (int \<times> reader) option) \<Rightarrow> Request \<Rightarrow> (json \<Rightarrow> 'r option) option \<Rightarrow>
    (RequestError, 'r option) result" where
  "Call client do request result =
     (case do request of
        None \<Rightarrow> Err \<lparr>re_message = LibraryText, re_URL = ReqURL request, re_StatusCode = 0\<rparr>
      | Some (statusCode, body) \<Rightarrow>
          if \<not> (statusCode \<ge> 200 \<and> statusCode \<le> 299) then
            Err \<lparr>re_message = ErrorText (''request to '' @ ReqURL request @ '' error server http error '' @ show_int statusCode),
                 re_URL = ReqURL request, re_StatusCode = statusCode\<rparr>
          else (case result of
            None \<Rightarrow> Ok None
          | Some decode \<Rightarrow>
              (case (if DebugLogResponses client
                     then (case ReadAll body of (bodyBytes, err, _) \<Rightarrow> if err then None else Some (Reader bodyBytes False))
                     else Some body) of
                 None \<Rightarrow> Err \<lparr>re_message = LibraryText, re_URL = ReqURL request, re_StatusCode = 0\<rparr>
               | Some body' \<Rightarrow>
                   (case Option.bind (decode_stream body') decode of
                      None \<Rightarrow> Err \<lparr>re_message = LibraryText, re_URL = ReqURL request, re_StatusCode = 0\<rparr>
                    | Some x \<Rightarrow> Ok (Some x)))))"

definition set_status_field :: "DatabaseStatusResponse \<Rightarrow> string \<times> json \<Rightarrow> DatabaseStatusResponse option" where
  "set_status_field resp m =
     (case m of (rawk, j) \<Rightarrow>
       let k = unquote rawk in
       if key_is k ''latest_proxied_request_metric_partition_table_name'' then
         map_option (\<lambda>s. resp\<lparr>LatestProxiedRequestMetricPartitionTableName := s\<rparr>)
           (set_string (LatestProxiedRequestMetricPartitionTableName resp) j)
       else if key_is k ''total_proxied_request_metric_partitions'' then
         map_option (\<lambda>n. resp\<lparr>TotalProxiedRequestMetricPartitions := n\<rparr>) (set_int (TotalProxiedRequestMetricPartitions resp) j)
       else Some resp)"

definition zero_status :: DatabaseStatusResponse where
  "zero_status = \<lparr>LatestProxiedRequestMetricPartitionTableName = [], TotalProxiedRequestMetricPartitions = 0\<rparr>"

fun unmarshal_status :: "json \<Rightarrow> DatabaseStatusResponse option" where
  "unmarshal_status JNull = Some zero_status"
| "unmarshal_status (JObj ms) = set_all set_status_field zero_status ms"
| "unmarshal_status _ = None"

definition GetDatabaseStatus ::
  "(string \<Rightarrow> URL option) \<Rightarrow> (Request \<Rightarrow> (int \<times> reader) option) \<Rightarrow> ProxyServiceClient \<Rightarrow>
    (RequestError, DatabaseStatusResponse) result" where
  "GetDatabaseStatus urlParse do c =
     (case CreateRequest urlParse ''GET'' (ProxyServiceHostname (client_config c) @ DatabaseStatusPath) JNull of
        Err err \<Rightarrow> Err err
      | Panic p \<Rightarrow> Panic p
      | Ok request \<Rightarrow>
          (case Call c do request (Some unmarshal_status) of
             Err err \<Rightarrow> Err err
           | Panic p \<Rightarrow> Panic p
           | Ok response \<Rightarrow> Ok (case response of Some resp \<Rightarrow> resp | None \<Rightarrow> zero_status)))"

section \<open>Facts\<close>

lemma show_nat_is_digit: "c \<in> set (show_nat n) \<Longrightarrow> is_digit c"
  by (drule show_nat_digits) (auto simp: is_digit_def digit_char_def)

lemma show_nat_no_leading_zero: "0 < n \<Longrightarrow> \<exists>c cs. show_nat n = c # cs \<and> c \<noteq> CHR ''0''"
proof (induction n rule: show_nat.induct)
  case (1 n)
  show ?case
  proof (cases "n < 10")
    case True
    then have "(of_char (digit_char n) :: nat) = 48 + n" by (simp add: digit_char_def)
    with 1(2) have "digit_char n \<noteq> CHR ''0''" by (auto simp: char_eq_code)
    with True show ?thesis by (simp add: show_nat.simps [of n])
  next
    case False
    then have "0 < n div 10" by (simp add: div_greater_zero_iff)
    with 1(1) [OF False] obtain c cs where "show_nat (n div 10) = c # cs" "c \<noteq> CHR ''0''" by blast
    with False show ?thesis by (simp add: show_nat.simps [of n])
  qed
qed

lemma p_int_show_nat: "p_int (show_nat n) = Some (show_nat n, [])"
proof (cases "n = 0")
  case True
  have "show_nat 0 = ''0''" by code_simp
  with True show ?thesis by (simp add: p_int_def)
next
  case False
  then obtain c cs where c: "show_nat n = c # cs" "c \<noteq> CHR ''0''" using show_nat_no_leading_zero by blast
  have "takeWhile is_digit (show_nat n) = show_nat n" "dropWhile is_digit (show_nat n) = []"
    using show_nat_is_digit by (simp_all add: takeWhile_eq_all_conv)
  then show ?thesis using c by (simp add: p_int_def p_digits1_def Let_def)
qed

lemma num_ok_show_int: "num_ok (show_int i)"
proof -
  have "\<exists>c cs. show_nat n = c # cs \<and> c \<noteq> CHR ''-''" for n
    using show_nat_is_digit [of "hd (show_nat n)" n] by (cases "show_nat n") (auto simp: is_digit_def)
  then obtain c cs where c: "show_nat (nat i) = c # cs" "c \<noteq> CHR ''-''" by blast
  have "p_num (show_nat (nat i)) = Some (show_nat (nat i), [])"
    using c p_int_show_nat [of "nat i"] by (simp add: p_num_def p_frac_def p_exp_def)
  then show ?thesis
    using p_int_show_nat [of "nat (- i)"] by (simp add: num_ok_def show_int_def p_num_def p_frac_def p_exp_def)
qed

lemma status_json_wf: "json_wf max_nesting (status_json r)"
proof -
  have "str_ok ''latest_proxied_request_metric_partition_table_name''" "str_ok ''total_proxied_request_metric_partitions''"
    by code_simp+
  then show ?thesis by (simp add: status_json_def max_nesting_def num_ok_show_int)
qed

lemma status_keys:
  "unquote ''latest_proxied_request_metric_partition_table_name'' = ''latest_proxied_request_metric_partition_table_name''"
  "unquote ''total_proxied_request_metric_partitions'' = ''total_proxied_request_metric_partitions''"
  "\<not> key_is ''total_proxied_request_metric_partitions'' ''latest_proxied_request_metric_partition_table_name''"
  by code_simp+

lemma unmarshal_status_json:
  assumes "utf8_valid (LatestProxiedRequestMetricPartitionTableName r)" and "in_int64 (TotalProxiedRequestMetricPartitions r)"
  shows "unmarshal_status (status_json r) = Some r"
  using assms status_keys Atoi_show_int [OF assms(2)]
  by (simp add: status_json_def set_status_field_def zero_status_def unquote_quote Let_def) (simp add: key_is_def)

lemma decode_stream_status: "decode_stream (Reader (json_print (status_json r) @ [CHR 0x0A]) fails) = Some (status_json r)"
proof -
  have "stops [CHR 0x0A]" by (simp add: stops_def is_digit_def)
  then have "p_value max_nesting (json_print (status_json r) @ [CHR 0x0A]) = Some (status_json r, [CHR 0x0A])"
    by (rule p_value_print [OF status_json_wf])
  then show ?thesis by (simp add: decode_stream_def) (simp add: status_json_def)
qed

section \<open>Properties\<close>

text \<open>C33: The client of the status endpoint reads what the handler wrote: against a database that answers its two
  queries, the status it returns has the count and the table name of the database. The answer goes out with status 200 and
  no headers: the content type is set after the header was written.\<close>

theorem database_status_roundtrip:
  assumes "db_CountAttachedProxiedRequestMetricPartitions db d = (count, None)"
    and "db_GetLastCreatedAttachedProxiedRequestMetricsPartitionName db d = (name, None)"
    and "in_int64 count" and "utf8_valid name"
    and "createDatabaseStatusHandler db d W (Server new_response) r = (W', Server v, p)"
    and "urlParse (ProxyServiceHostname (client_config c) @ DatabaseStatusPath) = Some u"
    and "\<And>request. do request = map_option (\<lambda>(status, _). (status, Reader (sent_body v) False)) (sent_head v)"
  shows "GetDatabaseStatus urlParse do c =
      Ok \<lparr>LatestProxiedRequestMetricPartitionTableName = name, TotalProxiedRequestMetricPartitions = count\<rparr> \<and>
    W' = W \<and> p = None \<and> sent_head v = Some (200, [])"
proof -
  let ?r = "\<lparr>LatestProxiedRequestMetricPartitionTableName = name, TotalProxiedRequestMetricPartitions = count\<rparr>"
  have v: "sent_body v = json_print (status_json ?r) @ [CHR 0x0A]" "sent_head v = Some (200, [])" "W' = W" "p = None"
    using assms(5) by (auto simp: createDatabaseStatusHandler_def assms(1,2) MarshalJSONResponse_def writer_defs status_codes Let_def)
  have "list_all header_token ''GET''" by (simp add: header_token_def)
  then obtain req where req: "CreateRequest urlParse ''GET'' (ProxyServiceHostname (client_config c) @ DatabaseStatusPath) JNull = Ok req"
    using assms(6) by (simp add: CreateRequest_def NewRequestWithContext_def)
  have "Option.bind (decode_stream (Reader (sent_body v) False)) unmarshal_status = Some ?r"
    using unmarshal_status_json [of ?r] assms(3,4) by (simp add: v decode_stream_status)
  then have "Call c do req (Some unmarshal_status) = Ok (Some ?r)"
    by (simp add: Call_def assms(7) v(2) ReadAll_def)
  then show ?thesis using req v by (simp add: GetDatabaseStatus_def)
qed

text \<open>A database with partitions.\<close>

definition sample_database :: "unit MetricsDatabase" where
  "sample_database = noop\<lparr>db_CountAttachedProxiedRequestMetricPartitions := (\<lambda>d. (3, None)),
     db_GetLastCreatedAttachedProxiedRequestMetricsPartitionName := (\<lambda>d. (''p'', None))\<rparr>"

theorem database_status_roundtrip_witness:
  "\<exists>do. GetDatabaseStatus Some do (NewProxyServiceClient \<lparr>ProxyServiceHostname = ''http://h'', psc_DebugLogResponses = True\<rparr>) =
     Ok \<lparr>LatestProxiedRequestMetricPartitionTableName = ''p'', TotalProxiedRequestMetricPartitions = 3\<rparr>"
proof -
  let ?out = "createDatabaseStatusHandler sample_database () (sample_world []) (Server new_response) (sample_sub ''/'')"
  have db: "db_CountAttachedProxiedRequestMetricPartitions sample_database () = (3, None)"
    "db_GetLastCreatedAttachedProxiedRequestMetricsPartitionName sample_database () = (''p'', None)"
    by (simp_all add: sample_database_def)
  obtain v where out: "?out = (sample_world [], Server v, None)"
    by (simp add: createDatabaseStatusHandler_def db MarshalJSONResponse_def)
  have "in_int64 3" by (simp add: int64_defs)
  moreover have "utf8_valid ''p''" by code_simp
  ultimately show ?thesis
    using database_status_roundtrip [OF db _ _ out, where urlParse = Some and
        do = "\<lambda>_. map_option (\<lambda>(status, _). (status, Reader (sent_body v) False)) (sent_head v)"]
    by blast
qed

text \<open>The health check answers 200 exactly when the database is reachable and the cache, if it is in use, is
  too; otherwise it answers 500 and names what is not reachable.\<close>

theorem healthcheck_reports_dependencies:
  assumes "createHealthcheckHandler service d W (Server new_response) r = (W', w', p)"
  shows "W' = W \<and> p = None \<and> (\<exists>v. w' = Server v \<and>
    (sent_head v = Some (200, []) \<longleftrightarrow>
       db_HealthCheck (svc_Database service) d = None \<and>
       (cacheEnabled (svc_Cache service) \<longrightarrow> cache_Healthcheck (cacheClient (svc_Cache service)) (w_cache W) = None)) \<and>
    (sent_head v = Some (200, []) \<or> sent_head v = Some (500, []) \<and> sent_body v = strings_Join (health_errors service d (w_cache W)) [CHR 0x0A]))"
proof -
  have "health_errors service d (w_cache W) = [] \<longleftrightarrow>
       db_HealthCheck (svc_Database service) d = None \<and>
       (cacheEnabled (svc_Cache service) \<longrightarrow> cache_Healthcheck (cacheClient (svc_Cache service)) (w_cache W) = None)"
    by (simp add: health_errors_def IsCacheEnabled_def sc_Healthcheck_def split: option.split)
  then show ?thesis
    using assms by (auto simp: createHealthcheckHandler_def writer_defs status_codes Let_def split: if_splits)
qed

theorem healthcheck_reports_dependencies_witness:
  "\<exists>v. fst (snd (createHealthcheckHandler \<lparr>svc_Database = sample_database, svc_Cache = sample_cache\<rparr> () (sample_world [])
     (Server new_response) (sample_sub ''/''))) = Server v \<and> sent_head v = Some (200, [])"
proof -
  let ?out = "createHealthcheckHandler \<lparr>svc_Database = sample_database, svc_Cache = sample_cache\<rparr> () (sample_world [])
     (Server new_response) (sample_sub ''/'')"
  have "?out = (fst ?out, fst (snd ?out), snd (snd ?out))" by simp
  from healthcheck_reports_dependencies [OF this] show ?thesis
    by (auto simp: sample_database_def noop_def sample_cache_def NewServiceCache_def InMemoryCache_client_def inmem_Healthcheck_def)
qed

end
