(* ===== verification/Routines.thy ===== *)
theory Routines
  imports Database ConfigData
begin

text \<open>
  \<^verbatim>\<open>routines\<close> and the functions of \<^verbatim>\<open>main.go\<close> that start them: metric partitioning, compaction and
  pruning. Time is the number of ticks of a routine's timer; a routine is described by what the
  database and the receiver of its error channel have seen after a number of ticks. The channel
  is unbuffered and \<^verbatim>\<open>main\<close> receives from it only after \<^verbatim>\<open>Run\<close> has returned it. The identifier and
  the log messages of a routine are left out.
\<close>

section \<open>Partitioning\<close>

record 'd MetricPartitioningRoutineConfig =
  mpc_Interval :: int
  mpc_DelayFirstRun :: int
  mpc_PrefillPeriodDays :: int
  mpc_Database :: "'d MetricsDatabase"

record 'd MetricPartitioningRoutine =
  part_interval :: int
  part_delayFirstRun :: int
  part_prefillPeriodDays :: int
  part_db :: "'d MetricsDatabase"

definition NewMetricPartitioningRoutine :: "'d MetricPartitioningRoutineConfig \<Rightarrow> 'd MetricPartitioningRoutine" where
  "NewMetricPartitioningRoutine config =
     \<lparr>part_interval = mpc_Interval config, part_delayFirstRun = mpc_DelayFirstRun config,
      part_prefillPeriodDays = mpc_PrefillPeriodDays config, part_db = mpc_Database config\<rparr>"

text \<open>
  A routine is stuck in a send that nobody receives, or it waits for the next tick; the errors
  delivered so far are kept.
\<close>

datatype 'd routine = Stuck string 'd | Waiting "string list" 'd

definition part_Run :: "'d MetricPartitioningRoutine \<Rightarrow> 'd \<Rightarrow> 'd routine" where
  "part_Run mcr d =
     (case db_Partition (part_db mcr) d (part_prefillPeriodDays mcr) of
        (d', Some err) \<Rightarrow> Stuck err d'
      | (d', None) \<Rightarrow> Waiting [] d')"

fun part_tick :: "'d MetricPartitioningRoutine \<Rightarrow> 'd routine \<Rightarrow> 'd routine" where
  "part_tick mcr (Stuck err d) = Stuck err d"
| "part_tick mcr (Waiting errs d) =
     (case db_Partition (part_db mcr) d (part_prefillPeriodDays mcr) of
        (d', Some err) \<Rightarrow> Waiting (errs @ [err]) d'
      | (d', None) \<Rightarrow> Waiting errs d')"

section \<open>Compaction\<close>

record 'd MetricCompactionRoutineConfig =
  mcc_Interval :: int
  mcc_Database :: "'d MetricsDatabase"

record 'd MetricCompactionRoutine =
  comp_interval :: int
  comp_db :: "'d MetricsDatabase"

definition NewMetricCompactionRoutine :: "'d MetricCompactionRoutineConfig \<Rightarrow> 'd MetricCompactionRoutine" where
  "NewMetricCompactionRoutine config = \<lparr>comp_interval = mcc_Interval config, comp_db = mcc_Database config\<rparr>"

text \<open>A tick of the compaction routine only logs.\<close>

definition comp_Run :: "'d MetricCompactionRoutine \<Rightarrow> 'd \<Rightarrow> 'd routine" where
  "comp_Run mcr d = Waiting [] d"

definition comp_tick :: "'d MetricCompactionRoutine \<Rightarrow> 'd routine \<Rightarrow> 'd routine" where
  "comp_tick mcr st = st"

section \<open>Pruning\<close>

record 'd MetricPruningRoutineConfig =
  mprc_Interval :: int
  mprc_StartDelay :: int
  mprc_MaxRequestMetricsHistoryDays :: int
  mprc_Database :: "'d MetricsDatabase"

record 'd MetricPruningRoutine =
  prune_interval :: int
  prune_startDelay :: int
  prune_maxRequestMetricsHistoryDays :: int
  prune_db :: "'d MetricsDatabase"

definition NewMetricPruningRoutine :: "'d MetricPruningRoutineConfig \<Rightarrow> 'd MetricPruningRoutine" where
  "NewMetricPruningRoutine config =
     \<lparr>prune_interval = mprc_Interval config, prune_startDelay = mprc_StartDelay config,
      prune_maxRequestMetricsHistoryDays = mprc_MaxRequestMetricsHistoryDays config, prune_db = mprc_Database config\<rparr>"

definition prune_Run :: "'d MetricPruningRoutine \<Rightarrow> 'd \<Rightarrow> 'd routine" where
  "prune_Run mpr d = Waiting [] d"

text \<open>The error of the delete query is dropped.\<close>

fun prune_tick :: "'d MetricPruningRoutine \<Rightarrow> 'd routine \<Rightarrow> 'd routine" where
  "prune_tick mpr (Stuck err d) = Stuck err d"
| "prune_tick mpr (Waiting errs d) =
     Waiting errs (fst (db_DeleteProxiedRequestMetricsOlderThanNDays (prune_db mpr) d (prune_maxRequestMetricsHistoryDays mpr)))"

section \<open>Starting them\<close>

definition startMetricPartitioningRoutine :: "Config \<Rightarrow> 'd MetricsDatabase \<Rightarrow> 'd MetricPartitioningRoutine" where
  "startMetricPartitioningRoutine serviceConfig database =
     NewMetricPartitioningRoutine
       \<lparr>mpc_Interval = MetricPartitioningRoutineInterval serviceConfig,
        mpc_DelayFirstRun = MetricPartitioningRoutineDelayFirstRun serviceConfig,
        mpc_PrefillPeriodDays = MetricPartitioningPrefillPeriodDays serviceConfig,
        mpc_Database = database\<rparr>"

definition startMetricCompactionRoutine :: "Config \<Rightarrow> 'd MetricsDatabase \<Rightarrow> 'd MetricCompactionRoutine" where
  "startMetricCompactionRoutine serviceConfig database =
     NewMetricCompactionRoutine
       \<lparr>mcc_Interval = MetricCompactionRoutineInterval serviceConfig, mcc_Database = database\<rparr>"

definition startMetricPruningRoutine :: "Config \<Rightarrow> 'd MetricsDatabase \<Rightarrow> 'd MetricPruningRoutine option" where
  "startMetricPruningRoutine serviceConfig database =
     (if \<not> MetricPruningEnabled serviceConfig then None
      else Some (NewMetricPruningRoutine
       \<lparr>mprc_Interval = MetricPruningRoutineInterval serviceConfig,
        mprc_StartDelay = MetricPartitioningRoutineDelayFirstRun serviceConfig,
        mprc_MaxRequestMetricsHistoryDays = MetricPruningMaxRequestMetricsHistoryDays serviceConfig,
        mprc_Database = database\<rparr>))"

text \<open>Which routines \<^verbatim>\<open>main\<close> starts.\<close>

definition main_routines ::
  "Config \<Rightarrow> 'd MetricsDatabase \<Rightarrow>
    ('d MetricPartitioningRoutine \<times> 'd MetricCompactionRoutine \<times> 'd MetricPruningRoutine option) option" where
  "main_routines serviceConfig database =
     (if MetricDatabaseEnabled serviceConfig
      then Some (startMetricPartitioningRoutine serviceConfig database, startMetricCompactionRoutine serviceConfig database,
                 startMetricPruningRoutine serviceConfig database)
      else None)"

section \<open>Properties\<close>

fun routine_db :: "'d routine \<Rightarrow> 'd" where
  "routine_db (Stuck err d) = d"
| "routine_db (Waiting errs d) = d"

definition partition_once :: "'d MetricPartitioningRoutine \<Rightarrow> 'd \<Rightarrow> 'd" where
  "partition_once mcr d = fst (db_Partition (part_db mcr) d (part_prefillPeriodDays mcr))"

lemma stuck_for_ever: "(part_tick mcr ^^ n) (Stuck err d) = Stuck err d"
  by (induction n) simp_all

lemma waiting_ticks:
  "\<exists>errs'. (part_tick mcr ^^ n) (Waiting errs d) = Waiting errs' ((partition_once mcr ^^ n) d)"
proof (induction n)
  case (Suc n)
  then obtain errs' where st: "(part_tick mcr ^^ n) (Waiting errs d) = Waiting errs' ((partition_once mcr ^^ n) d)" by blast
  let ?d = "(partition_once mcr ^^ n) d"
  obtain d' r where "db_Partition (part_db mcr) ?d (part_prefillPeriodDays mcr) = (d', r)" by fastforce
  with st show ?case by (cases r) (simp_all add: partition_once_def [of mcr ?d])
qed simp

text \<open>C32: The partitioning routine partitions once when it starts and once per tick, as long as the first run
  succeeds. When the first run fails, the error is sent before anyone can receive it: the routine is stuck,
  reports nothing and never partitions again.\<close>

theorem partitioning_depends_on_first_run:
  "routine_db ((part_tick mcr ^^ n) (part_Run mcr d)) =
     (if snd (db_Partition (part_db mcr) d (part_prefillPeriodDays mcr)) = None
      then (partition_once mcr ^^ Suc n) d else partition_once mcr d)"
proof -
  obtain d' r where p: "db_Partition (part_db mcr) d (part_prefillPeriodDays mcr) = (d', r)" by fastforce
  show ?thesis
  proof (cases r)
    case None
    obtain errs where "(part_tick mcr ^^ n) (Waiting [] d') = Waiting errs ((partition_once mcr ^^ n) d')"
      using waiting_ticks [of n mcr "[]" d'] by blast
    moreover have "d' = partition_once mcr d" using p by (simp add: partition_once_def)
    ultimately show ?thesis using p None by (simp add: part_Run_def funpow_swap1)
  next
    case (Some err)
    then show ?thesis using p by (simp add: part_Run_def partition_once_def stuck_for_ever)
  qed
qed

text \<open>The pruning routine starts after the delay configured for the partitioning routine; the delay configured
  for pruning has no effect on any routine.\<close>

theorem pruning_delay_ignored:
  "main_routines (config\<lparr>MetricPruningRoutineDelayFirstRun := delay\<rparr>) database = main_routines config database \<and>
   map_option prune_startDelay (startMetricPruningRoutine config database) =
     (if MetricPruningEnabled config then Some (MetricPartitioningRoutineDelayFirstRun config) else None)"
  by (simp add: main_routines_def startMetricPartitioningRoutine_def startMetricCompactionRoutine_def
      startMetricPruningRoutine_def NewMetricPruningRoutine_def)

end
