(* ===== verification/Partition.thy ===== *)
theory Partition
  imports Calendar Config
begin

text \<open>
  \<^verbatim>\<open>clients/database/postgres/partition.go\<close>: which partitions of the metrics table a run of the
  partitioning routine plans, and the conversation with the database that creates them. The
  database is a parameter: \<open>db\<close> answers one call at a time. The statements are the values of
  \<open>pg_call\<close>; the log of the calls, each with whether it succeeded, is kept for the statements
  about transactions.
\<close>

section \<open>Planning\<close>

definition PartitionBaseTableName :: string where "PartitionBaseTableName = ''proxied_request_metrics''"

record PartitionPeriod =
  TableName :: string
  InclusiveStartPeriod :: int
  ExclusiveEndPeriod :: int

definition daysInMonth :: "int \<Rightarrow> int" where
  "daysInMonth t =
     (case time_Date_of t of (y, m, _) \<Rightarrow>
        case date_of_day (day_number y (m + 1) 0) of (_, _, d) \<Rightarrow> d)"

definition current_month_name :: "int \<Rightarrow> int \<Rightarrow> int \<Rightarrow> string" where
  "current_month_name y m d =
     PartitionBaseTableName @ ''_year_'' @ show_int y @ ''_month_'' @ show_int m @ ''_day_'' @ show_int d"

definition future_month_name :: "int \<Rightarrow> int \<Rightarrow> int \<Rightarrow> string" where
  "future_month_name y m d =
     PartitionBaseTableName @ ''_year'' @ show_int y @ ''_month'' @ show_int m @ ''_day'' @ show_int d"

text \<open>The two loops: one period per day from \<open>start\<close> on, named by \<open>name partitionIndex\<close>.\<close>

fun generate_partitions :: "(int \<Rightarrow> string) \<Rightarrow> int \<Rightarrow> int \<Rightarrow> nat \<Rightarrow> PartitionPeriod list" where
  "generate_partitions name start partitionIndex 0 = []"
| "generate_partitions name start partitionIndex (Suc n) =
     \<lparr>TableName = name partitionIndex,
      InclusiveStartPeriod = time_Truncate (start + partitionIndex * day_ns) day_ns,
      ExclusiveEndPeriod = time_Truncate (start + (partitionIndex + 1) * day_ns) day_ns\<rparr>
     # generate_partitions name start (partitionIndex + 1) n"

definition PartitionsForPeriod :: "int \<Rightarrow> int \<Rightarrow> (int, PartitionPeriod list) result" where
  "PartitionsForPeriod start numDaysToPrefill =
     (if numDaysToPrefill > MaxMetricPartitioningPrefillPeriodDays then Err numDaysToPrefill
      else (case time_Date_of start of (currentYear, currentMonth, currentDay) \<Rightarrow>
        let newDaysRemainingInCurrentMonth = daysInMonth start - currentDay + 1;
            current = generate_partitions (\<lambda>i. current_month_name currentYear currentMonth (currentDay + i)) start 0
              (nat (min newDaysRemainingInCurrentMonth numDaysToPrefill)) in
        if numDaysToPrefill > newDaysRemainingInCurrentMonth
        then (let futureMonth = start + day_ns * (newDaysRemainingInCurrentMonth + 1) in
              case time_Date_of futureMonth of (nextYear, nextMonth, nextDay) \<Rightarrow>
                Ok (current @
                    generate_partitions (\<lambda>i. future_month_name nextYear nextMonth (nextDay + i)) futureMonth 0
                      (nat (numDaysToPrefill - newDaysRemainingInCurrentMonth))))
        else Ok current))"

section \<open>Creating\<close>

text \<open>
  The calls of one run: begin, commit and roll back a transaction, the query that shows whether
  the table exists, its creation, attaching it, and the catalogue query whether it is attached.
  Only the first of these four is a statement of the transaction (\<^verbatim>\<open>tx.Exec\<close>); the others go to
  the pool (\<^verbatim>\<open>c.db\<close>), outside it. A reply is an error or whether a row was returned.
\<close>

datatype pg_call =
    BeginTx
  | Commit
  | Rollback
  | SelectFromTable string
  | CreateTableLike string
  | AttachPartition string int int
  | QueryAttached string

type_synonym pg_reply = "(string, bool) result"
type_synonym pg_log = "(pg_call \<times> bool) list"
type_synonym 'd pg_state = "'d \<times> pg_log"

definition failed :: "pg_reply \<Rightarrow> bool" where
  "failed reply \<longleftrightarrow> (case reply of Err e \<Rightarrow> True | _ \<Rightarrow> False)"

definition pg_exec :: "('d \<Rightarrow> pg_call \<Rightarrow> 'd \<times> pg_reply) \<Rightarrow> 'd pg_state \<Rightarrow> pg_call \<Rightarrow> 'd pg_state \<times> pg_reply" where
  "pg_exec db st c = (case db (fst st) c of (d, reply) \<Rightarrow> ((d, snd st @ [(c, \<not> failed reply)]), reply))"

definition contains :: "string \<Rightarrow> string \<Rightarrow> bool" where
  "contains s t \<longleftrightarrow> (\<exists>i\<in>set [0..<length s + 1]. take (length t) (drop i s) = t)"

text \<open>Attach the table and end the transaction: commit, or roll back when attaching failed.\<close>

definition attach_and_end ::
  "('d \<Rightarrow> pg_call \<Rightarrow> 'd \<times> pg_reply) \<Rightarrow> PartitionPeriod \<Rightarrow> 'd pg_state \<Rightarrow> 'd pg_state" where
  "attach_and_end db p st =
     (case pg_exec db st (AttachPartition (TableName p) (InclusiveStartPeriod p) (ExclusiveEndPeriod p)) of
        (st', reply) \<Rightarrow> if failed reply then fst (pg_exec db st' Rollback) else fst (pg_exec db st' Commit))"

definition create_partition ::
  "('d \<Rightarrow> pg_call \<Rightarrow> 'd \<times> pg_reply) \<Rightarrow> PartitionPeriod \<Rightarrow> 'd pg_state \<Rightarrow> 'd pg_state" where
  "create_partition db p st =
     (case pg_exec db st BeginTx of (st1, begun) \<Rightarrow>
        if failed begun then st1
        else (case pg_exec db st1 (SelectFromTable (TableName p)) of
          (st2, Err e) \<Rightarrow>
            if \<not> contains e ''42P01'' then fst (pg_exec db st2 Rollback)
            else (case pg_exec db st2 (CreateTableLike (TableName p)) of (st3, created) \<Rightarrow>
              if failed created then fst (pg_exec db st3 Rollback)
              else attach_and_end db p st3)
        | (st2, _) \<Rightarrow>
            (case pg_exec db st2 (QueryAttached (TableName p)) of
               (st3, Err e) \<Rightarrow> st3
             | (st3, Ok False) \<Rightarrow> attach_and_end db p st3
             | (st3, _) \<Rightarrow> fst (pg_exec db st3 Commit))))"

definition Partition ::
  "('d \<Rightarrow> pg_call \<Rightarrow> 'd \<times> pg_reply) \<Rightarrow> int \<Rightarrow> int \<Rightarrow> 'd pg_state \<Rightarrow> 'd pg_state \<times> int option" where
  "Partition db now prefillPeriodDays st =
     (case PartitionsForPeriod now prefillPeriodDays of
        Err e \<Rightarrow> (st, Some e)
      | Ok partitionsToCreate \<Rightarrow> (fold (create_partition db) partitionsToCreate st, None)
      | Panic p \<Rightarrow> (st, None))"

section \<open>The days of a plan\<close>

lemma daysInMonth_eq:
  assumes "time_Date_of t = (y, m, d)"
  shows "daysInMonth t = days_in_month y m"
proof -
  have v: "valid_date y m d" using assms date_of_day_valid(1) by (simp add: time_Date_of_def)
  then have m: "1 \<le> m" "m \<le> 12" by (auto simp: valid_date_def)
  then have ge: "28 \<le> days_in_month y m" by (rule days_in_month_ge)
  have "day_number y (m + 1) 0 = day_number y (m + 1) 1 - 1"
    using day_number_add [of y "m + 1" 1 "-1"] by simp
  also have "\<dots> = day_number y m 1 + (days_in_month y m - 1)"
    using day_number_next_month [OF m, of y] by simp
  finally have "date_of_day (day_number y (m + 1) 0) = (y, m, days_in_month y m)"
    using date_in_month [of y m 1 "days_in_month y m - 1"] m ge by (simp add: valid_date_def)
  then show ?thesis by (simp add: daysInMonth_def assms)
qed

lemma length_generate_partitions [simp]: "length (generate_partitions name start i n) = n"
  by (induction name start i n rule: generate_partitions.induct) auto

lemma generate_partitions_nth:
  "j < n \<Longrightarrow> generate_partitions name start i n ! j =
     \<lparr>TableName = name (i + int j),
      InclusiveStartPeriod = (start div day_ns + (i + int j)) * day_ns,
      ExclusiveEndPeriod = (start div day_ns + (i + int j) + 1) * day_ns\<rparr>"
proof (induction name start i n arbitrary: j rule: generate_partitions.induct)
  case (2 name start i n)
  have trunc: "time_Truncate (start + k * day_ns) day_ns = (start div day_ns + k) * day_ns" for k
    by (simp add: Truncate_day day_of_shift)
  show ?case using 2 by (cases j) (simp_all add: trunc add.assoc)
qed simp

text \<open>The period of one day, counted from the zero time.\<close>

definition day_period :: "string \<Rightarrow> int \<Rightarrow> PartitionPeriod" where
  "day_period name k = \<lparr>TableName = name, InclusiveStartPeriod = k * day_ns, ExclusiveEndPeriod = (k + 1) * day_ns\<rparr>"

lemma generate_partitions_map:
  "generate_partitions name start 0 n = map (\<lambda>j. day_period (name (int j)) (start div day_ns + int j)) [0..<n]"
  by (rule nth_equalityI) (simp_all add: generate_partitions_nth day_period_def)

text \<open>Names by the date of the day, in the two formats of the source.\<close>

definition name_of_day :: "(int \<Rightarrow> int \<Rightarrow> int \<Rightarrow> string) \<Rightarrow> int \<Rightarrow> string" where
  "name_of_day fmt k = (case date_of_day k of (y, m, d) \<Rightarrow> fmt y m d)"

definition days_left :: "int \<Rightarrow> int" where
  "days_left start = (case time_Date_of start of (y, m, d) \<Rightarrow> days_in_month y m - d + 1)"

lemma days_left_bounds: "1 \<le> days_left start"
proof -
  obtain y m d where t: "time_Date_of start = (y, m, d)" by (cases "time_Date_of start")
  then have "valid_date y m d" using date_of_day_valid(1) by (simp add: time_Date_of_def)
  then show ?thesis by (simp add: days_left_def t valid_date_def)
qed

lemma name_this_month:
  assumes "time_Date_of start = (y, m, d)" and "0 \<le> j" and "j < days_left start"
  shows "name_of_day fmt (start div day_ns + j) = fmt y m (d + j)"
proof -
  have v: "valid_date y m d" "day_number y m d = start div day_ns"
    using assms(1) date_of_day_valid by (auto simp: time_Date_of_def)
  have "date_of_day (start div day_ns + j) = (y, m, d + j)"
    using date_in_month [OF v(1), of j] assms v(2) by (simp add: days_left_def)
  then show ?thesis by (simp add: name_of_day_def)
qed

lemma date_next_month:
  assumes "time_Date_of start = (y, m, d)" and "1 \<le> k" and "k \<le> 28"
  shows "date_of_day (start div day_ns + days_left start + (k - 1)) = (fst (next_month y m), snd (next_month y m), k)"
proof -
  have v: "valid_date y m d" "day_number y m d = start div day_ns"
    using assms(1) date_of_day_valid by (auto simp: time_Date_of_def)
  have m: "1 \<le> m" "m \<le> 12" using v(1) by (auto simp: valid_date_def)
  have "start div day_ns = day_number y m 1 + (d - 1)"
    using day_number_add [of y m 1 "d - 1"] v(2) by simp
  then have "start div day_ns + days_left start + (k - 1) = day_number y m 1 + days_in_month y m + (k - 1)"
    by (simp add: days_left_def assms(1))
  then show ?thesis using date_after_month [OF m, of y _ _ k] assms(2,3) by simp
qed

lemma PartitionsForPeriod_Ok:
  assumes "n \<le> 28"
  shows "PartitionsForPeriod start n =
    Ok (map (\<lambda>j. day_period (name_of_day current_month_name (start div day_ns + int j)) (start div day_ns + int j))
          [0..<nat (min (days_left start) n)] @
        map (\<lambda>j. day_period (name_of_day future_month_name (start div day_ns + days_left start + 1 + int j))
                  (start div day_ns + days_left start + 1 + int j))
          [0..<nat (n - days_left start)])"
proof -
  obtain y m d where t: "time_Date_of start = (y, m, d)" by (cases "time_Date_of start")
  have left: "daysInMonth start - d + 1 = days_left start"
    by (simp add: daysInMonth_eq [OF t] days_left_def t)
  have cur: "generate_partitions (\<lambda>i. current_month_name y m (d + i)) start 0 (nat (min (days_left start) n)) =
      map (\<lambda>j. day_period (name_of_day current_month_name (start div day_ns + int j)) (start div day_ns + int j))
        [0..<nat (min (days_left start) n)]"
    using name_this_month [OF t, of _ current_month_name] by (simp add: generate_partitions_map)
  let ?f = "start + day_ns * (days_left start + 1)"
  have day: "?f div day_ns = start div day_ns + days_left start + 1"
    using day_of_shift [of start "days_left start + 1"] by (simp add: algebra_simps)
  let ?y = "fst (next_month y m)" and ?m = "snd (next_month y m)"
  have name: "name_of_day fmt (start div day_ns + days_left start + 1 + int j) = fmt ?y ?m (2 + int j)"
    if "j < nat (n - days_left start)" for j fmt
    using date_next_month [OF t, of "2 + int j"] that assms days_left_bounds [of start]
    by (simp add: name_of_day_def algebra_simps)
  have fut: "generate_partitions (\<lambda>i. future_month_name ?y ?m (2 + i)) ?f 0 (nat (n - days_left start)) =
      map (\<lambda>j. day_period (name_of_day future_month_name (start div day_ns + days_left start + 1 + int j))
                  (start div day_ns + days_left start + 1 + int j)) [0..<nat (n - days_left start)]"
    by (auto simp: generate_partitions_map day name)
  have date: "days_left start < n \<Longrightarrow> time_Date_of ?f = (?y, ?m, 2)"
    using date_next_month [OF t, of 2] unfolding time_Date_of_def day by (simp add: add.commute add.left_commute)
  show ?thesis
    using assms cur fut date
    by (auto simp: PartitionsForPeriod_def t left Let_def MaxMetricPartitioningPrefillPeriodDays_def)
qed

lemma planned_day:
  assumes "PartitionsForPeriod start n = Ok ps" and "n \<le> 28" and "p \<in> set ps"
  obtains (current) k where "start div day_ns \<le> k" "k < start div day_ns + min (days_left start) n"
      "p = day_period (name_of_day current_month_name k) k"
  | (future) k where "start div day_ns + days_left start < k" "k \<le> start div day_ns + n"
      "p = day_period (name_of_day future_month_name k) k"
proof -
  let ?today = "start div day_ns"
  have "p \<in> (\<lambda>j. day_period (name_of_day current_month_name (?today + int j)) (?today + int j)) ` {0..<nat (min (days_left start) n)} \<or>
    p \<in> (\<lambda>j. day_period (name_of_day future_month_name (?today + days_left start + 1 + int j))
        (?today + days_left start + 1 + int j)) ` {0..<nat (n - days_left start)}"
    using assms(1,3) by (auto simp: PartitionsForPeriod_Ok [OF assms(2)])
  then show ?thesis
  proof (elim disjE imageE)
    fix j assume j: "j \<in> {0..<nat (min (days_left start) n)}"
      and p: "p = day_period (name_of_day current_month_name (?today + int j)) (?today + int j)"
    show ?thesis by (rule current [OF _ _ p]) (use j in auto)
  next
    fix j assume j: "j \<in> {0..<nat (n - days_left start)}"
      and p: "p = day_period (name_of_day future_month_name (?today + days_left start + 1 + int j))
        (?today + days_left start + 1 + int j)"
    show ?thesis by (rule future [OF _ _ p]) (use j in auto)
  qed
qed

lemma day_bounds: "k * day_ns \<le> t \<and> t < (k + 1) * day_ns \<longleftrightarrow> t div day_ns = k"
proof
  assume "k * day_ns \<le> t \<and> t < (k + 1) * day_ns"
  then show "t div day_ns = k"
    by (intro int_div_pos_eq [where r = "t - k * day_ns"]) (auto simp: algebra_simps)
next
  assume k: "t div day_ns = k"
  have "0 \<le> t mod day_ns" "t mod day_ns < day_ns" by (simp_all add: day_ns_def)
  moreover have "t = k * day_ns + t mod day_ns" using k div_mult_mod_eq [of t day_ns] by simp
  ultimately show "k * day_ns \<le> t \<and> t < (k + 1) * day_ns" unfolding distrib_right by linarith
qed

lemma day_period_covers:
  "InclusiveStartPeriod (day_period name k) \<le> t \<and> t < ExclusiveEndPeriod (day_period name k) \<longleftrightarrow> t div day_ns = k"
  by (simp add: day_period_def day_bounds)

lemma day_period_before:
  "k < k' \<Longrightarrow> ExclusiveEndPeriod (day_period name k) \<le> InclusiveStartPeriod (day_period name' k')"
  unfolding day_period_def PartitionPeriod.simps by (intro mult_right_mono) (simp_all add: day_ns_def)

lemma day_periods_sorted:
  "sorted_wrt (\<lambda>p q. ExclusiveEndPeriod p \<le> InclusiveStartPeriod q)
     (map (\<lambda>j. day_period (name j) (k + int j)) [0..<n])"
  unfolding sorted_wrt_map
  by (rule sorted_wrt_mono_rel [OF _ sorted_wrt_upt]) (simp add: day_period_before)

section \<open>Transactions\<close>

text \<open>
  The transactions a log leaves open: those begun with success and not yet ended. A commit or a
  roll-back ends a transaction even when it reports an error.
\<close>

definition tx_open :: "pg_log \<Rightarrow> int" where
  "tx_open calls = int (length (filter (\<lambda>c. c = (BeginTx, True)) calls)) -
     int (length (filter (\<lambda>(c, ok). c = Commit \<or> c = Rollback) calls))"

text \<open>The attempts to begin a transaction, and the failed queries whether a table is attached.\<close>

definition begun :: "pg_log \<Rightarrow> nat" where
  "begun calls = length (filter (\<lambda>(c, ok). c = BeginTx) calls)"

definition failed_queries :: "pg_log \<Rightarrow> nat" where
  "failed_queries calls = length (filter (\<lambda>(c, ok). (\<exists>name. c = QueryAttached name) \<and> \<not> ok) calls)"

lemmas log_counts = tx_open_def begun_def failed_queries_def

lemma log_counts_append:
  "tx_open (xs @ ys) = tx_open xs + tx_open ys" "begun (xs @ ys) = begun xs + begun ys"
  "failed_queries (xs @ ys) = failed_queries xs + failed_queries ys"
  by (simp_all add: log_counts)

lemma pg_exec_log: "pg_exec db st c = (st', reply) \<Longrightarrow> snd st' = snd st @ [(c, \<not> failed reply)]"
  by (auto simp: pg_exec_def split: prod.splits)

lemma pg_exec_fst_log: "\<exists>ok. snd (fst (pg_exec db st c)) = snd st @ [(c, ok)]"
  by (auto simp: pg_exec_def split: prod.splits)

lemma attach_and_end_log:
  "\<exists>ok c ok'. (c = Commit \<or> c = Rollback) \<and> snd (attach_and_end db p st) =
     snd st @ [(AttachPartition (TableName p) (InclusiveStartPeriod p) (ExclusiveEndPeriod p), ok), (c, ok')]"
proof -
  obtain st1 reply where 1: "pg_exec db st (AttachPartition (TableName p) (InclusiveStartPeriod p) (ExclusiveEndPeriod p)) = (st1, reply)"
    by fastforce
  obtain ok ok' where "snd (fst (pg_exec db st1 Commit)) = snd st1 @ [(Commit, ok)]"
    "snd (fst (pg_exec db st1 Rollback)) = snd st1 @ [(Rollback, ok')]"
    using pg_exec_fst_log by metis
  then show ?thesis using pg_exec_log [OF 1] 1 by (cases "failed reply") (auto simp: attach_and_end_def)
qed

lemma create_partition_log:
  "\<exists>new. snd (create_partition db p st) = snd st @ new \<and> tx_open new = int (failed_queries new) \<and> begun new = 1"
proof -
  obtain st1 b where 1: "pg_exec db st BeginTx = (st1, b)" by fastforce
  obtain st2 sel where 2: "pg_exec db st1 (SelectFromTable (TableName p)) = (st2, sel)" by fastforce
  obtain st3 made where 3: "pg_exec db st2 (CreateTableLike (TableName p)) = (st3, made)" by fastforce
  obtain st4 att where 4: "pg_exec db st2 (QueryAttached (TableName p)) = (st4, att)" by fastforce
  note logs = 1 [THEN pg_exec_log] 2 [THEN pg_exec_log] 3 [THEN pg_exec_log] 4 [THEN pg_exec_log]
  obtain r2 r3 c4 where ends: "snd (fst (pg_exec db st2 Rollback)) = snd st2 @ [(Rollback, r2)]"
    "snd (fst (pg_exec db st3 Rollback)) = snd st3 @ [(Rollback, r3)]"
    "snd (fst (pg_exec db st4 Commit)) = snd st4 @ [(Commit, c4)]"
    using pg_exec_fst_log by metis
  obtain o3 e3 k3 where a3: "e3 = Commit \<or> e3 = Rollback" "snd (attach_and_end db p st3) =
      snd st3 @ [(AttachPartition (TableName p) (InclusiveStartPeriod p) (ExclusiveEndPeriod p), o3), (e3, k3)]"
    using attach_and_end_log [of db p st3] by blast
  obtain o4 e4 k4 where a4: "e4 = Commit \<or> e4 = Rollback" "snd (attach_and_end db p st4) =
      snd st4 @ [(AttachPartition (TableName p) (InclusiveStartPeriod p) (ExclusiveEndPeriod p), o4), (e4, k4)]"
    using attach_and_end_log [of db p st4] by blast
  note facts = 1 2 3 4 logs ends a3(2) a4(2)
  show ?thesis
  proof (cases "failed b")
    case True
    then show ?thesis by (simp add: create_partition_def facts log_counts)
  next
    case False
    show ?thesis
    proof (cases sel)
      case (Err e)
      then show ?thesis using False a3(1) by (auto simp: create_partition_def facts log_counts failed_def)
    qed (use False a4(1) in \<open>cases att; auto simp: create_partition_def facts log_counts failed_def split: bool.splits\<close>)+
  qed
qed

lemma create_partitions_log:
  "\<exists>new. snd (fold (create_partition db) ps st) = snd st @ new \<and> tx_open new = int (failed_queries new) \<and> begun new = length ps"
proof (induction ps arbitrary: st)
  case Nil
  then show ?case by (simp add: log_counts)
next
  case (Cons p ps)
  obtain new where "snd (create_partition db p st) = snd st @ new" "tx_open new = int (failed_queries new)" "begun new = 1"
    using create_partition_log [of db p st] by blast
  moreover obtain new' where "snd (fold (create_partition db) ps (create_partition db p st)) = snd (create_partition db p st) @ new'"
    "tx_open new' = int (failed_queries new')" "begun new' = length ps"
    using Cons.IH by blast
  ultimately show ?case by (intro exI [of _ "new @ new'"]) (simp add: log_counts_append)
qed

section \<open>Properties\<close>

text \<open>C35: What a plan holds, day by day: for up to 28 days as many partitions as days were asked for, in
  increasing order and without overlap, each for one whole UTC day. As long as the current month
  lasts, the partition at position \<open>i\<close> is for the day \<open>i\<close> days after today; from the end of the
  month on it is for the day after that one, under a name of the other format. More than 28 days
  are refused.\<close>

theorem partitions_one_per_day:
  "(n \<le> 28 \<longrightarrow> (\<exists>ps. PartitionsForPeriod start n = Ok ps \<and> length ps = nat n \<and>
      sorted_wrt (\<lambda>p q. ExclusiveEndPeriod p \<le> InclusiveStartPeriod q) ps \<and>
      (\<forall>i < nat n. \<exists>k. k = start div day_ns + int i + (if int i < days_left start then 0 else 1) \<and>
        InclusiveStartPeriod (ps ! i) = k * day_ns \<and> ExclusiveEndPeriod (ps ! i) = (k + 1) * day_ns \<and>
        TableName (ps ! i) = name_of_day (if int i < days_left start then current_month_name else future_month_name) k))) \<and>
   (28 < n \<longrightarrow> PartitionsForPeriod start n = Err n)"
proof (intro conjI impI)
  assume n: "n \<le> 28"
  note ok = PartitionsForPeriod_Ok [OF n, of start]
  let ?t = "start div day_ns"
  let ?cur = "map (\<lambda>j. day_period (name_of_day current_month_name (?t + int j)) (?t + int j))
      [0..<nat (min (days_left start) n)]"
  let ?fut = "map (\<lambda>j. day_period (name_of_day future_month_name (?t + days_left start + 1 + int j))
      (?t + days_left start + 1 + int j)) [0..<nat (n - days_left start)]"
  have "sorted_wrt (\<lambda>p q. ExclusiveEndPeriod p \<le> InclusiveStartPeriod q) (?cur @ ?fut)"
    unfolding sorted_wrt_append by (auto simp: day_periods_sorted intro!: day_period_before)
  moreover have len: "length (?cur @ ?fut) = nat n" using days_left_bounds [of start] by (auto simp: min_def nat_diff_distrib)
  moreover have "(?cur @ ?fut) ! i = day_period (name_of_day (if int i < days_left start then current_month_name else future_month_name) k) k"
    if "i < nat n" and "k = ?t + int i + (if int i < days_left start then 0 else 1)" for i k
  proof (cases "int i < days_left start")
    case True
    then show ?thesis using that by (simp add: nth_append)
  next
    case False
    then have i: "nat (min (days_left start) n) = nat (days_left start)" "\<not> i < nat (days_left start)"
      "i - nat (days_left start) < nat (n - days_left start)"
      using that days_left_bounds [of start] by auto
    show ?thesis using False that(2) days_left_bounds [of start] by (simp add: nth_append i algebra_simps)
  qed
  ultimately show "\<exists>ps. PartitionsForPeriod start n = Ok ps \<and> length ps = nat n \<and>
      sorted_wrt (\<lambda>p q. ExclusiveEndPeriod p \<le> InclusiveStartPeriod q) ps \<and>
      (\<forall>i < nat n. \<exists>k. k = ?t + int i + (if int i < days_left start then 0 else 1) \<and>
        InclusiveStartPeriod (ps ! i) = k * day_ns \<and> ExclusiveEndPeriod (ps ! i) = (k + 1) * day_ns \<and>
        TableName (ps ! i) = name_of_day (if int i < days_left start then current_month_name else future_month_name) k)"
    using ok by (intro exI [of _ "?cur @ ?fut"]) (simp add: day_period_def)
qed (simp add: PartitionsForPeriod_def MaxMetricPartitioningPrefillPeriodDays_def)

text \<open>C36: The plan covers the coming days of the current month: every instant of the days from today to the
  end of the month, as far as days were requested, lies in exactly one planned partition, and
  that partition is named after the date of the day.\<close>

theorem partitions_cover_current_month:
  assumes "n \<le> 28" and "PartitionsForPeriod start n = Ok ps"
    and "start div day_ns \<le> t div day_ns" and "t div day_ns < start div day_ns + min (days_left start) n"
  shows "(\<exists>!p. p \<in> set ps \<and> InclusiveStartPeriod p \<le> t \<and> t < ExclusiveEndPeriod p) \<and>
    (\<forall>p\<in>set ps. InclusiveStartPeriod p \<le> t \<and> t < ExclusiveEndPeriod p \<longrightarrow>
      TableName p = name_of_day current_month_name (t div day_ns))"
proof -
  let ?p = "day_period (name_of_day current_month_name (t div day_ns)) (t div day_ns)"
  have mem: "?p \<in> set ps"
  proof -
    have "t div day_ns = start div day_ns + int (nat (t div day_ns - start div day_ns))" using assms(3) by simp
    moreover have "nat (t div day_ns - start div day_ns) < nat (min (days_left start) n)" using assms(3,4) by auto
    ultimately have "?p \<in> (\<lambda>j. day_period (name_of_day current_month_name (start div day_ns + int j)) (start div day_ns + int j))
        ` {0..<nat (min (days_left start) n)}"
      by (intro image_eqI [where x = "nat (t div day_ns - start div day_ns)"]) auto
    then show ?thesis using assms(2) by (auto simp: PartitionsForPeriod_Ok [OF assms(1)])
  qed
  have same: "p = ?p" if "p \<in> set ps" "InclusiveStartPeriod p \<le> t \<and> t < ExclusiveEndPeriod p" for p
  proof (cases rule: planned_day [OF assms(2,1) that(1)])
    case (1 k)
    then show ?thesis using that(2) by (simp add: day_period_covers)
  next
    case (2 k)
    then show ?thesis using that(2) assms(4) by (simp add: day_period_covers)
  qed
  have "InclusiveStartPeriod ?p \<le> t \<and> t < ExclusiveEndPeriod ?p" by (simp only: day_period_covers)
  with mem same have "\<exists>!p. p \<in> set ps \<and> InclusiveStartPeriod p \<le> t \<and> t < ExclusiveEndPeriod p" by blast
  moreover have "\<forall>p\<in>set ps. InclusiveStartPeriod p \<le> t \<and> t < ExclusiveEndPeriod p \<longrightarrow>
      TableName p = name_of_day current_month_name (t div day_ns)"
    using same by (metis PartitionPeriod.select_convs(1) day_period_def)
  ultimately show ?thesis ..
qed

text \<open>The twenty-ninth of June 2023, one in the morning, as an example.\<close>

definition june_29 :: int where "june_29 = day_number 2023 6 29 * day_ns + 3600000000000"

lemma june_29_day: "june_29 div day_ns = day_number 2023 6 29"
  by (simp add: june_29_def day_ns_def)

lemma june_29_date: "time_Date_of june_29 = (2023, 6, 29)"
  unfolding time_Date_of_def june_29_day
  by (rule date_of_day_number) (simp add: valid_date_def days_in_month_def days_before_month_def daysBefore_def)

lemma june_29_left: "days_left june_29 = 2"
  by (simp add: days_left_def june_29_date days_in_month_def days_before_month_def daysBefore_def)

theorem partitions_one_per_day_witness:
  "\<exists>ps. PartitionsForPeriod june_29 7 = Ok ps \<and> length ps = 7 \<and>
    InclusiveStartPeriod (ps ! 2) = (day_number 2023 6 29 + 3) * day_ns"
proof -
  obtain ps where ps: "PartitionsForPeriod june_29 7 = Ok ps" "length ps = 7"
    and nth: "\<forall>i < nat 7. \<exists>k. k = june_29 div day_ns + int i + (if int i < days_left june_29 then 0 else 1) \<and>
        InclusiveStartPeriod (ps ! i) = k * day_ns \<and> ExclusiveEndPeriod (ps ! i) = (k + 1) * day_ns \<and>
        TableName (ps ! i) = name_of_day (if int i < days_left june_29 then current_month_name else future_month_name) k"
    using partitions_one_per_day [of 7 june_29] by auto
  show ?thesis using ps nth [rule_format, of 2] by (simp add: june_29_day june_29_left)
qed

theorem partitions_cover_current_month_witness:
  "\<exists>!p. p \<in> set (the_Ok (PartitionsForPeriod june_29 7)) \<and> InclusiveStartPeriod p \<le> june_29 \<and> june_29 < ExclusiveEndPeriod p"
  by (rule conjunct1, rule partitions_cover_current_month [of 7 june_29])
     (simp_all add: PartitionsForPeriod_Ok june_29_left)

text \<open>C37: Where a plan reaches into the next month it leaves a day out: the first day of the next month,
  although the days after it are planned.\<close>

theorem first_of_next_month_missing:
  assumes "n \<le> 28" and "PartitionsForPeriod start n = Ok ps" and "days_left start < n"
    and "t div day_ns = start div day_ns + days_left start"
  shows "(\<exists>y m. time_Date_of t = (y, m, 1)) \<and>
    \<not> (\<exists>p\<in>set ps. InclusiveStartPeriod p \<le> t \<and> t < ExclusiveEndPeriod p) \<and>
    (\<exists>p\<in>set ps. ExclusiveEndPeriod p > t + day_ns)"
proof -
  obtain y m d where s: "time_Date_of start = (y, m, d)" by (cases "time_Date_of start")
  have "\<exists>y m. time_Date_of t = (y, m, 1)"
    using date_next_month [OF s, of 1] assms(4) by (simp add: time_Date_of_def)
  moreover have "\<not> (InclusiveStartPeriod p \<le> t \<and> t < ExclusiveEndPeriod p)" if "p \<in> set ps" for p
  proof (cases rule: planned_day [OF assms(2,1) that])
    case (1 k)
    then show ?thesis using assms(4) by (simp add: day_period_covers)
  next
    case (2 k)
    then show ?thesis using assms(4) by (simp add: day_period_covers)
  qed
  moreover have "\<exists>p\<in>set ps. ExclusiveEndPeriod p > t + day_ns"
  proof -
    let ?k = "start div day_ns + days_left start + 1"
    have "day_period (name_of_day future_month_name ?k) ?k \<in> set ps"
      using assms(2,3) by (auto simp: PartitionsForPeriod_Ok [OF assms(1)] intro!: image_eqI [where x = 0])
    moreover have "t + day_ns < (?k + 1) * day_ns"
      using assms(4) day_bounds [of "?k - 1" t] by (simp add: algebra_simps)
    ultimately show ?thesis by (force simp: day_period_def)
  qed
  ultimately show ?thesis by blast
qed

theorem first_of_next_month_missing_witness:
  "\<not> (\<exists>p\<in>set (the_Ok (PartitionsForPeriod june_29 7)).
      InclusiveStartPeriod p \<le> june_29 + 2 * day_ns \<and> june_29 + 2 * day_ns < ExclusiveEndPeriod p)"
  using first_of_next_month_missing [of 7 june_29 "the_Ok (PartitionsForPeriod june_29 7)" "june_29 + 2 * day_ns"]
  by (simp add: PartitionsForPeriod_Ok june_29_left day_of_shift)

lemma show_int_no_underscore: "take 1 (show_int y @ s) \<noteq> ''_''"
proof -
  have "show_int y \<noteq> []" by (simp add: show_int_def)
  moreover have "CHR ''_'' \<notin> set (show_int y)" by (simp add: show_int_def show_nat_avoids)
  ultimately show ?thesis by (cases "show_int y") auto
qed

lemma names_differ: "current_month_name y m d \<noteq> future_month_name y m d"
  using show_int_no_underscore [of y "''_month'' @ show_int m @ ''_day'' @ show_int d"]
  by (auto simp: current_month_name_def future_month_name_def simp del: take_append)

text \<open>A day has two table names. A partition planned ahead for a day of the next month and the one planned
  when that day has come have the same bounds but different names, so the second run does not
  find the table of the first and tries to attach another table for the same range.\<close>

theorem planned_day_renamed:
  assumes "n \<le> 28" and "PartitionsForPeriod start n = Ok ps"
    and "start div day_ns + days_left start < start' div day_ns" and "start' div day_ns \<le> start div day_ns + n"
    and "1 \<le> n'" and "n' \<le> 28" and "PartitionsForPeriod start' n' = Ok qs"
  shows "\<exists>p\<in>set ps. \<exists>q\<in>set qs. InclusiveStartPeriod p = InclusiveStartPeriod q \<and>
    ExclusiveEndPeriod p = ExclusiveEndPeriod q \<and> TableName p \<noteq> TableName q"
proof -
  let ?k = "start' div day_ns"
  let ?p = "day_period (name_of_day future_month_name ?k) ?k"
  let ?q = "day_period (name_of_day current_month_name ?k) ?k"
  have "?p \<in> set ps"
  proof -
    let ?j = "nat (?k - (start div day_ns + days_left start + 1))"
    have "?k = start div day_ns + days_left start + 1 + int ?j" "?j < nat (n - days_left start)"
      using assms(3,4) by auto
    then have "?p \<in> (\<lambda>j. day_period (name_of_day future_month_name (start div day_ns + days_left start + 1 + int j))
        (start div day_ns + days_left start + 1 + int j)) ` {0..<nat (n - days_left start)}"
      by (intro image_eqI [where x = ?j]) auto
    then show ?thesis using assms(2) by (auto simp: PartitionsForPeriod_Ok [OF assms(1)])
  qed
  moreover have "?q \<in> set qs"
    using assms(5,7) days_left_bounds [of start']
    by (auto simp: PartitionsForPeriod_Ok [OF assms(6)] intro!: image_eqI [where x = 0])
  moreover have "TableName ?p \<noteq> TableName ?q"
    using names_differ by (cases "date_of_day ?k") (metis PartitionPeriod.select_convs(1) case_prod_conv day_period_def name_of_day_def)
  ultimately show ?thesis by (intro bexI [of _ ?p] bexI [of _ ?q]) (simp_all add: day_period_def)
qed

theorem planned_day_renamed_witness:
  "\<exists>p\<in>set (the_Ok (PartitionsForPeriod june_29 7)). \<exists>q\<in>set (the_Ok (PartitionsForPeriod (june_29 + 3 * day_ns) 7)).
     InclusiveStartPeriod p = InclusiveStartPeriod q \<and> ExclusiveEndPeriod p = ExclusiveEndPeriod q \<and>
     TableName p \<noteq> TableName q"
  by (rule planned_day_renamed [of 7 june_29 _ "june_29 + 3 * day_ns" 7])
     (simp_all add: PartitionsForPeriod_Ok june_29_left day_of_shift)

text \<open>C38: A run of the partitioning leaves exactly as many transactions open as queries whether a table is
  attached failed in it: every transaction it began is ended by a commit or a roll-back, whatever
  the database answers to the other calls, and only that error leaves one open. It begins
  one transaction, or tries to, for each planned partition, whatever happened to the earlier
  ones, and makes no call when the plan is refused.\<close>

theorem partition_transaction_ended:
  "\<exists>new. snd (fst (Partition db now n st)) = snd st @ new \<and>
    tx_open new = int (failed_queries new) \<and>
    begun new = (case PartitionsForPeriod now n of Ok ps \<Rightarrow> length ps | _ \<Rightarrow> 0) \<and>
    (28 < n \<longrightarrow> new = [])"
proof (cases "PartitionsForPeriod now n")
  case (Ok ps)
  moreover have "\<not> 28 < n" using Ok by (auto simp: PartitionsForPeriod_def MaxMetricPartitioningPrefillPeriodDays_def)
  ultimately show ?thesis using create_partitions_log [of db ps st] by (simp add: Partition_def)
qed (simp_all add: Partition_def log_counts)

text \<open>A database that is down: the run tries each of the seven days.\<close>

theorem partition_transaction_ended_witness:
  "begun (snd (fst (Partition (\<lambda>d call. (d, Err ''down'')) june_29 7 ((), [])))) = 7 \<and>
   snd (fst (Partition (\<lambda>d call. (d, Err ''down'')) june_29 29 ((), []))) = []"
  using partition_transaction_ended [of "\<lambda>d call. (d, Err ''down'')" june_29 7 "((), [])"]
    partition_transaction_ended [of "\<lambda>d call. (d, Err ''down'')" june_29 29 "((), [])"]
  by (simp add: PartitionsForPeriod_Ok june_29_left)

end
