(* ===== verification/Service.thy ===== *)
theory Service
  imports StatusApi Routines Partition
begin

text \<open>
  \<^verbatim>\<open>service/service.go\<close>, \<^verbatim>\<open>logging/logging.go\<close> and the start of \<^verbatim>\<open>main.go\<close>: how the parts are put
  together. The multiplexer sends three paths to the service's own endpoints and everything else
  into the chain that decodes, looks up, proxies, stores and records. The database driver, the
  dialling of the EVM node and the Redis client are parameters.
\<close>

section \<open>Logging\<close>

datatype zerolog_level = DebugLevel | InfoLevel | ErrorLevel | TraceLevel

definition serviceLogLevelToZeroLogLevel :: "(string, zerolog_level) gomap" where
  "serviceLogLevelToZeroLogLevel =
     [(''DEBUG'', DebugLevel), (''INFO'', InfoLevel), (''ERROR'', ErrorLevel), (''TRACE'', TraceLevel)]"

text \<open>The result is the global level of the logger.\<close>

definition logging_New :: "string \<Rightarrow> (string, zerolog_level) result" where
  "logging_New logLevel =
     (case map_of serviceLogLevelToZeroLogLevel logLevel of
        None \<Rightarrow> Err (''invalid zero log level provided '' @ logLevel @ '' '')
      | Some zerologLevel \<Rightarrow> Ok zerologLevel)"

text \<open>\<^verbatim>\<open>init\<close> of \<^verbatim>\<open>main.go\<close>: an invalid configuration or log level panics, which is \<open>None\<close>.\<close>

definition main_init :: "(string \<Rightarrow> URL option) \<Rightarrow> (string \<Rightarrow> string option) \<Rightarrow> (Config \<times> zerolog_level) option" where
  "main_init parseURL env =
     (let serviceConfig = ReadConfig parseURL env in
      if Validate parseURL serviceConfig \<noteq> [] then None
      else (case logging_New (LogLevel serviceConfig) of
              Ok level \<Rightarrow> Some (serviceConfig, level)
            | _ \<Rightarrow> None))"

section \<open>Clients\<close>

definition databaseConfig :: "Config \<Rightarrow> DatabaseConfig" where
  "databaseConfig config =
     \<lparr>dc_DatabaseName = DatabaseName config, dc_DatabaseEndpointURL = DatabaseEndpointURL config,
      dc_DatabaseUsername = DatabaseUserName config, dc_DatabasePassword = DatabasePassword config,
      dc_ReadTimeoutSeconds = DatabaseReadTimeoutSeconds config, dc_WriteTimeoutSeconds = DatabaseWriteTimeoutSeconds config,
      dc_DatabaseMaxIdleConnections = DatabaseMaxIdleConnections config,
      dc_DatabaseConnectionMaxIdleSeconds = DatabaseConnectionMaxIdleSeconds config,
      dc_DatabaseMaxOpenConnections = DatabaseMaxOpenConnections config, dc_SSLEnabled = DatabaseSSLEnabled config,
      dc_QueryLoggingEnabled = DatabaseQueryLoggingEnabled config, dc_RunDatabaseMigrations = RunDatabaseMigrations config\<rparr>"

text \<open>
  The client, and whether the goroutine that runs the migrations was started. That goroutine
  assigns the results of its health checks to the variable \<^verbatim>\<open>err\<close> that the function returns, without
  any synchronisation: \<open>checks\<close> are the results of the checks it has made by the time the function
  returns, none of them when it did not run yet. Its later assignments are to a variable of its own.
\<close>

definition err_at_return :: "error list \<Rightarrow> error" where
  "err_at_return checks = (if checks = [] then None else last checks)"

definition createDatabaseClient :: "error list \<Rightarrow> Config \<Rightarrow> (string, Client \<times> bool) result" where
  "createDatabaseClient checks config =
     (case NewClient (databaseConfig config) of
        Err err \<Rightarrow> Err err
      | Panic p \<Rightarrow> Panic p
      | Ok serviceDatabase \<Rightarrow>
          if \<not> dc_RunDatabaseMigrations (databaseConfig config) then Ok (serviceDatabase, False)
          else (case err_at_return checks of
                  Some err \<Rightarrow> Err err
                | None \<Rightarrow> Ok (serviceDatabase, True)))"

text \<open>The goroutine waits for the database, then migrates; \<open>ping\<close> is the health check.\<close>

partial_function (option) wait_online :: "('m \<Rightarrow> 'm \<times> error) \<Rightarrow> 'm \<Rightarrow> 'm option" where
  "wait_online ping m = (case ping m of (m', Some err) \<Rightarrow> wait_online ping m' | (m', None) \<Rightarrow> Some m')"

definition migration_routine :: "('m \<Rightarrow> 'm \<times> error) \<Rightarrow> ('m, 'x) migrator \<Rightarrow> 'm \<Rightarrow> ('m \<times> (string + 'x)) option" where
  "migration_routine ping mg m = (case wait_online ping m of None \<Rightarrow> None | Some m' \<Rightarrow> Migrate mg m')"

record RedisConfig =
  redis_Address :: string
  redis_Password :: string
  redis_DB :: int

definition createServiceCache :: "(RedisConfig \<Rightarrow> 'r redis_client) \<Rightarrow> Config \<Rightarrow> 'r ServiceCache" where
  "createServiceCache redis config =
     NewServiceCache
       (NewRedisCache (redis \<lparr>redis_Address = RedisEndpointURL config, redis_Password = RedisPassword config, redis_DB = 0\<rparr>))
       DecodedRequestContextKey (CachePrefix config) (CacheEnabled config) (WhitelistedHeaders config)
       (DefaultAccessControlAllowOriginValue config) (HostnameToAccessControlAllowOriginValueMap config)
       \<lparr>mdw_CacheMethodHasBlockNumberParamTTL = CacheMethodHasBlockNumberParamTTL config,
        mdw_CacheMethodHasBlockHashParamTTL = CacheMethodHasBlockHashParamTTL config,
        mdw_CacheStaticMethodTTL = CacheStaticMethodTTL config,
        mdw_CacheMethodHasTxHashParamTTL = CacheMethodHasTxHashParamTTL config\<rparr>"

section \<open>The chain\<close>

definition batchMdwConfig :: "Config \<Rightarrow> BatchMiddlewareConfig" where
  "batchMdwConfig config =
     \<lparr>ContextKeyDecodedRequestBatch = DecodedBatchRequestContextKey,
      ContextKeyDecodedRequestSingle = DecodedRequestContextKey, MaximumBatchSize = ProxyMaximumBatchSize config\<rparr>"

definition batchProcessingMiddleware ::
  "(string \<Rightarrow> URL option) \<Rightarrow> event list \<Rightarrow> ('n, 'h) Externals \<Rightarrow> Config \<Rightarrow> 's ServiceCache \<Rightarrow> ('s, ResponseWriter) handler" where
  "batchProcessingMiddleware urlParse schedule x config c =
     CreateBatchProcessingMiddleware urlParse schedule (cacheMiddleware x config c) (batchMdwConfig config)"

definition decodeRequestMiddleware ::
  "(string \<Rightarrow> URL option) \<Rightarrow> event list \<Rightarrow> ('n, 'h) Externals \<Rightarrow> Config \<Rightarrow> 's ServiceCache \<Rightarrow> ('s, ResponseWriter) handler" where
  "decodeRequestMiddleware urlParse schedule x config c =
     createDecodeRequestMiddleware x (cacheMiddleware x config c) (batchProcessingMiddleware urlParse schedule x config c)"

text \<open>The multiplexer, for a path in canonical form.\<close>

definition mux ::
  "(string \<Rightarrow> URL option) \<Rightarrow> event list \<Rightarrow> ('n, 'h) Externals \<Rightarrow> Config \<Rightarrow> ('d, 's) ProxyService \<Rightarrow> 'd \<Rightarrow> string \<Rightarrow>
    ('s, ResponseWriter) handler" where
  "mux urlParse schedule x config service d path =
     (if path = ''/healthcheck'' then createHealthcheckHandler service d
      else if path = ''/servicecheck'' then createServicecheckHandler service
      else if path = ''/status/database'' then createDatabaseStatusHandler (svc_Database service) d
      else decodeRequestMiddleware urlParse schedule x config (svc_Cache service))"

record http_Server =
  srv_Addr :: string
  srv_WriteTimeout :: int
  srv_ReadTimeout :: int

definition server :: "Config \<Rightarrow> http_Server" where
  "server config =
     \<lparr>srv_Addr = '':'' @ ProxyServicePort config, srv_WriteTimeout = seconds (HTTPWriteTimeoutSeconds config),
      srv_ReadTimeout = seconds (HTTPReadTimeoutSeconds config)\<rparr>"

text \<open>
  \<open>postgres\<close> gives the operations of a database client, \<open>checks\<close> the health checks that raced with its creation,
  \<open>dial\<close> the error of dialling the EVM node.
\<close>

definition New ::
  "(Client \<Rightarrow> 'd MetricsDatabase) \<Rightarrow> error list \<Rightarrow> (string \<Rightarrow> error) \<Rightarrow> (RedisConfig \<Rightarrow> 'r redis_client) \<Rightarrow> Config \<Rightarrow>
    (string, ('d, 'r) ProxyService \<times> http_Server) result" where
  "New postgres checks dial redis config =
     bind_result
       (if MetricDatabaseEnabled config
        then bind_result (createDatabaseClient checks config) (\<lambda>(client, migrating). Ok (postgres client))
        else Ok noop)
       (\<lambda>db. case dial (EvmQueryServiceURL config) of
          Some err \<Rightarrow> Err err
        | None \<Rightarrow> Ok (\<lparr>svc_Database = db, svc_Cache = createServiceCache redis config\<rparr>, server config))"

section \<open>Wiring\<close>

lemma wait_online_eventually:
  assumes "snd (ping (((fst \<circ> ping) ^^ n) m)) = None"
  shows "\<exists>k \<le> n. wait_online ping m = Some (((fst \<circ> ping) ^^ Suc k) m)"
  using assms
proof (induction n arbitrary: m)
  case 0
  then show ?case by (cases "ping m") (simp add: wait_online.simps)
next
  case (Suc n)
  obtain m' e where ping: "ping m = (m', e)" by fastforce
  then have step: "((fst \<circ> ping) ^^ Suc k) m = ((fst \<circ> ping) ^^ k) m'" for k
    by (simp add: funpow_Suc_right del: funpow.simps)
  show ?case
  proof (cases e)
    case None
    then show ?thesis using ping by (intro exI [of _ 0]) (simp add: wait_online.simps)
  next
    case (Some err)
    then have "wait_online ping m = wait_online ping m'" using ping by (simp add: wait_online.simps [of ping m])
    moreover obtain k where "k \<le> n" "wait_online ping m' = Some (((fst \<circ> ping) ^^ Suc k) m')"
      using Suc.IH [of m'] Suc.prems step by (metis (no_types))
    ultimately show ?thesis using step [of "Suc k"] by (metis Suc_le_mono)
  qed
qed

text \<open>The goroutine of the migrations ends once the database answers and the lock is granted.\<close>

lemma migration_routine_returns:
  assumes "snd (ping (((fst \<circ> ping) ^^ n) m)) = None"
    and "\<And>m. snd (mg_Init mg m) = None" and "\<And>m. \<exists>t. snd (mg_Lock mg (after_tries mg t m)) = None"
  shows "\<exists>m' res. migration_routine ping mg m = Some (m', res)"
proof -
  obtain m1 where online: "wait_online ping m = Some m1" using assms(1) wait_online_eventually [of ping n m] by blast
  obtain m2 where init: "mg_Init mg m1 = (m2, None)" using assms(2) [of m1] by (cases "mg_Init mg m1") simp
  obtain t where "snd (mg_Lock mg (after_tries mg t m2)) = None" using assms(3) [of m2] by (elim exE)
  then obtain m3 where "acquire mg m2 = Some m3" by (metis acquire_eventually)
  then show ?thesis using online init by (simp add: migration_routine_def Migrate_def split: prod.split)
qed

lemma New_cache:
  assumes "New postgres checks dial redis config = Ok (service, srv)"
  shows "svc_Cache service = createServiceCache redis config"
  using assms unfolding New_def
  by (auto split: option.splits)

lemma createServiceCache_wired: "cache_wired config (createServiceCache redis config)"
  by (simp add: cache_wired_def createServiceCache_def NewServiceCache_def)

lemma createServiceCache_contract:
  "\<forall>cfg. redis_ok (redis cfg) \<Longrightarrow> cached_responses (createServiceCache redis config)"
  unfolding createServiceCache_def by (rule redis_sc) blast

lemma decode_single:
  assumes "Body r = Some (Reader b False)" and "DecodeEVMRPCRequest (x_fnum x) b = Ok e"
  shows "\<exists>r'. createDecodeRequestMiddleware x next batch W w r = next (tick 1 W) w r' \<and> Host r' = Host r \<and>
    ReqHeader r' = ReqHeader r \<and> decoded_request r' DecodedRequestContextKey = Some (Some e) \<and> Body r' = Some (Reader b False)"
proof -
  have "b \<noteq> []" using assms(2) by (auto simp: DecodeEVMRPCRequest_def json_parse_def p_value.simps skip_ws_def)
  then show ?thesis using assms
    by (intro exI) (auto simp: createDecodeRequestMiddleware_def ReadAll_def decoded_request_def Let_def)
qed

lemma decoded_canon:
  assumes "float_roundtrip fnum" and "DecodeEVMRPCRequest fnum body = Ok e"
  shows "envelope_canon fnum e"
  using assms by (auto simp: DecodeEVMRPCRequest_def intro: unmarshal_canon json_parse_wf split: option.splits)

section \<open>Properties\<close>

text \<open>The request as the router sees it once it is decoded.\<close>

definition decoded_as :: "Request \<Rightarrow> EVMRPCRequestEnvelope \<Rightarrow> Request" where
  "decoded_as r e = WithContext r [(DecodedRequestContextKey, CtxRequest (Some e))]"

lemma route_decoded:
  assumes "decoded_request r' DecodedRequestContextKey = Some (Some e)" and "Host r' = Host r"
  shows "ProxyForRequest newInt p r' = ProxyForRequest newInt p (decoded_as r e)"
  using assms by (intro ProxyForRequest_cong) (simp_all add: decoded_as_def decoded_request_def Value_def)

lemma redis_accepts:
  assumes "\<forall>s now k v t. 0 < t \<longrightarrow> snd (redis_Set rc s now k v t) = None" and "0 < ttl"
  shows "snd (cache_Set (NewRedisCache rc) s now k v ttl) = None"
proof -
  obtain s' where "redis_Set rc s now k v ttl = (s', None)" using assms by (metis surj_pair snd_conv)
  then show ?thesis using assms(2) by (simp add: NewRedisCache_def RedisCache_Set_def)
qed

lemma stored_when_settled:
  assumes "IsCacheable newInt (Some e) = Ok True" and "UnmarshalJsonRpcResponse body = Ok resp" and "resp_IsCacheable fnum resp"
    and "IsFinal fnum resp (Method e)" and "GetTTL c (Method e) = Ok ttl"
    and "\<And>s now k v. snd (cache_Set (cacheClient c) s now k v ttl) = None"
  shows "\<exists>s'. CacheQueryResponse fnum newInt c s now (Some e) body hm = (s', Ok ())"
proof -
  let ?key = "the_Ok (GetQueryKey (cachePrefix c) (Some e))"
  let ?txt = "json_print (marshal_query_response \<lparr>JsonRpcResponseResult = Result resp, HeaderMap = hm\<rparr>)"
  obtain s' where "cache_Set (cacheClient c) s now ?key ?txt ttl = (s', None)" using assms(6) by (metis surj_pair snd_conv)
  then show ?thesis using assms(1-5) by (simp add: CacheQueryResponse_def GetQueryKey_Ok)
qed

lemma first_request_stores:
  assumes ext: "negroni_ok (x_negroni x)" "\<forall>cfg. redis_ok (redis cfg)"
      "\<forall>cfg s now k v t. 0 < t \<longrightarrow> snd (redis_Set (redis cfg) s now k v t) = None"
    and on: "CacheEnabled config" and c: "c = createServiceCache redis config"
    and body: "Body r = Some (Reader b False)" "DecodeEVMRPCRequest (x_fnum x) b = Ok e"
    and route: "ProxyForRequest (x_newInt x) (NewProxies config) (decoded_as r e) = Ok (Some (ReverseProxy target), md, True)"
    and miss: "GetCachedQueryResponse (x_newInt x) c (w_cache W) (cache_now x (tick 1 W)) (Some e) = (s', Err err)"
    and reply: "\<forall>req. x_backend x (length (w_calls W)) target req = Reply status header parts False" "status \<noteq> 0"
    and settled: "IsCacheable (x_newInt x) (Some e) = Ok True" "UnmarshalJsonRpcResponse (concat parts) = Ok resp"
      "resp_IsCacheable (x_fnum x) resp" "IsFinal (x_fnum x) resp (Method e)"
    and life: "GetTTL c (Method e) = Ok ttl" "0 < ttl"
    and first: "decodeRequestMiddleware urlParse schedule x config c W (Server new_response) r = (W1, w1, p1)"
  shows "length (w_calls W1) = length (w_calls W) + 1"
    "CacheQueryResponse (x_fnum x) (x_newInt x) c s' (\<lambda>i. x_clock x (w_clock W + 5 + i)) (Some e) (concat parts)
       (getHeadersToCache (miss_header header []) (WhitelistedHeaders config) []) = (w_cache W1, Ok ())"
    "w_clock W1 = w_clock W + 7"
proof -
  note wired = createServiceCache_wired [of config redis, folded c]
  have accepts: "snd (cache_Set (cacheClient c) s now k v ttl) = None" for s now k v
    unfolding c createServiceCache_def NewServiceCache_def ServiceCache.simps
    by (rule redis_accepts) (use ext(3) life(2) in blast)+
  from decode_single [OF body] obtain q where q: "cacheMiddleware x config c (tick 1 W) (Server new_response) q = (W1, w1, p1)"
    "Host q = Host r" "decoded_request q DecodedRequestContextKey = Some (Some e)"
    using first by (metis decodeRequestMiddleware_def)
  have lookup: "GetCachedQueryResponse (x_newInt x) c (w_cache (tick 1 W)) (cache_now x (tick 1 W)) (Some e) = (s', Err err)"
    using miss by simp
  note m = miss_chain [OF ext(1) wired on q(3) lookup route [folded route_decoded [OF q(3,2)]], simplified tick_simps,
      OF spec [OF reply(1)] reply(2) q(1)]
  have hdr: "w_Header w1 = miss_header header []" using m(1) by (simp add: relayed_header new_response_def)
  obtain s1 where s1: "CacheQueryResponse (x_fnum x) (x_newInt x) c s' (\<lambda>i. x_clock x (w_clock W + 5 + i)) (Some e) (concat parts)
      (getHeadersToCache (miss_header header []) (WhitelistedHeaders config) []) = (s1, Ok ())"
    using stored_when_settled [OF settled life(1) accepts] by blast
  moreover have "w_cache W1 = s1" using m(3) settled(1) s1 hdr by (simp add: add.commute)
  ultimately show "CacheQueryResponse (x_fnum x) (x_newInt x) c s' (\<lambda>i. x_clock x (w_clock W + 5 + i)) (Some e) (concat parts)
      (getHeadersToCache (miss_header header []) (WhitelistedHeaders config) []) = (w_cache W1, Ok ())" by simp
  show "length (w_calls W1) = length (w_calls W) + 1" "w_clock W1 = w_clock W + 7" using m(2,4) settled(1) by simp_all
qed

lemma later_request_hits:
  assumes "\<forall>cfg. redis_ok (redis cfg)" "float_roundtrip (x_fnum x)" and c: "c = createServiceCache redis config"
    and stored: "CacheQueryResponse (x_fnum x) (x_newInt x) c s now (Some e1) body hm = (s1, Ok ())"
    and resp: "UnmarshalJsonRpcResponse body = Ok resp" "header_map_ok hm"
    and dec: "DecodeEVMRPCRequest (x_fnum x) b = Ok e2" and same: "Method e2 = Method e1" "Params e2 = Params e1"
    and life: "GetTTL c (Method e1) = Ok ttl" "0 < ttl" "t 0 \<le> now 0 + ttl"
  shows "\<exists>s' j. json_parse (Result resp) = Some j \<and> GetCachedQueryResponse (x_newInt x) c s1 t (Some e2) =
    (s', Ok \<lparr>JsonRpcResponseResult = served_body e2 j, HeaderMap = sort_key fst hm\<rparr>)"
proof -
  note contract = createServiceCache_contract [OF assms(1), of config, folded c]
  obtain j where j: "json_parse (Result resp) = Some j" "snd (GetCachedQueryResponse (x_newInt x) c s1 t (Some e2)) =
      Ok \<lparr>JsonRpcResponseResult = served_body e2 j, HeaderMap = sort_key fst hm\<rparr>"
    using cached_responses.served_after_stored [OF contract stored same decoded_canon [OF assms(2) dec] resp(2) life(1,2), of t]
      resp(1) life(3)
    by auto
  then show ?thesis by (metis prod.collapse)
qed

text \<open>C2: A repeated request is answered from the cache. The first request is not cached, is forwarded to its backend
  and gets a settled result; a second request with the same method and parameters, under any
  identifier, that comes while the lifetime of the result lasts is answered with that result under its own
  identifier, with status 200, and no backend is called.\<close>

theorem repeated_request_served_from_cache:
  assumes ext: "negroni_ok (x_negroni x)" "\<forall>cfg. redis_ok (redis cfg)" "float_roundtrip (x_fnum x)"
      "\<forall>cfg s now k v t. 0 < t \<longrightarrow> snd (redis_Set (redis cfg) s now k v t) = None"
    and on: "CacheEnabled config" and c: "c = createServiceCache redis config"
    and body1: "Body r1 = Some (Reader b1 False)" "DecodeEVMRPCRequest (x_fnum x) b1 = Ok e1"
    and body2: "Body r2 = Some (Reader b2 False)" "DecodeEVMRPCRequest (x_fnum x) b2 = Ok e2"
    and same: "Method e2 = Method e1" "Params e2 = Params e1"
    and route1: "ProxyForRequest (x_newInt x) (NewProxies config) (decoded_as r1 e1) = Ok (Some (ReverseProxy target), md1, True)"
    and route2: "ProxyForRequest (x_newInt x) (NewProxies config) (decoded_as r2 e2) = Ok (proxy2, md2, True)"
    and miss: "GetCachedQueryResponse (x_newInt x) c (w_cache W) (cache_now x (tick 1 W)) (Some e1) = (s', Err err)"
    and reply: "\<forall>req. x_backend x (length (w_calls W)) target req = Reply status header parts False" "status \<noteq> 0"
    and settled: "IsCacheable (x_newInt x) (Some e1) = Ok True" "UnmarshalJsonRpcResponse (concat parts) = Ok resp"
      "resp_IsCacheable (x_fnum x) resp" "IsFinal (x_fnum x) resp (Method e1)"
      "header_map_ok (getHeadersToCache (miss_header header []) (WhitelistedHeaders config) [])"
    and first: "decodeRequestMiddleware urlParse schedule x config c W (Server new_response) r1 = (W1, w1, p1)"
    and life: "GetTTL c (Method e1) = Ok ttl" "0 < ttl" "w_cache W2 = w_cache W1"
      "x_clock x (w_clock W2 + 1) \<le> x_clock x (w_clock W + 5) + ttl"
    and second: "decodeRequestMiddleware urlParse schedule x config c W2 (Server new_response) r2 = (W3, w3, p3)"
  shows "length (w_calls W1) = length (w_calls W) + 1 \<and> w_calls W3 = w_calls W2 \<and>
    (\<exists>v j. w3 = Server v \<and> json_parse (Result resp) = Some j \<and> sent_body v = served_body e2 j \<and>
      sent_head v = Some (StatusOK, live_header v))"
proof -
  note wired = createServiceCache_wired [of config redis, folded c]
  note one = first_request_stores [OF ext(1,2,4) on c body1 route1 miss reply settled(1-4) life(1,2) first]
  from decode_single [OF body2] obtain q2 where q2: "cacheMiddleware x config c (tick 1 W2) (Server new_response) q2 = (W3, w3, p3)"
    "Host q2 = Host r2" "decoded_request q2 DecodedRequestContextKey = Some (Some e2)"
    using second by (metis decodeRequestMiddleware_def)
  let ?hm = "getHeadersToCache (miss_header header []) (WhitelistedHeaders config) []"
  obtain s2 j where j: "json_parse (Result resp) = Some j" "GetCachedQueryResponse (x_newInt x) c (w_cache (tick 1 W2))
      (cache_now x (tick 1 W2)) (Some e2) = (s2, Ok \<lparr>JsonRpcResponseResult = served_body e2 j, HeaderMap = sort_key fst ?hm\<rparr>)"
    using later_request_hits [OF ext(2,3) c one(2) settled(2,5) body2(2) same life(1,2), of "cache_now x (tick 1 W2)"] life(3,4)
    by (auto simp: cache_now_def)
  note h = hit_chain [OF wired on q2(3) j(2) route2 [folded route_decoded [OF q2(3,2)]] q2(1)]
  have "\<exists>v. w3 = Server v \<and> sent_body v = served_body e2 j \<and> sent_head v = Some (StatusOK, live_header v)"
    using h(1) serve_cached_status [of new_response config q2 "\<lparr>JsonRpcResponseResult = served_body e2 j, HeaderMap = sort_key fst ?hm\<rparr>"]
    by (auto simp: new_response_def)
  then show ?thesis using one(1) h(2) j(1) by auto
qed

text \<open>The start of the service fails exactly on a configuration that validation rejects: a configuration that
  passes has a level the logger knows.\<close>

lemma valid_level: "Validate parseURL config = [] \<Longrightarrow> \<exists>level. logging_New (LogLevel config) = Ok level"
proof -
  assume "Validate parseURL config = []"
  then have "LogLevel config \<in> set ValidLogLevels" by (auto simp: Validate_def split: if_splits)
  then show ?thesis by (fastforce simp: logging_New_def serviceLogLevelToZeroLogLevel_def ValidLogLevels_def)
qed

lemma main_init_valid:
  "Validate parseURL (ReadConfig parseURL env) = [] \<Longrightarrow> \<exists>level. main_init parseURL env = Some (ReadConfig parseURL env, level)"
  using valid_level [of parseURL "ReadConfig parseURL env"] by (auto simp: main_init_def)

lemma main_init_invalid: "Validate parseURL (ReadConfig parseURL env) \<noteq> [] \<Longrightarrow> main_init parseURL env = None"
  by (simp add: main_init_def)

text \<open>The operation of the Postgres client behind the interface the routine uses; \<open>server_db\<close> is the server.\<close>

definition pg_Partition ::
  "('d \<Rightarrow> pg_call \<Rightarrow> 'd \<times> pg_reply) \<Rightarrow> (nat \<Rightarrow> int) \<Rightarrow> 'd pg_state \<Rightarrow> int \<Rightarrow> 'd pg_state \<times> error" where
  "pg_Partition server_db clock st prefillPeriodDays =
     (case Partition server_db (clock (length (snd st))) prefillPeriodDays st of
        (st', err) \<Rightarrow> (st', map_option show_int err))"

lemma valid_partitions:
  assumes "Validate parseURL config = []" and "db_Partition database = pg_Partition server_db clock"
  shows "db_Partition (part_db (startMetricPartitioningRoutine config database)) st
      (part_prefillPeriodDays (startMetricPartitioningRoutine config database)) =
    (partition_once (startMetricPartitioningRoutine config database) st, None)"
proof -
  have days: "MetricPartitioningPrefillPeriodDays config \<le> MaxMetricPartitioningPrefillPeriodDays"
    using assms(1) by (auto simp: Validate_def split: if_splits)
  have "PartitionsForPeriod t (MetricPartitioningPrefillPeriodDays config) \<noteq> Err e" for t e
    using days by (auto simp: PartitionsForPeriod_def Let_def split: prod.splits if_splits)
  then have "snd (Partition server_db t (MetricPartitioningPrefillPeriodDays config) st) = None" for t st
    by (cases "PartitionsForPeriod t (MetricPartitioningPrefillPeriodDays config)") (simp_all add: Partition_def)
  then show ?thesis
    using assms(2) by (simp add: partition_once_def startMetricPartitioningRoutine_def NewMetricPartitioningRoutine_def pg_Partition_def
        split: prod.split) (metis snd_conv)
qed

text \<open>With a configuration that passes validation the partitioning routine never fails on its plan, so that it is
  never stuck: at any time, and whatever the database server answers, it has run once at the
  start and once per tick, and it has reported no error.\<close>

theorem valid_config_keeps_partitioning:
  assumes "Validate parseURL config = []" and "db_Partition database = pg_Partition server_db clock"
  shows "(part_tick (startMetricPartitioningRoutine config database) ^^ n) (part_Run (startMetricPartitioningRoutine config database) st) =
    Waiting [] ((partition_once (startMetricPartitioningRoutine config database) ^^ Suc n) st)"
proof -
  let ?r = "startMetricPartitioningRoutine config database"
  note ok = valid_partitions [OF assms]
  have "(part_tick ?r ^^ n) (Waiting [] st) = Waiting [] ((partition_once ?r ^^ n) st)" for st
    by (induction n) (simp_all add: ok)
  then show ?thesis by (simp add: part_Run_def ok funpow_swap1)
qed

section \<open>Examples\<close>

type_synonym redis_state = "string \<Rightarrow> (bytes \<times> int option) option"

definition repeat_config :: Config where
  "repeat_config = ReadConfig Some (sample_env(CACHE_ENABLED_ENVIRONMENT_KEY \<mapsto> ''true''))"

lemma repeat_config_sample: "repeat_config = (ReadConfig Some sample_env)\<lparr>CacheEnabled := True\<rparr>"
  by (simp add: repeat_config_def ReadConfig_def Let_def getenv_def EnvOrDefault_def EnvOrDefaultInt_def EnvOrDefaultInt64_def
      EnvOrDefaultBool_def env_keys ParseBool_def sample_env_def)

lemma repeat_config_valid: "Validate Some repeat_config = []"
proof -
  have "Validate Some (c\<lparr>CacheEnabled := True\<rparr>) = Validate Some c" for c by (simp add: Validate_def)
  then show ?thesis using sample_env_valid by (simp add: repeat_config_sample)
qed

lemma repeat_config_fields:
  "CacheEnabled repeat_config" "CacheStaticMethodTTL repeat_config = 600000000000" "WhitelistedHeaders repeat_config = []"
  by (simp_all add: repeat_config_sample sample_env_def ReadConfig_def Let_def env_keys getenv_def
      EnvOrDefaultInt_def Atoi_def signed_in_range_def digit_of_def chr_lower_def Config.seconds_def int64_wrap_def time_Second_def)

definition repeat_request :: "string \<Rightarrow> Request" where
  "repeat_request ident =
     (chain_request ''h'')\<lparr>Ctx := [], Body := Some (Reader (json_print (marshal_envelope (sample_envelope ident))) False)\<rparr>"

abbreviation repeat_cache :: "redis_state ServiceCache" where
  "repeat_cache \<equiv> createServiceCache (\<lambda>_. sample_redis) repeat_config"

definition repeat_world :: "redis_state \<Rightarrow> redis_state World" where
  "repeat_world s = \<lparr>w_cache = s, w_clock = 0, w_calls = [], w_metrics = []\<rparr>"

abbreviation repeat_serve :: "redis_state World \<Rightarrow> string \<Rightarrow> redis_state World \<times> ResponseWriter \<times> go_panic option" where
  "repeat_serve W ident \<equiv>
     decodeRequestMiddleware Some [] sample_externals repeat_config repeat_cache W (Server new_response) (repeat_request ident)"

lemma repeat_decodes:
  "utf8_valid ident \<Longrightarrow>
    DecodeEVMRPCRequest sample_num (json_print (marshal_envelope (sample_envelope ident))) = Ok (sample_envelope ident)"
  using sample_envelope_canon [of ident sample_num]
  by (simp add: DecodeEVMRPCRequest_def json_parse_print [OF marshal_envelope_wf] unmarshal_marshal_envelope)

lemma repeat_routes:
  "ProxyForRequest newInt_decimal (NewProxies repeat_config) (decoded_as (repeat_request ident) (sample_envelope ident)) =
   Ok (Some (ReverseProxy ''http://p''), \<lparr>BackendName = ''PRUNING'', BackendRoute = ''http://p'', ShardEndHeight = 0\<rparr>, True)"
  by (simp add: route_eval repeat_config_sample decoded_as_def repeat_request_def chain_request_def sample_envelope_def
      MethodRequiresNoHistory_def NoHistoryMethods_def Let_def)

lemma repeat_ttl: "GetTTL repeat_cache ''eth_chainId'' = Ok 600000000000"
  by (simp add: GetTTL_def createServiceCache_def NewServiceCache_def repeat_config_fields method_preds method_tables)

lemma repeat_same:
  "Method (sample_envelope i) = ''eth_chainId''" "Params (sample_envelope i) = Some []"
  by (simp_all add: sample_envelope_def)

abbreviation repeat_response :: JsonRpcResponse where
  "repeat_response \<equiv> \<lparr>resp_Version = ''2.0'', resp_ID = ''7'', Result = dquote # ''0x8ae'' @ [dquote], resp_JsonRpcError = None\<rparr>"

lemma repeat_settled:
  "IsCacheable (x_newInt sample_externals) (Some (sample_envelope ident)) = Ok True"
  "UnmarshalJsonRpcResponse (concat [sample_body]) = Ok repeat_response" "resp_IsCacheable (x_fnum sample_externals) repeat_response"
  "IsFinal (x_fnum sample_externals) repeat_response (Method (sample_envelope ident))"
  "header_map_ok (getHeadersToCache (miss_header [] []) (WhitelistedHeaders repeat_config) [])"
proof -
  have "unquote ''0x8ae'' = ''0x8ae''" by (rule unquote_plain) simp
  then show "resp_IsCacheable (x_fnum sample_externals) repeat_response"
    using sample_result by (simp add: resp_IsCacheable_iff empty_value_def)
  show "header_map_ok (getHeadersToCache (miss_header [] []) (WhitelistedHeaders repeat_config) [])"
    by (simp add: repeat_config_fields header_map_ok_def)
qed (use sample_unmarshal in \<open>simp_all add: sample_cacheable IsFinal_def repeat_same\<close>)

lemma repeat_miss:
  "GetCachedQueryResponse (x_newInt sample_externals) repeat_cache (w_cache (repeat_world Map.empty)) now (Some (sample_envelope ident)) =
    (Map.empty, Err (ErrCache ErrNotFound))"
  by (simp add: GetCachedQueryResponse_def sample_cacheable GetQueryKey_Ok createServiceCache_def NewServiceCache_def
      NewRedisCache_def RedisCache_Get_def sample_redis_def repeat_world_def)

lemma repeat_externals:
  "x_newInt sample_externals = newInt_decimal" "x_fnum sample_externals = sample_num" "negroni_ok (x_negroni sample_externals)"
  "\<forall>cfg. redis_ok ((\<lambda>_. sample_redis) cfg)" "float_roundtrip (x_fnum sample_externals)"
  "\<forall>cfg s now k v t. 0 < t \<longrightarrow> snd (redis_Set ((\<lambda>_. sample_redis) cfg) s now k v t) = None"
  "\<forall>req. x_backend sample_externals (length (w_calls (repeat_world Map.empty))) ''http://p'' req = Reply 200 [] [sample_body] False"
  by (simp_all add: sample_externals_def sample_negroni_ok sample_redis_ok sample_num_roundtrip) (simp add: sample_redis_def Let_def)

lemma repeat_body:
  "Body (repeat_request i) = Some (Reader (json_print (marshal_envelope (sample_envelope i))) False)"
  "utf8_valid i \<Longrightarrow> DecodeEVMRPCRequest (x_fnum sample_externals) (json_print (marshal_envelope (sample_envelope i))) = Ok (sample_envelope i)"
  using repeat_decodes [of i] by (simp_all add: repeat_request_def repeat_externals)

lemma repeat_triple: "repeat_serve V i = (fst (repeat_serve V i), fst (snd (repeat_serve V i)), snd (snd (repeat_serve V i)))"
  by simp

lemma repeat_idents: "utf8_valid ''a''" "utf8_valid ''b''"
  by code_simp+

text \<open>The state of the example after the first request: its answer is in the cache for ten minutes.\<close>

abbreviation first_served :: "redis_state World" where
  "first_served \<equiv> fst (repeat_serve (repeat_world Map.empty) ''a'')"

abbreviation repeat_answer :: "string \<Rightarrow> QueryResponse" where
  "repeat_answer ident \<equiv> \<lparr>JsonRpcResponseResult = served_body (sample_envelope ident) (JStr ''0x8ae''), HeaderMap = []\<rparr>"

lemma first_served_state:
  "length (w_calls first_served) = 1" "w_clock first_served = 7"
  "utf8_valid ident \<Longrightarrow> t 0 \<le> 600000000250 \<Longrightarrow>
     \<exists>s. GetCachedQueryResponse (x_newInt sample_externals) repeat_cache (w_cache first_served) t (Some (sample_envelope ident)) =
       (s, Ok (repeat_answer ident))"
proof -
  have ttl: "GetTTL repeat_cache (Method (sample_envelope ''a'')) = Ok 600000000000" by (simp add: repeat_same repeat_ttl)
  note one = first_request_stores [OF repeat_externals(3,4,6) repeat_config_fields(1) refl repeat_body(1) repeat_body(2) [OF repeat_idents(1)]
      repeat_routes [folded repeat_externals(1)] repeat_miss repeat_externals(7) _ repeat_settled(1-4) ttl _ repeat_triple]
  show "length (w_calls first_served) = 1" using one(1) by (simp add: repeat_world_def)
  show "w_clock first_served = 7" using one(3) by (simp add: repeat_world_def)
  assume ident: "utf8_valid ident" and "t 0 \<le> 600000000250"
  then have "t 0 \<le> x_clock sample_externals (w_clock (repeat_world Map.empty) + 5 + 0) + 600000000000"
    by (simp add: sample_externals_def repeat_world_def)
  from later_request_hits [where t = t, OF repeat_externals(4,5) refl one(2) repeat_settled(2,5) repeat_body(2) [OF ident] _ _ ttl _ this]
  obtain s j where "json_parse (Result repeat_response) = Some j"
    "GetCachedQueryResponse (x_newInt sample_externals) repeat_cache (w_cache first_served) t (Some (sample_envelope ident)) =
      (s, Ok \<lparr>JsonRpcResponseResult = served_body (sample_envelope ident) j,
        HeaderMap = sort_key fst (getHeadersToCache (miss_header [] []) (WhitelistedHeaders repeat_config) [])\<rparr>)"
    by (simp add: repeat_same) blast
  then show "\<exists>s. GetCachedQueryResponse (x_newInt sample_externals) repeat_cache (w_cache first_served) t (Some (sample_envelope ident)) =
      (s, Ok (repeat_answer ident))"
    using sample_result by (simp add: repeat_config_fields)
qed

theorem repeated_request_served_from_cache_witness:
  "\<exists>v. fst (snd (repeat_serve ((fst (repeat_serve (repeat_world Map.empty) ''a''))\<lparr>w_clock := 10\<rparr>) ''b'')) = Server v \<and>
     sent_body v = served_body (sample_envelope ''b'') (JStr ''0x8ae'')"
proof -
  let ?W = "repeat_world Map.empty"
  let ?W2 = "(fst (repeat_serve ?W ''a''))\<lparr>w_clock := 10\<rparr>"
  have same: "Method (sample_envelope ''b'') = Method (sample_envelope ''a'')" "Params (sample_envelope ''b'') = Params (sample_envelope ''a'')"
    by (simp_all add: repeat_same)
  have clock: "x_clock sample_externals (w_clock ?W2 + 1) \<le> x_clock sample_externals (w_clock ?W + 5) + 600000000000"
    by (simp add: sample_externals_def repeat_world_def)
  have ttl: "GetTTL repeat_cache (Method (sample_envelope ''a'')) = Ok 600000000000" by (simp add: repeat_same repeat_ttl)
  have cache: "w_cache ?W2 = w_cache (fst (repeat_serve ?W ''a''))" by simp
  note served = repeated_request_served_from_cache [OF repeat_externals(3,4,5,6) repeat_config_fields(1) refl
      repeat_body(1) repeat_body(2) [OF repeat_idents(1)] repeat_body(1) repeat_body(2) [OF repeat_idents(2)] same
      repeat_routes [folded repeat_externals(1)] repeat_routes [folded repeat_externals(1)] repeat_miss repeat_externals(7) _
      repeat_settled repeat_triple ttl _ cache clock repeat_triple]
  have "\<exists>v j. fst (snd (repeat_serve ?W2 ''b'')) = Server v \<and> json_parse (Result repeat_response) = Some j \<and>
      sent_body v = served_body (sample_envelope ''b'') j"
    using served by auto
  then show ?thesis using sample_result by auto
qed

definition sample_pg_database :: "unit pg_state MetricsDatabase" where
  "sample_pg_database = noop\<lparr>db_Partition := pg_Partition (\<lambda>d call. (d, Err ''down'')) (\<lambda>_. 0)\<rparr>"

theorem valid_config_keeps_partitioning_witness:
  "\<exists>st. (part_tick (startMetricPartitioningRoutine (ReadConfig Some sample_env) sample_pg_database) ^^ 3)
     (part_Run (startMetricPartitioningRoutine (ReadConfig Some sample_env) sample_pg_database) ((), [])) = Waiting [] st"
proof -
  have "db_Partition sample_pg_database = pg_Partition (\<lambda>d call. (d, Err ''down'')) (\<lambda>_. 0)" by (simp add: sample_pg_database_def)
  from valid_config_keeps_partitioning [OF sample_env_valid this, of 3 "((), [])"] show ?thesis by blast
qed

end
