(* ===== verification/BatchWorlds.thy ===== *)
theory BatchWorlds
  imports Batch
begin

text \<open>
  What a batch does to the state its sub-requests share. A relation between earlier and later
  states that every sub-request respects is respected by the whole batch, whatever the
  interleaving, and each sub-request was served in between. The locale \<open>evolving\<close> states what
  such a relation needs.
\<close>

text \<open>The outcome of a sub-request that was served after the state \<open>W0\<close> and before \<open>W1\<close>.\<close>

definition called_in ::
  "('s World \<Rightarrow> 's World \<Rightarrow> bool) \<Rightarrow> 's World \<Rightarrow> 's World \<Rightarrow> ('s, ResponseWriter) handler \<Rightarrow> Request \<Rightarrow>
    fakeResponseWriter \<times> go_panic option \<Rightarrow> bool" where
  "called_in R W0 W1 h req out \<longleftrightarrow>
     (\<exists>W W' w p. R W0 W \<and> h W new_fake req = (W', w, p) \<and> R W' W1 \<and> out = (fake_of w, p))"

definition worlds_inv ::
  "('s World \<Rightarrow> 's World \<Rightarrow> bool) \<Rightarrow> 's World \<Rightarrow> ('s, ResponseWriter) handler \<Rightarrow> Request list \<Rightarrow> 's batch_run \<Rightarrow> bool" where
  "worlds_inv R W0 h reqs st \<longleftrightarrow>
     R W0 (run_world st) \<and>
     (\<forall>i < length (run_go st). \<forall>out. outcome_of (run_go st ! i) = Some out \<longrightarrow>
        called_in R W0 (run_world st) h (reqs ! i) out)"

lemma run_world_simps [simp]:
  "run_world (move_to i g st) = run_world st" "run_world (on_bp f st) = run_world st" "run_world (wg_Done st) = run_world st"
  "run_world (launch st) = run_world st" "run_world (start_run W bp) = W"
  by (simp_all add: move_to_def on_bp_def wg_Done_def launch_def start_run_def)

locale evolving =
  fixes R :: "'s World \<Rightarrow> 's World \<Rightarrow> bool"
    and h :: "('s, ResponseWriter) handler"
    and reqs :: "Request list"
  assumes same: "R W W"
    and later: "R W V \<Longrightarrow> R V U \<Longrightarrow> R W U"
    and served: "r \<in> set reqs \<Longrightarrow> h W new_fake r = (W', w, p) \<Longrightarrow> R W W'"
begin

lemma called_in_later: "called_in R W0 W h req out \<Longrightarrow> R W W1 \<Longrightarrow> called_in R W0 W1 h req out"
  unfolding called_in_def using later by blast

lemma worlds_inv_same_world:
  assumes "worlds_inv R W0 h reqs st" and "run_world st' = run_world st" and "i < length (run_go st)"
    and "run_go st' = (run_go st)[i := g]" and "\<And>out. outcome_of g = Some out \<Longrightarrow> outcome_of (run_go st ! i) = Some out"
  shows "worlds_inv R W0 h reqs st'"
  using assms by (auto simp: worlds_inv_def nth_list_update)

lemma worlds_inv_resume:
  assumes inv: "worlds_inv R W0 h reqs st" and run: "run_inv h reqs st" and i: "i < length (run_go st)"
  shows "worlds_inv R W0 h reqs (resume i (run_go st ! i) st)"
proof -
  have bp: "bp_handler (run_bp st) = h" "bp_requests (run_bp st) = reqs" using run by (simp_all add: run_inv_def)
  show ?thesis
  proof (cases "run_go st ! i")
    case Started
    obtain W w p where out: "h (run_world st) new_fake (reqs ! i) = (W, w, p)" by (metis prod_cases3)
    have r: "R (run_world st) W" using served [OF _ out] run_inv_nth(2) [OF run i] by simp
    then have "called_in R W0 W h (reqs ! i) (fake_of w, p)"
      using inv out same unfolding called_in_def worlds_inv_def by blast
    moreover have "called_in R W0 W h (reqs ! j) out'" if "j < length (run_go st)" "outcome_of (run_go st ! j) = Some out'" for j out'
      using inv that called_in_later [OF _ r] unfolding worlds_inv_def by blast
    ultimately show ?thesis
      using Started out bp i inv later [OF _ r] by (auto simp: worlds_inv_def move_to_def nth_list_update)
  next
    case (Served es frw p)
    then show ?thesis
      by (cases es; cases p) (auto intro!: worlds_inv_same_world [OF inv _ i])
  next
    case (Responded frw)
    then show ?thesis by (auto intro!: worlds_inv_same_world [OF inv _ i])
  next
    case (Combined frw)
    then show ?thesis by (auto intro!: worlds_inv_same_world [OF inv _ i])
  next
    case (Finished frw p)
    then show ?thesis using inv by simp
  qed
qed

lemma worlds_inv_reachable:
  assumes "reachable (start_run W (NewBatchProcessor h reqs)) st"
  shows "worlds_inv R W h reqs st"
  using assms
proof (induction rule: reachable.induct)
  case here
  show ?case by (simp add: worlds_inv_def same start_run_def)
next
  case (more st' st'')
  note run = run_inv_reachable [OF more(1)]
  from more(2) obtain ev where ev: "enabled st' ev" "st'' = fire ev st'" by (auto elim: batch_step.cases)
  show ?case
  proof (cases ev)
    case Launch
    then show ?thesis using more.IH ev by (auto simp: worlds_inv_def launch_def nth_append less_Suc_eq)
  next
    case (Resume i)
    then show ?thesis using worlds_inv_resume [OF more.IH run, of i] ev by simp
  qed
qed

text \<open>What a batch leaves behind, and what each of its sub-requests produced on the way.\<close>

lemma batch_worlds:
  assumes "RequestAndServe schedule (NewBatchProcessor h reqs) W w = (W', w', res)"
  obtains bp outs where "serve_results bp w = (w', res)" "batch_result h reqs bp outs" "R W W'"
    "\<And>i. i < length reqs \<Longrightarrow> called_in R W W' h (reqs ! i) (outs ! i)"
proof -
  let ?st = "run_schedule schedule (start_run W (NewBatchProcessor h reqs))"
  obtain outs where outs: "batch_result h reqs (run_bp ?st) outs" "run_go ?st = map (\<lambda>(f, p). Finished f p) outs"
    using run_outcomes [OF refl] by blast
  have res: "serve_results (run_bp ?st) w = (w', res)" "run_world ?st = W'"
    using assms by (simp_all add: RequestAndServe_def Let_def split: prod.splits)
  have inv: "worlds_inv R W h reqs ?st" by (rule worlds_inv_reachable [OF reachable_schedule])
  have "called_in R W W' h (reqs ! i) (outs ! i)" if "i < length reqs" for i
    using inv outs res(2) that by (auto simp: worlds_inv_def batch_result_def case_prod_beta)
  then show thesis using that res outs(1) inv by (simp add: worlds_inv_def)
qed

end

end
