(* ===== verification/History.thy ===== *)
theory History
  imports Service BatchWorlds
begin

text \<open>
  Where cached results come from. Over any history of requests, single or batched, whatever
  enters the cache is a settled result that a backend gave to a forwarded request, kept for
  the lifetime of its kind. The storage need only be honest (\<open>honest_cache\<close>): it may fail, refuse
  or forget. The statement about a single step of the service is a relation between the state
  before and after, which is transitive, so that it passes through the interleavings of a batch
  and through histories.
\<close>

section \<open>Steps of the state\<close>

text \<open>The \<open>n\<close>-th forwarded request asked for \<open>e\<close> and was answered with the settled response \<open>resp\<close>.\<close>

definition settled_call ::
  "('n, 'h) Externals \<Rightarrow> nat \<Rightarrow> URL \<times> Request \<Rightarrow> EVMRPCRequestEnvelope \<Rightarrow> JsonRpcResponse \<Rightarrow> bool" where
  "settled_call x n call e resp \<longleftrightarrow>
     (\<exists>b status header parts.
        Body (snd call) = Some (Reader b False) \<and> DecodeEVMRPCRequest (x_fnum x) b = Ok e \<and>
        x_backend x n (fst call) (snd call) = Reply status header parts False \<and>
        UnmarshalJsonRpcResponse (concat parts) = Ok resp \<and> IsCacheable (x_newInt x) (Some e) = Ok True \<and>
        resp_IsCacheable (x_fnum x) resp \<and> IsFinal (x_fnum x) resp (Method e))"

definition stored_as ::
  "'s ServiceCache \<Rightarrow> EVMRPCRequestEnvelope \<Rightarrow> JsonRpcResponse \<Rightarrow> string \<Rightarrow> bytes \<Rightarrow> int \<Rightarrow> bool" where
  "stored_as c e resp k v ttl \<longleftrightarrow>
     GetQueryKey (cachePrefix c) (Some e) = Ok k \<and> GetTTL c (Method e) = Ok ttl \<and>
     (\<exists>hm. v = json_print (marshal_query_response \<lparr>JsonRpcResponseResult = Result resp, HeaderMap = hm\<rparr>))"

text \<open>Between two states the value was fetched and stored, and its deadline counts from then.\<close>

definition fetched ::
  "('n, 'h) Externals \<Rightarrow> 's ServiceCache \<Rightarrow> 's World \<Rightarrow> 's World \<Rightarrow> string \<Rightarrow> bytes \<Rightarrow> int \<Rightarrow> bool" where
  "fetched x c W W' k v d \<longleftrightarrow>
     (\<exists>n m e resp ttl. length (w_calls W) \<le> n \<and> n < length (w_calls W') \<and> w_clock W \<le> m \<and> m < w_clock W' \<and>
        settled_call x n (w_calls W' ! n) e resp \<and> stored_as c e resp k v ttl \<and> d \<le> x_clock x m + ttl)"

definition evolves ::
  "('s \<Rightarrow> string \<Rightarrow> bytes \<Rightarrow> int \<Rightarrow> bool) \<Rightarrow> ('n, 'h) Externals \<Rightarrow> 's ServiceCache \<Rightarrow> 's World \<Rightarrow> 's World \<Rightarrow> bool" where
  "evolves held x c W W' \<longleftrightarrow>
     w_clock W \<le> w_clock W' \<and> (\<exists>calls. w_calls W' = w_calls W @ calls) \<and>
     (\<forall>k v d. held (w_cache W') k v d \<longrightarrow> held (w_cache W) k v d \<or> fetched x c W W' k v d)"

lemma evolves_refl: "evolves held x c W W"
  by (simp add: evolves_def)

lemma fetched_mono:
  assumes "fetched x c W W' k v d" and "length (w_calls V) \<le> length (w_calls W)" and "w_clock V \<le> w_clock W"
    and "w_clock W' \<le> w_clock V'" and "w_calls V' = w_calls W' @ calls"
  shows "fetched x c V V' k v d"
proof -
  obtain n m e resp ttl where f: "length (w_calls W) \<le> n" "n < length (w_calls W')" "w_clock W \<le> m" "m < w_clock W'"
    "settled_call x n (w_calls W' ! n) e resp" "stored_as c e resp k v ttl" "d \<le> x_clock x m + ttl"
    using assms(1) unfolding fetched_def by blast
  moreover have "w_calls V' ! n = w_calls W' ! n" using assms(5) f(2) by (simp add: nth_append)
  ultimately show ?thesis unfolding fetched_def using assms(2-5)
    by (intro exI [of _ n] exI [of _ m] exI [of _ e] exI [of _ resp] exI [of _ ttl]) auto
qed

lemma evolves_trans:
  assumes "evolves held x c W V" and "evolves held x c V U"
  shows "evolves held x c W U"
proof -
  obtain cs cs' where calls: "w_calls V = w_calls W @ cs" "w_calls U = w_calls V @ cs'"
    using assms by (auto simp: evolves_def)
  have clock: "w_clock W \<le> w_clock V" "w_clock V \<le> w_clock U" using assms by (auto simp: evolves_def)
  have "held (w_cache W) k v d \<or> fetched x c W U k v d" if "held (w_cache U) k v d" for k v d
  proof -
    consider "held (w_cache W) k v d" | "fetched x c W V k v d" | "fetched x c V U k v d"
      using \<open>held (w_cache U) k v d\<close> assms unfolding evolves_def by blast
    then show ?thesis
    proof cases
      case 2
      then show ?thesis using fetched_mono [OF 2, of W U cs'] clock calls by simp
    next
      case 3
      then show ?thesis using fetched_mono [OF 3, of W U "[]"] clock calls by simp
    qed simp
  qed
  then show ?thesis using calls clock by (simp add: evolves_def)
qed

lemma evolves_same_cache:
  "w_cache W' = w_cache W \<Longrightarrow> w_clock W \<le> w_clock W' \<Longrightarrow> w_calls W' = w_calls W @ calls \<Longrightarrow> evolves held x c W W'"
  by (simp add: evolves_def)

lemma evolves_tick: "evolves held x c W (tick n W)"
  by (simp add: evolves_def)

section \<open>Histories\<close>

text \<open>
  The states of the service as it answers one request after another; each comes with the state of the
  database it meets, its path and the schedule of the goroutines, should it be a batch.
\<close>

fun history ::
  "(string \<Rightarrow> URL option) \<Rightarrow> ('n, 'h) Externals \<Rightarrow> Config \<Rightarrow> ('d, 's) ProxyService \<Rightarrow> 's World \<Rightarrow>
    ('d \<times> string \<times> event list \<times> Request) list \<Rightarrow> 's World list" where
  "history urlParse x config service W [] = [W]"
| "history urlParse x config service W ((d, path, schedule, r) # rs) =
     W # history urlParse x config service (fst (mux urlParse schedule x config service d path W (Server new_response) r)) rs"

lemma history_start: "history urlParse x config service W rs \<noteq> []" "history urlParse x config service W rs ! 0 = W"
  by (cases rs; auto)+

lemma key_method_hash:
  assumes "GetQueryKey prefix (Some e) = GetQueryKey prefix (Some e')"
  shows "Method e = Method e' \<and> Sum256 (request_data e) = Sum256 (request_data e')"
proof -
  have "(Method e @ '':sha256:'') @ EncodeToString (Sum256 (request_data e)) =
      (Method e' @ '':sha256:'') @ EncodeToString (Sum256 (request_data e'))"
    using assms by (simp add: GetQueryKey_Ok)
  then have "Method e @ '':sha256:'' = Method e' @ '':sha256:''"
    "EncodeToString (Sum256 (request_data e)) = EncodeToString (Sum256 (request_data e'))"
    using hash_hex_length by (subst (asm) append_eq_append_conv; simp)+
  then show ?thesis by (simp add: EncodeToString_inj)
qed

section \<open>Requests and their bodies\<close>

text \<open>The envelope in the context of a request is what its body decodes to.\<close>

definition body_matches :: "('n, 'h) Externals \<Rightarrow> Request \<Rightarrow> bool" where
  "body_matches x r \<longleftrightarrow>
     (\<forall>e. decoded_request r DecodedRequestContextKey = Some (Some e) \<longrightarrow>
        (\<exists>b. Body r = Some (Reader b False) \<and> DecodeEVMRPCRequest (x_fnum x) b = Ok e))"

lemma body_matches_undecoded: "decoded_request r DecodedRequestContextKey = None \<Longrightarrow> body_matches x r"
  by (simp add: body_matches_def)

lemma body_matches_WithContext:
  "body_matches x r \<Longrightarrow> key \<noteq> DecodedRequestContextKey \<Longrightarrow> body_matches x (WithContext r (WithValue (Ctx r) key v))"
  by (simp add: body_matches_def decoded_request_Ctx WithContext_def decoded_request_def)

lemma prepared_Body: "Body (prepared r) = map_option (\<lambda>b. Reader (unread b) False) (Body r)"
  by (simp add: intercept_body_def last_forwarded_for_def ReadAll_def Let_def split: option.split)

lemma decoded_prepared [simp]: "decoded_request (prepared r) key = decoded_request r key"
  by (simp add: decoded_request_def)

lemma body_matches_prepared: "body_matches x r \<Longrightarrow> body_matches x (prepared r)"
  unfolding body_matches_def by (auto simp: prepared_Body)

lemma bs_Write_body: "bs_body (bs_Write x b w) = bs_body w @ b"
  by (auto simp: bs_Write_def bs_WriteHeader_def Let_def split: prod.split)

lemma bs_Writes_body: "bs_body (fold (bs_Write x) bs w) = bs_body w @ concat bs"
  by (induction bs arbitrary: w) (simp_all add: bs_Write_body)

lemma ServeHTTP_calls:
  assumes "proxy_ServeHTTP x p W lrw r = (W', lrw', pn)"
  shows "W' = W\<lparr>w_calls := w_calls W @ [(proxy_target p, r)]\<rparr>"
    "pn = None \<Longrightarrow> bs_body lrw = [] \<Longrightarrow> bs_body lrw' = [] \<or>
       (\<exists>status header parts. x_backend x (length (w_calls W)) (proxy_target p) r = Reply status header parts False \<and>
          bs_body lrw' = concat parts)"
  using assms
  by (auto simp: proxy_ServeHTTP_def Let_def bs_Writes_body bs_WriteHeader_def bs_change_header_def
      split: backend_reply.splits prod.splits if_splits)

lemma empty_response: "UnmarshalJsonRpcResponse [] = Err ()"
  by (simp add: UnmarshalJsonRpcResponse_def json_parse_def p_value.simps skip_ws_def)

text \<open>The request as the proxy middleware goes on with it.\<close>

abbreviation logged_request :: "Request \<Rightarrow> (unit, Request) result" where
  "logged_request r \<equiv> (case decoded_request r DecodedRequestContextKey of None \<Rightarrow> LogCannotCastRequestError r | Some _ \<Rightarrow> Ok r)"

lemma proxy_call:
  assumes "createProxyRequestMiddleware x next config [] [] W w r = (W', w', p)"
    and "logged_request r = Ok r1" "ProxyForRequest (x_newInt x) (NewProxies config) r1 = Ok (Some rp, md, True)"
      "cached_response config (Ctx r1) = None"
  obtains (cut_off) "W' = (tick 1 W)\<lparr>w_calls := w_calls W @ [(proxy_target rp, prepared r1)]\<rparr>"
  | (answered) ips latency lrw lrw' where
      "next (tick 2 (W\<lparr>w_calls := w_calls W @ [(proxy_target rp, prepared r1)]\<rparr>)) lrw
         (WithContext (prepared r1) (enrich_context config ips latency md (bs_body lrw) (prepared r1))) = (W', lrw', p)"
      "bs_body lrw = [] \<or> (\<exists>status header parts.
         x_backend x (length (w_calls W)) (proxy_target rp) (prepared r1) = Reply status header parts False \<and> bs_body lrw = concat parts)"
proof -
  let ?q = "prepared r1" and ?ips = "header_values (ReqHeader r1) LoadBalancerForwardedForHeaderKey"
  let ?miss = "bs_change_header (Header_Add CacheHeaderKey CacheMissHeaderValue) (new_body_saver x w [])"
  have empty: "bs_body ?miss = []" by (simp add: new_body_saver_def bs_change_header_def)
  obtain V lrw pn where serve: "proxy_ServeHTTP x rp (tick 1 W) ?miss ?q = (V, lrw, pn)" by (metis prod_cases3)
  note out = ServeHTTP_calls [OF serve]
  show thesis
  proof (cases pn)
    case None
    let ?latency = "duration_Milliseconds (time_Since (time_Now x V) (time_Now x W))"
    let ?ctx = "enrich_context config ?ips ?latency md (bs_body lrw) ?q"
    have "next (tick 2 (W\<lparr>w_calls := w_calls W @ [(proxy_target rp, ?q)]\<rparr>)) lrw (WithContext ?q ?ctx) =
        (W', fst (snd (next (tick 1 V) lrw (WithContext ?q ?ctx))), p)"
      using assms serve None out(1) by (auto simp: createProxyRequestMiddleware_def tick_def Let_def split: prod.splits)
    then show thesis using answered out(2) [OF None empty] by simp
  next
    case (Some pn')
    then show thesis using assms serve out(1) cut_off by (simp add: createProxyRequestMiddleware_def Let_def)
  qed
qed

text \<open>
  The ways through the proxy middleware: no backend was called (an early exit or a panic of the
  router), the reply was cut off, the response came from the cache, or from a backend.
\<close>

lemma proxy_cases:
  assumes "createProxyRequestMiddleware x next config [] [] W w r = (W', w', p)"
  obtains (early) "W' = W \<or> W' = tick 1 W"
  | (aborted) target q where "W' = (tick 1 W)\<lparr>w_calls := w_calls W @ [(target, q)]\<rparr>"
  | (hit) q ips latency md lrw lrw' where
      "next (tick 2 W) lrw (WithContext q (enrich_context config ips latency md [] q)) = (W', lrw', p)"
  | (call) r1 q target ips latency md lrw lrw' where
      "decoded_request r1 DecodedRequestContextKey = decoded_request r DecodedRequestContextKey"
      "decoded_request r DecodedRequestContextKey \<noteq> None \<Longrightarrow> r1 = r" "q = prepared r1"
      "next (tick 2 (W\<lparr>w_calls := w_calls W @ [(target, q)]\<rparr>)) lrw
         (WithContext q (enrich_context config ips latency md (bs_body lrw) q)) = (W', lrw', p)"
      "bs_body lrw = [] \<or> (\<exists>status header parts.
         x_backend x (length (w_calls W)) target q = Reply status header parts False \<and> bs_body lrw = concat parts)"
proof (cases "logged_request r")
  case (Ok r1)
  then have r1: "decoded_request r1 DecodedRequestContextKey = decoded_request r DecodedRequestContextKey"
    "decoded_request r DecodedRequestContextKey \<noteq> None \<Longrightarrow> r1 = r"
    by (auto simp: LogCannotCastRequestError_def decoded_request_def split: option.splits)
  show thesis
  proof (cases "ProxyForRequest (x_newInt x) (NewProxies config) r1")
    case route: (Ok choice)
    then consider "\<exists>proxy md. choice = (proxy, md, False)" | response proxy md where "choice = (proxy, md, True)" "cached_response config (Ctx r1) = Some response"
      | md where "choice = (None, md, True)" "cached_response config (Ctx r1) = None"
      | rp md where "choice = (Some rp, md, True)" "cached_response config (Ctx r1) = None"
      by (cases choice; cases "fst choice"; cases "cached_response config (Ctx r1)") auto
    then show thesis
    proof cases
      case 1
      then show thesis using assms Ok route early by (auto simp: createProxyRequestMiddleware_def Let_def)
    next
      case 2
      then show thesis using assms Ok route hit
        by (auto simp: createProxyRequestMiddleware_def new_body_saver_def time_Now_def tick_def Let_def split: prod.splits)
    next
      case 3
      then show thesis using assms Ok route early by (simp add: createProxyRequestMiddleware_def Let_def)
    next
      case (4 rp md)
      show thesis
        by (rule proxy_call [OF assms Ok route [unfolded 4(1)] 4(2)]) (use aborted call [OF r1 refl] in blast)+
    qed
  qed (use assms Ok early in \<open>simp_all add: createProxyRequestMiddleware_def Let_def\<close>)
qed (use assms early in \<open>simp_all add: createProxyRequestMiddleware_def\<close>)

section \<open>A single request\<close>

text \<open>The value is the settled response in the context of the request \<open>q\<close>, stored between two states.\<close>

definition stored_from ::
  "('n, 'h) Externals \<Rightarrow> 's ServiceCache \<Rightarrow> Request \<Rightarrow> 's World \<Rightarrow> 's World \<Rightarrow> string \<Rightarrow> bytes \<Rightarrow> int \<Rightarrow> bool" where
  "stored_from x c q W W' k v d \<longleftrightarrow>
     (\<exists>m e body resp ttl. cacheEnabled c \<and> w_clock W \<le> m \<and> m < w_clock W' \<and>
        decoded_request q DecodedRequestContextKey = Some (Some e) \<and> Value (Ctx q) ResponseContextKey = Some (CtxBytes body) \<and>
        UnmarshalJsonRpcResponse body = Ok resp \<and> IsCacheable (x_newInt x) (Some e) = Ok True \<and>
        resp_IsCacheable (x_fnum x) resp \<and> IsFinal (x_fnum x) resp (Method e) \<and> stored_as c e resp k v ttl \<and>
        d \<le> x_clock x m + ttl)"

text \<open>
  How the service sets up its cache: wired to the configuration, with positive lifetimes; and
  what the JSON decoder needs of numbers.
\<close>

definition history_ok :: "('n, 'h) Externals \<Rightarrow> Config \<Rightarrow> 's ServiceCache \<Rightarrow> bool" where
  "history_ok x config c \<longleftrightarrow>
     cache_wired config c \<and> (\<forall>method ttl. GetTTL c method = Ok ttl \<longrightarrow> 0 < ttl) \<and> float_roundtrip (x_fnum x)"

lemma history_okD:
  assumes "history_ok x config c"
  shows "cacheEnabled c = CacheEnabled config" "decodedRequestContextKey c = DecodedRequestContextKey"
    "GetTTL c method = Ok ttl \<Longrightarrow> 0 < ttl" "float_roundtrip (x_fnum x)"
  using assms by (auto simp: history_ok_def cache_wired_def)

locale service_history =
  honest_cache "cache_Set (cacheClient c)" "cache_Get (cacheClient c)" held
  for c :: "'s ServiceCache" and held :: "'s \<Rightarrow> string \<Rightarrow> bytes \<Rightarrow> int \<Rightarrow> bool" +
  fixes x :: "('n, 'h) Externals" and config :: Config
begin

lemma lookup_adds_nothing:
  assumes "GetCachedQueryResponse newInt c s now req = (s', res)" and "held s' k v d"
  shows "held s k v d"
  using assms get_adds_nothing
  by (auto simp: GetCachedQueryResponse_def split: result.splits if_splits prod.splits)

text \<open>What the caching middleware may do to the state.\<close>

definition caches :: "'s World \<Rightarrow> Request \<Rightarrow> 's World \<Rightarrow> bool" where
  "caches W q W' \<longleftrightarrow>
     w_calls W' = w_calls W \<and> w_clock W \<le> w_clock W' \<and>
     (\<forall>k v d. held (w_cache W') k v d \<longrightarrow> held (w_cache W) k v d \<or> stored_from x c q W W' k v d)"

lemma caches_stored:
  assumes on: "cacheEnabled c" and "decoded_request q DecodedRequestContextKey = Some d" and "Value (Ctx q) ResponseContextKey = Some (CtxBytes body)"
    and "CacheQueryResponse (x_fnum x) (x_newInt x) c (w_cache W) (cache_now x W) d body hm = (s, r)"
    and "w_calls W' = w_calls W" and "w_clock W' = w_clock W + 2" and "w_cache W' = s"
    and ready: "history_ok x config c"
  shows "caches W q W'"
proof (cases rule: CacheQueryResponse_cases [of "x_fnum x" "x_newInt x" c "w_cache W" "cache_now x W" d body hm])
  case (kept r')
  then show ?thesis using assms(4-7) by (simp add: caches_def)
next
  case (stored e resp ttl key)
  let ?v = "json_print (marshal_query_response \<lparr>JsonRpcResponseResult = Result resp, HeaderMap = hm\<rparr>)"
  obtain err where set: "cache_Set (cacheClient c) (w_cache W) (cache_now x W) key ?v ttl = (s, err)"
    using stored(8) assms(4) by (auto split: prod.splits option.splits)
  have "held (w_cache W) k v d \<or> k = key \<and> v = ?v \<and> d \<le> x_clock x (w_clock W) + ttl" if "held (w_cache W') k v d" for k v d
    using set_adds_value [OF history_okD(3) [OF ready stored(6)] set] that assms(7) by (auto simp: cache_now_def)
  moreover have "stored_as c e resp key ?v ttl" using stored(6,7) by (auto simp: stored_as_def)
  ultimately show ?thesis using assms stored(1-5)
    unfolding caches_def stored_from_def by (auto intro!: exI [of _ "w_clock W"])
qed

lemma caches_after_proxy:
  assumes "cacheAfterProxyMiddleware x config c W lrw q = (W', lrw', p)"
    and ready: "history_ok x config c"
  shows "caches W q W'"
proof -
  note key = history_okD(2) [OF ready]
  have stop: "caches W q (tick 2 (W\<lparr>w_cache := s\<rparr>))"
    and go: "createAfterProxyFinalizer x config (tick 2 (W\<lparr>w_cache := s\<rparr>)) lrw q = (W', lrw', p) \<Longrightarrow> caches W q W'"
    if "CacheQueryResponse (x_fnum x) (x_newInt x) c (w_cache W) (cache_now x W) d body hm = (s, r)" "cacheEnabled c"
      "decoded_request q DecodedRequestContextKey = Some d" "Value (Ctx q) ResponseContextKey = Some (CtxBytes body)" for d body hm s r
    using caches_stored [OF that(2,3,4,1) _ _ _ ready] finalizer_keeps(2-4) [of x config "tick 2 (W\<lparr>w_cache := s\<rparr>)" lrw q W' lrw' p]
    by simp_all
  have "caches W q W" by (simp add: caches_def)
  moreover have "createAfterProxyFinalizer x config W lrw q' = (W', lrw', p) \<Longrightarrow> caches W q W'" for q'
    by (simp add: caches_def finalizer_keeps)
  ultimately show ?thesis using assms stop go unfolding cacheAfterProxyMiddleware_def CachingMiddleware_def key
    by (auto simp: Let_def split: if_splits option.splits result.splits ctxval.splits prod.splits)
qed

text \<open>A response that is stored after a request was forwarded is the reply to it.\<close>

lemma stored_after_call:
  assumes "caches V q W'" and "w_cache V = w_cache W" and "w_clock W \<le> w_clock V"
    and calls: "w_calls V = w_calls W @ [(target, q0)]" and "body_matches x q0"
    and dec: "decoded_request q DecodedRequestContextKey = decoded_request q0 DecodedRequestContextKey"
    and resp: "cacheEnabled c \<Longrightarrow> Value (Ctx q) ResponseContextKey = Some (CtxBytes body)"
    and body: "body = [] \<or> (\<exists>status header parts.
      x_backend x (length (w_calls W)) target q0 = Reply status header parts False \<and> body = concat parts)"
  shows "evolves held x c W W'"
proof -
  have "fetched x c W W' k v d" if "held (w_cache W') k v d" "\<not> held (w_cache W) k v d" for k v d
  proof -
    have "stored_from x c q V W' k v d" using assms(1,2) that unfolding caches_def by metis
    then obtain m e body' r ttl where s: "cacheEnabled c" "w_clock V \<le> m" "m < w_clock W'"
      "decoded_request q DecodedRequestContextKey = Some (Some e)" "Value (Ctx q) ResponseContextKey = Some (CtxBytes body')"
      "UnmarshalJsonRpcResponse body' = Ok r" "IsCacheable (x_newInt x) (Some e) = Ok True" "resp_IsCacheable (x_fnum x) r"
      "IsFinal (x_fnum x) r (Method e)" "stored_as c e r k v ttl" "d \<le> x_clock x m + ttl"
      unfolding stored_from_def by blast
    have "body' = body" using resp s(1,5) by simp
    then obtain status header parts where reply: "x_backend x (length (w_calls W)) target q0 = Reply status header parts False"
      "body' = concat parts" using body s(6) empty_response by auto
    have "settled_call x (length (w_calls W)) (target, q0) e r"
      using reply s(4,6-9) dec assms(5) by (auto simp: settled_call_def body_matches_def)
    moreover have "w_calls W' = w_calls V" using assms(1) by (simp add: caches_def)
    ultimately show ?thesis using s(2,3,10,11) assms(3) calls unfolding fetched_def
      by (intro exI [of _ "length (w_calls W)"] exI [of _ m] exI [of _ e] exI [of _ r] exI [of _ ttl]) simp
  qed
  then show ?thesis using assms(1,3) calls by (auto simp: evolves_def caches_def)
qed

text \<open>Without a forwarded request nothing is stored.\<close>

lemma nothing_stored:
  assumes "caches V q W'" and "w_cache V = w_cache W" and "w_clock W \<le> w_clock V" and "w_calls V = w_calls W"
    and "cacheEnabled c \<Longrightarrow> Value (Ctx q) ResponseContextKey = Some (CtxBytes [])"
  shows "evolves held x c W W'"
proof -
  have "held (w_cache W) k v d" if "held (w_cache W') k v d" for k v d
    using assms(1,2,5) that empty_response unfolding caches_def stored_from_def by force
  then show ?thesis using assms(1,3,4) by (auto simp: evolves_def caches_def)
qed

lemma proxy_evolves:
  assumes "proxyMiddleware x config c W w r = (W', w', p)" and "body_matches x r"
    and ready: "history_ok x config c"
  shows "evolves held x c W W'"
  using assms(1) unfolding proxyMiddleware_def
proof (cases rule: proxy_cases)
  case early
  then show ?thesis using evolves_refl evolves_tick by auto
next
  case (aborted target q)
  then show ?thesis by (intro evolves_same_cache) auto
next
  case (hit q ips latency md lrw lrw')
  show ?thesis
    by (rule nothing_stored [OF caches_after_proxy [OF hit(1) ready]]) (use history_okD(1) [OF ready] in \<open>auto simp: enrich_context_values\<close>)
next
  case (call r1 q target ips latency md lrw lrw')
  have "body_matches x q" using call(1-3) assms(2) body_matches_undecoded [of r1] by (metis body_matches_prepared)
  then show ?thesis
    using stored_after_call [OF caches_after_proxy [OF call(4) ready] _ _ _ \<open>body_matches x q\<close>, of W target "bs_body lrw"]
      history_okD(1) [OF ready] call(5)
    by (simp add: enrich_context_values)
qed

lemma cache_evolves:
  assumes "cacheMiddleware x config c W w r = (W', w', p)" and "body_matches x r"
    and ready: "history_ok x config c"
  shows "evolves held x c W W'"
proof (cases "cacheEnabled c")
  case True
  note key = history_okD(2) [OF ready]
  note unfold = cacheMiddleware_def IsCachedMiddleware_def key
  let ?cached = "\<lambda>b. WithValue (Ctx r) CachedContextKey (CtxBool b)"
  have differ: "CachedContextKey \<noteq> DecodedRequestContextKey" "ResponseContextKey \<noteq> DecodedRequestContextKey"
    by (simp_all add: cache_names context_keys)
  show ?thesis
  proof (cases "decoded_request r DecodedRequestContextKey")
    case None
    have "body_matches x (WithContext r1 (?cached False))" for r1
      using None differ by (auto simp: decoded_request_Ctx intro!: body_matches_undecoded)
    then show ?thesis using assms(1) True None proxy_evolves [OF _ _ ready] evolves_refl
      by (auto simp: unfold Let_def split: result.splits)
  next
    case (Some d)
    obtain s res where look: "GetCachedQueryResponse (x_newInt x) c (w_cache W) (cache_now x W) d = (s, res)" by fastforce
    let ?W = "tick 2 (W\<lparr>w_cache := s\<rparr>)"
    have W1: "evolves held x c W ?W" using lookup_adds_nothing [OF look] by (auto simp: evolves_def)
    have next_step: "proxyMiddleware x config c ?W w (WithContext r ctx) = (W', w', p) \<Longrightarrow> evolves held x c W W'"
      if "ctx = ?cached False \<or> ctx = WithValue (?cached True) ResponseContextKey v" for ctx v
    proof -
      have "body_matches x (WithContext r ctx)"
        using that assms(2) differ by (auto simp: body_matches_def decoded_request_Ctx WithContext_def decoded_request_def)
      then show "proxyMiddleware x config c ?W w (WithContext r ctx) = (W', w', p) \<Longrightarrow> evolves held x c W W'"
        using proxy_evolves [OF _ _ ready] evolves_trans [OF W1] by blast
    qed
    then show ?thesis using assms(1) True Some look W1
      by (auto simp: unfold Let_def split: result.splits)
  qed
qed (use assms proxy_evolves [OF _ _ ready] in \<open>simp add: cacheMiddleware_def IsCachedMiddleware_def\<close>)

section \<open>Batches\<close>

lemma sub_request_matches:
  assumes "sub_request urlParse DecodedRequestContextKey r single = Some req" and "decoded_request r DecodedRequestContextKey = None"
    and "\<And>e. single = Some e \<Longrightarrow> envelope_canon (x_fnum x) e"
  shows "body_matches x req"
proof (cases single)
  case None
  then show ?thesis using assms(1,2)
    by (auto simp: sub_request_def NewRequestWithContext_def decoded_request_def Let_def intro!: body_matches_undecoded
        split: option.splits if_splits)
next
  case (Some e)
  note canon = assms(3) [OF Some]
  have "DecodeEVMRPCRequest (x_fnum x) (marshal_single (Some e)) = Ok e"
    by (simp add: marshal_single_def DecodeEVMRPCRequest_def json_parse_print [OF marshal_envelope_wf [OF canon]]
        unmarshal_marshal_envelope [OF canon])
  then show ?thesis using assms(1) Some
    by (auto simp: sub_request_def NewRequestWithContext_def body_matches_def decoded_request_def Let_def
        split: option.splits if_splits)
qed

lemma sub_requests_in:
  "req \<in> set (sub_requests urlParse key r batch) \<Longrightarrow> \<exists>single\<in>set batch. sub_request urlParse key r single = Some req"
  by (induction batch) (auto split: option.splits)

lemma batch_evolves:
  assumes "batchProcessingMiddleware urlParse schedule x config c W w r = (W', w', p)"
    and "decoded_request r DecodedRequestContextKey = None"
    and "Value (Ctx r) DecodedBatchRequestContextKey = Some (CtxBatch batch)"
    and "\<And>e. Some e \<in> set batch \<Longrightarrow> envelope_canon (x_fnum x) e"
    and ready: "history_ok x config c"
  shows "evolves held x c W W'"
proof (cases "int (length batch) > ProxyMaximumBatchSize config")
  case False
  let ?h = "cacheMiddleware x config c" and ?reqs = "sub_requests urlParse DecodedRequestContextKey r batch"
  have matches: "body_matches x req" if "req \<in> set ?reqs" for req
    using sub_requests_in [OF that] sub_request_matches [OF _ assms(2)] assms(4) by blast
  have batch: "evolving (evolves held x c) ?h ?reqs"
    by (unfold_locales) (auto intro: evolves_refl evolves_trans cache_evolves [OF _ _ ready] matches)
  obtain res where "RequestAndServe schedule (NewBatchProcessor ?h ?reqs) W w = (W', w', res)"
    using assms(1,3) False by (auto simp: batchProcessingMiddleware_def CreateBatchProcessingMiddleware_def batchMdwConfig_def
        Let_def split: prod.splits)
  then show ?thesis by (rule evolving.batch_worlds [OF batch])
qed (use assms(1,3) evolves_refl in \<open>simp add: batchProcessingMiddleware_def CreateBatchProcessingMiddleware_def batchMdwConfig_def\<close>)

section \<open>The service\<close>

lemma decoded_batch_evolves:
  assumes "batchProcessingMiddleware urlParse schedule x config c W w (WithContext r
      (WithValue (WithValue (Ctx r) RequestStartTimeContextKey t) DecodedBatchRequestContextKey (CtxBatch batch))) = (W', w', p)"
    and "DecodeEVMRPCRequestList (x_fnum x) b = Ok batch" "Value (Ctx r) DecodedRequestContextKey = None" and ready: "history_ok x config c"
  shows "evolves held x c W W'"
proof -
  have "envelope_canon (x_fnum x) e" if "Some e \<in> set batch" for e
    using decoded_member_canon [OF history_okD(4) [OF ready] assms(2)] that by (metis in_set_conv_nth)
  then show ?thesis
    using batch_evolves [OF assms(1) _ _ _ ready] assms(3) by (simp add: decoded_request_def context_keys WithContext_def)
qed

lemma decode_evolves:
  assumes "decodeRequestMiddleware urlParse schedule x config c W w r = (W', w', p)"
    and "Value (Ctx r) DecodedRequestContextKey = None"
    and ready: "history_ok x config c"
  shows "evolves held x c W W'"
proof -
  have start: "evolves held x c (tick 1 W) V \<Longrightarrow> evolves held x c W V" for V by (rule evolves_trans [OF evolves_tick])
  have none: "decoded_request (r\<lparr>Body := b\<rparr>) DecodedRequestContextKey = None"  "decoded_request r DecodedRequestContextKey = None" for b
    using assms(2) by (simp_all add: decoded_request_def)
  have single: "cacheMiddleware x config c (tick 1 W) w q = (W', w', p) \<Longrightarrow> body_matches x q \<Longrightarrow> evolves held x c W W'" for q
    using cache_evolves [OF _ _ ready] start by blast
  note plain = single [OF _ body_matches_undecoded]
  show ?thesis
  proof (cases "Body r")
    case (Some body)
    obtain b fails where body: "body = Reader b fails" by (cases body)
    let ?r = "r\<lparr>Body := Some (Reader b False)\<rparr>"
    let ?ctx = "WithValue (Ctx r) RequestStartTimeContextKey (CtxTime (time_Now x W))"
    show ?thesis
    proof (cases "fails \<or> b = []")
      case False
      show ?thesis
      proof (cases "\<exists>e. DecodeEVMRPCRequest (x_fnum x) b = Ok e")
        case True
        then obtain e where e: "DecodeEVMRPCRequest (x_fnum x) b = Ok e" ..
        have "body_matches x (WithContext ?r (WithValue ?ctx DecodedRequestContextKey (CtxRequest (Some e))))"
          using e by (simp add: body_matches_def WithContext_def decoded_request_def)
        then show ?thesis using assms(1) Some body False e single
          by (simp add: decodeRequestMiddleware_def createDecodeRequestMiddleware_def ReadAll_def Let_def)
      next
        case undecoded: False
        show ?thesis
        proof (cases "\<exists>batch. DecodeEVMRPCRequestList (x_fnum x) b = Ok batch \<and> batch \<noteq> []")
          case True
          then obtain batch where batch: "DecodeEVMRPCRequestList (x_fnum x) b = Ok batch" "batch \<noteq> []" by blast
          have "batchProcessingMiddleware urlParse schedule x config c (tick 1 W) w
              (WithContext ?r (WithValue ?ctx DecodedBatchRequestContextKey (CtxBatch batch))) = (W', w', p)"
            using assms(1) Some body False undecoded batch
            by (auto simp: decodeRequestMiddleware_def createDecodeRequestMiddleware_def ReadAll_def Let_def split: result.splits)
          then show ?thesis
            using decoded_batch_evolves [where r = ?r and W = "tick 1 W", OF _ batch(1) _ ready] assms(2) start by simp
        qed (use assms(1) Some body False undecoded plain none in
          \<open>auto simp: decodeRequestMiddleware_def createDecodeRequestMiddleware_def ReadAll_def Let_def split: result.splits if_splits\<close>)
      qed
    qed (use assms(1) Some body plain none in
      \<open>auto simp: decodeRequestMiddleware_def createDecodeRequestMiddleware_def ReadAll_def Let_def split: if_splits\<close>)
  qed (use assms(1) plain none in \<open>simp add: decodeRequestMiddleware_def createDecodeRequestMiddleware_def\<close>)
qed

lemma mux_evolves:
  assumes "mux urlParse schedule x config service d path W w r = (W', w', p)" and "svc_Cache service = c"
    and "Value (Ctx r) DecodedRequestContextKey = None"
    and ready: "history_ok x config c"
  shows "evolves held x c W W'"
proof -
  have "W' = W" if "path \<in> {''/healthcheck'', ''/servicecheck'', ''/status/database''}"
    using assms(1) that by (auto simp: mux_def createHealthcheckHandler_def createServicecheckHandler_def
        createDatabaseStatusHandler_def Let_def split: if_splits prod.splits option.splits)
  then show ?thesis using assms decode_evolves [OF _ _ ready] evolves_refl by (auto simp: mux_def split: if_splits)
qed

lemma history_evolves:
  assumes "svc_Cache service = c" and "\<forall>(d, path, schedule, r)\<in>set rs. Value (Ctx r) DecodedRequestContextKey = None"
    and "held (w_cache (last (history urlParse x config service W rs))) k v d"
    and ready: "history_ok x config c"
  shows "held (w_cache W) k v d \<or> (\<exists>j. Suc j < length (history urlParse x config service W rs) \<and>
    fetched x c (history urlParse x config service W rs ! j) (history urlParse x config service W rs ! Suc j) k v d)"
  using assms(2,3)
proof (induction rs arbitrary: W)
  case (Cons q rs)
  obtain db path schedule r where q: "q = (db, path, schedule, r)" by (cases q)
  obtain W1 w1 p1 where step: "mux urlParse schedule x config service db path W (Server new_response) r = (W1, w1, p1)"
    by (metis prod_cases3)
  let ?Ws = "history urlParse x config service W1 rs"
  have Ws: "history urlParse x config service W (q # rs) = W # ?Ws" "?Ws \<noteq> []" "?Ws ! 0 = W1"
    using step q by (simp_all add: history_start)
  have ev: "evolves held x c W W1" using mux_evolves [OF step assms(1) _ ready] Cons.prems(1) q by simp
  have "held (w_cache W1) k v d \<or> (\<exists>j. Suc j < length ?Ws \<and> fetched x c (?Ws ! j) (?Ws ! Suc j) k v d)"
    using Cons.IH [of W1] Cons.prems Ws by simp
  then consider "held (w_cache W) k v d" | "fetched x c W W1 k v d" | j where "Suc j < length ?Ws" "fetched x c (?Ws ! j) (?Ws ! Suc j) k v d"
    using ev unfolding evolves_def by blast
  then show ?case
  proof cases
    case 2
    then show ?thesis using Ws by (intro disjI2 exI [of _ 0]) simp
  next
    case (3 j)
    then show ?thesis using Ws by (intro disjI2 exI [of _ "Suc j"]) simp
  qed (simp add: Ws)
qed simp

text \<open>The answer of a lookup, traced back to the exchange that fetched it.\<close>

lemma answer_traced:
  assumes service: "svc_Cache service = c" and fresh: "\<forall>(d, path, schedule, r)\<in>set rs. Value (Ctx r) DecodedRequestContextKey = None"
    and empty: "\<And>k v d. \<not> held (w_cache W) k v d" and Ws: "Ws = history urlParse x config service W rs"
    and canon: "envelope_canon (x_fnum x) e"
    and look: "GetCachedQueryResponse (x_newInt x) c (w_cache (last Ws)) now (Some e) = (s', Ok qr)"
    and ready: "history_ok x config c"
  shows "\<exists>j n m e' resp ttl result. Suc j < length Ws \<and> length (w_calls (Ws ! j)) \<le> n \<and> n < length (w_calls (Ws ! Suc j)) \<and>
    w_clock (Ws ! j) \<le> m \<and> m < w_clock (Ws ! Suc j) \<and> settled_call x n (w_calls (Ws ! Suc j) ! n) e' resp \<and>
    Method e' = Method e \<and> Sum256 (request_data e') = Sum256 (request_data e) \<and>
    json_parse (Result resp) = Some result \<and> JsonRpcResponseResult qr = served_body e result \<and>
    GetTTL c (Method e) = Ok ttl \<and> now 0 \<le> x_clock x m + ttl"
proof -
  let ?k = "the_Ok (GetQueryKey (cachePrefix c) (Some e))"
  obtain v where v: "cache_Get (cacheClient c) (w_cache (last Ws)) now ?k = (s', Ok v)" "restore_response (Some e) v = Ok qr"
    using look by (auto simp: GetCachedQueryResponse_def GetQueryKey_Ok split: result.splits if_splits prod.splits)
  from get_held [OF v(1)] obtain d where d: "held (w_cache (last Ws)) ?k v d" "now 0 \<le> d" by blast
  then obtain j where j: "Suc j < length Ws" "fetched x c (Ws ! j) (Ws ! Suc j) ?k v d"
    using history_evolves [OF service fresh _ ready, of urlParse W ?k v d] empty Ws by blast
  then obtain n m e' resp ttl where f: "length (w_calls (Ws ! j)) \<le> n" "n < length (w_calls (Ws ! Suc j))"
    "w_clock (Ws ! j) \<le> m" "m < w_clock (Ws ! Suc j)" "settled_call x n (w_calls (Ws ! Suc j) ! n) e' resp"
    "stored_as c e' resp ?k v ttl" "d \<le> x_clock x m + ttl"
    unfolding fetched_def by blast
  have key: "GetQueryKey (cachePrefix c) (Some e') = GetQueryKey (cachePrefix c) (Some e)"
    using f(6) by (simp add: stored_as_def GetQueryKey_Ok)
  have same: "Method e' = Method e" "Sum256 (request_data e') = Sum256 (request_data e)" using key_method_hash [OF key] by simp_all
  obtain hm where vt: "v = json_print (marshal_query_response \<lparr>JsonRpcResponseResult = Result resp, HeaderMap = hm\<rparr>)"
    using f(6) by (auto simp: stored_as_def)
  obtain hm' where un: "unmarshal_query_response v = Some \<lparr>JsonRpcResponseResult = Result resp, HeaderMap = hm'\<rparr>"
    using unmarshal_marshal_result [of "\<lparr>JsonRpcResponseResult = Result resp, HeaderMap = hm\<rparr>"] vt by auto
  obtain result where result: "json_parse (Result resp) = Some result"
    using f(5) by (auto simp: settled_call_def resp_IsCacheable_iff)
  have "JsonRpcResponseResult qr = served_body e result"
    using restore_response_Ok [OF canon un, of result] result v(2) by auto
  then show ?thesis using j(1) f result same d(2) order_trans [OF d(2) f(7)] unfolding stored_as_def
    by (intro exI [of _ j] exI [of _ n] exI [of _ m] exI [of _ e'] exI [of _ resp] exI [of _ ttl] exI [of _ result]) auto
qed

end

text \<open>The in-memory storage, and the Redis storage the service is set up with.\<close>

interpretation mem_history: service_history
  "NewServiceCache InMemoryCache_client key prefix enabled whitelisted origin originMap ttls" inmem_contents x config
  for key prefix enabled whitelisted origin originMap ttls x config
  unfolding service_history_def using mem_honest.honest_cache_axioms
  by (simp add: NewServiceCache_def InMemoryCache_client_def)

lemma redis_history:
  "\<forall>cfg. redis_honest (redis cfg) held \<Longrightarrow> service_history (createServiceCache redis config) held"
  by (simp add: service_history_def createServiceCache_def NewServiceCache_def NewRedisCache_def redis_honest_cache)

lemma service_history_ok:
  assumes "Validate parseURL (ReadConfig parseURL env) = []" and "float_roundtrip (x_fnum x)"
  shows "history_ok x (ReadConfig parseURL env) (createServiceCache redis (ReadConfig parseURL env))"
proof -
  let ?c = "createServiceCache redis (ReadConfig parseURL env)"
  have "0 < ttl" if "GetTTL ?c name = Ok ttl" for name ttl
    using that valid_lifetimes [OF assms(1)]
    by (auto simp: GetTTL_def createServiceCache_def NewServiceCache_def split: if_splits)
  then show ?thesis using createServiceCache_wired assms(2) by (simp add: history_ok_def)
qed

section \<open>What only grows\<close>

text \<open>No request, and no batch of requests, takes back a clock reading, a forwarded request or a metric.\<close>

definition grows :: "'s World \<Rightarrow> 's World \<Rightarrow> bool" where
  "grows W W' \<longleftrightarrow>
     w_clock W \<le> w_clock W' \<and> (\<exists>calls. w_calls W' = w_calls W @ calls) \<and> (\<exists>ms. w_metrics W' = w_metrics W @ ms)"

lemma grows_refl: "grows W W"
  by (simp add: grows_def)

lemma grows_trans: "grows W V \<Longrightarrow> grows V U \<Longrightarrow> grows W U"
  by (auto simp: grows_def)

lemma finalizer_grows: "createAfterProxyFinalizer x config W w r = (W', w', p) \<Longrightarrow> grows W W'"
  by (auto simp: createAfterProxyFinalizer_def grows_def split: if_splits result.splits option.splits)

lemma after_proxy_grows:
  assumes "cacheAfterProxyMiddleware x config c W w r = (W', w', p)"
  shows "grows W W'"
proof -
  have "grows W (tick 2 (W\<lparr>w_cache := s\<rparr>))" for s by (simp add: grows_def)
  note step = this grows_trans [OF this finalizer_grows] finalizer_grows grows_refl
  show ?thesis using assms step unfolding cacheAfterProxyMiddleware_def CachingMiddleware_def
    by (auto simp: Let_def split: if_splits option.splits result.splits ctxval.splits prod.splits)
qed

lemma proxy_grows:
  assumes "proxyMiddleware x config c W w r = (W', w', p)"
  shows "grows W W'"
  using assms unfolding proxyMiddleware_def
proof (cases rule: proxy_cases)
  case (hit q ips latency md lrw lrw')
  have "grows W (tick 2 W)" by (simp add: grows_def)
  then show ?thesis using grows_trans [OF _ after_proxy_grows [OF hit]] by blast
next
  case (call r1 q target ips latency md lrw lrw')
  let ?W = "tick 2 (W\<lparr>w_calls := w_calls W @ [(target, q)]\<rparr>)"
  have "grows W ?W" by (simp add: grows_def)
  then show ?thesis using grows_trans [OF _ after_proxy_grows [OF call(4)]] by blast
qed (auto simp: grows_def)

lemma cache_grows:
  assumes "cacheMiddleware x config c W w r = (W', w', p)"
  shows "grows W W'"
proof -
  have "grows W (tick 2 (W\<lparr>w_cache := s\<rparr>))" for s by (simp add: grows_def)
  note step = this grows_trans [OF this proxy_grows] proxy_grows grows_refl
  show ?thesis using assms step unfolding cacheMiddleware_def IsCachedMiddleware_def
    by (auto simp: Let_def split: if_splits option.splits result.splits prod.splits)
qed

interpretation batch_grows: evolving grows "cacheMiddleware x config c" reqs for x config c reqs
  by unfold_locales (auto intro: grows_refl grows_trans cache_grows)

end
