(* ===== verification/CachedBatch.thy ===== *)
theory CachedBatch
  imports History
begin

text \<open>
  A batch whose members are all in the cache. The sub-requests share the cache and the clock and run in any
  interleaving; the relation \<open>still_fresh\<close> between the states they pass says that what was in the cache
  until a deadline stays there, and that nobody calls a backend. The locale \<open>evolving\<close> carries it through
  the batch.
\<close>

section \<open>Lookups leave the cache as it was\<close>

context cached_responses
begin

lemma lookup_keeps_answers:
  assumes "u 0 \<le> t 0" and "GetCachedQueryResponse newInt c s u (Some e) = (s', r)"
  shows "snd (GetCachedQueryResponse newInt c s' t (Some e')) = snd (GetCachedQueryResponse newInt c s t (Some e'))"
proof -
  let ?key = "the_Ok (GetQueryKey (cachePrefix c) (Some e))"
  have "s' = s \<or> s' = fst (cache_Get (cacheClient c) s u ?key)"
    using assms(2) by (auto simp: GetCachedQueryResponse_def GetQueryKey_Ok split: result.splits prod.splits if_splits)
  moreover have keeps: "snd (cache_Get (cacheClient c) (fst (cache_Get (cacheClient c) s u ?key)) t k) = snd (cache_Get (cacheClient c) s t k)" for k
    using get_get [where u = u and t = t, OF assms(1), of s ?key] by (metis prod.collapse)
  ultimately show ?thesis unfolding GetCached_answer by (auto simp only: keeps)
qed

end

section \<open>Fresh until a deadline\<close>

definition fresh_until ::
  "('n, 'h) Externals \<Rightarrow> 's ServiceCache \<Rightarrow> (EVMRPCRequestEnvelope \<Rightarrow> QueryResponse) \<Rightarrow> EVMRPCRequestEnvelope set \<Rightarrow> int \<Rightarrow>
    's World \<Rightarrow> bool" where
  "fresh_until x c qr es deadline W \<longleftrightarrow>
     (\<forall>e\<in>es. \<forall>t. x_clock x (w_clock W) \<le> t 0 \<and> t 0 \<le> deadline \<longrightarrow>
        snd (GetCachedQueryResponse (x_newInt x) c (w_cache W) t (Some e)) = Ok (qr e))"

definition still_fresh ::
  "('n, 'h) Externals \<Rightarrow> 's ServiceCache \<Rightarrow> (EVMRPCRequestEnvelope \<Rightarrow> QueryResponse) \<Rightarrow> EVMRPCRequestEnvelope set \<Rightarrow> int \<Rightarrow>
    's World \<Rightarrow> 's World \<Rightarrow> bool" where
  "still_fresh x c qr es deadline W W' \<longleftrightarrow>
     w_clock W \<le> w_clock W' \<and>
     (fresh_until x c qr es deadline W \<and> x_clock x (w_clock W') \<le> deadline \<longrightarrow>
        fresh_until x c qr es deadline W' \<and> w_calls W' = w_calls W)"

lemma still_fresh_refl: "still_fresh x c qr es deadline W W"
  by (simp add: still_fresh_def)

lemma still_fresh_trans:
  assumes "mono (x_clock x)" and "still_fresh x c qr es deadline W V" and "still_fresh x c qr es deadline V U"
  shows "still_fresh x c qr es deadline W U"
proof -
  have "x_clock x (w_clock V) \<le> x_clock x (w_clock U)" using assms by (auto simp: still_fresh_def intro: monoD)
  then show ?thesis using assms by (auto simp: still_fresh_def)
qed

text \<open>A member of the batch, as its sub-request reaches the chain.\<close>

definition member_ready :: "('n, 'h) Externals \<Rightarrow> Config \<Rightarrow> EVMRPCRequestEnvelope \<Rightarrow> Request \<Rightarrow> bool" where
  "member_ready x config e req \<longleftrightarrow>
     decoded_request req DecodedRequestContextKey = Some (Some e) \<and>
     (\<exists>proxy md. ProxyForRequest (x_newInt x) (NewProxies config) req = Ok (proxy, md, True))"

lemma fresh_member:
  assumes contract: "cached_responses c" and wired: "cache_wired config c" "CacheEnabled config" and mono: "mono (x_clock x)"
    and req: "member_ready x config e req" "e \<in> es" and fresh: "fresh_until x c qr es deadline W"
    and run: "cacheMiddleware x config c W w req = (W', w', p)" and time: "x_clock x (w_clock W') \<le> deadline"
  shows "w' = serve_cached config req (qr e) w" "w_calls W' = w_calls W" "fresh_until x c qr es deadline W'"
    "p \<noteq> None \<Longrightarrow> MetricCollectionEnabled config \<and>
      (\<exists>pn. ExtractBlockNumberFromEVMRPCRequest (x_newInt x) (x_hexToHash x) (x_headerByHash x) e = Panic pn)"
proof -
  have clock: "x_clock x (w_clock W) \<le> x_clock x (w_clock W')"
    using cache_grows [OF run] mono by (auto simp: grows_def intro: monoD)
  then have "snd (GetCachedQueryResponse (x_newInt x) c (w_cache W) (cache_now x W) (Some e)) = Ok (qr e)"
    using fresh req(2) time by (simp add: fresh_until_def cache_now_def)
  then obtain s' where look: "GetCachedQueryResponse (x_newInt x) c (w_cache W) (cache_now x W) (Some e) = (s', Ok (qr e))"
    by (metis prod.collapse)
  from req(1) obtain proxy md where dec: "decoded_request req DecodedRequestContextKey = Some (Some e)"
    and route: "ProxyForRequest (x_newInt x) (NewProxies config) req = Ok (proxy, md, True)" by (auto simp: member_ready_def)
  note h = hit_chain [OF wired dec look route run]
  show "w' = serve_cached config req (qr e) w" "w_calls W' = w_calls W"
    "p \<noteq> None \<Longrightarrow> MetricCollectionEnabled config \<and>
      (\<exists>pn. ExtractBlockNumberFromEVMRPCRequest (x_newInt x) (x_hexToHash x) (x_headerByHash x) e = Panic pn)"
    by (rule h)+
  have "snd (GetCachedQueryResponse (x_newInt x) c (w_cache W') t (Some e')) = Ok (qr e')"
    if "e' \<in> es" "x_clock x (w_clock W') \<le> t 0" "t 0 \<le> deadline" for e' t
  proof -
    have "cache_now x W 0 \<le> t 0" using clock that(2) by (simp add: cache_now_def)
    from cached_responses.lookup_keeps_answers [where u = "cache_now x W" and t = t, OF contract this look, of e'] show ?thesis
      using fresh that clock h(3) by (simp add: fresh_until_def)
  qed
  then show "fresh_until x c qr es deadline W'" by (simp add: fresh_until_def)
qed

section \<open>The batch\<close>

lemma batch_stays_fresh:
  assumes "cached_responses c" "cache_wired config c" "CacheEnabled config" "mono (x_clock x)"
    and "\<forall>req\<in>set reqs. \<exists>e\<in>es. member_ready x config e req"
  shows "evolving (still_fresh x c qr es deadline) (cacheMiddleware x config c) reqs"
proof
  fix W :: "'a World" and W' r w p
  assume r: "r \<in> set reqs" and run: "cacheMiddleware x config c W new_fake r = (W', w, p)"
  then obtain e where e: "e \<in> es" "member_ready x config e r" using assms(5) by blast
  have "w_clock W \<le> w_clock W'" using cache_grows [OF run] by (simp add: grows_def)
  then show "still_fresh x c qr es deadline W W'"
    using fresh_member(2,3) [OF assms(1-4) e(2,1) _ run] by (auto simp: still_fresh_def)
qed (auto intro: still_fresh_refl still_fresh_trans [OF assms(4)])

text \<open>What a sub-request leaves in its own writer.\<close>

lemma served_to_fake:
  "\<exists>f. serve_cached config req response new_fake = Fake f \<and> fw_body f = JsonRpcResponseResult response \<and> fw_errors f = [] \<and>
     IsCacheHitHeaders (fw_header f)"
  using serve_cached_response [of config req response new_fake]
  by (auto simp: new_fake_def serve_cached_def IsCacheHitHeaders_def writer_defs)

lemma cached_batch_run:
  assumes chain: "cached_responses c" "cache_wired config c" "CacheEnabled config" "mono (x_clock x)"
    and members: "length reqs = length es" "\<forall>i < length es. member_ready x config (es ! i) (reqs ! i)"
    and quiet: "\<forall>e\<in>set es. MetricCollectionEnabled config \<longrightarrow>
      (\<forall>pn. ExtractBlockNumberFromEVMRPCRequest (x_newInt x) (x_hexToHash x) (x_headerByHash x) e \<noteq> Panic pn)"
    and json: "\<forall>e\<in>set es. marshal_raw (JsonRpcResponseResult (qr e)) = Some (answer e)"
    and fresh: "fresh_until x c qr (set es) deadline W" and v: "sent_head v = None"
    and run: "RequestAndServe schedule (NewBatchProcessor (cacheMiddleware x config c) reqs) W (Server v) = (W', w', res)"
    and time: "x_clock x (w_clock W') \<le> deadline"
  shows "res = Ok ()" "w_calls W' = w_calls W"
    "\<exists>v'. w' = Server v' \<and> sent_body v' = sent_body v @ json_print (JArr (map answer es)) \<and> sent_head v' = Some (StatusOK, live_header v')"
    "es \<noteq> [] \<Longrightarrow> Header_Get (w_Header w') CacheHeaderKey = CacheHitHeaderValue"
proof -
  let ?R = "still_fresh x c qr (set es) deadline" and ?h = "cacheMiddleware x config c"
  have ready: "\<forall>req\<in>set reqs. \<exists>e\<in>set es. member_ready x config e req" using members by (metis in_set_conv_nth)
  note batch = batch_stays_fresh [OF chain ready]
  obtain bp outs where serve: "serve_results bp (Server v) = (w', res)" and r: "batch_result ?h reqs bp outs" and end_state: "?R W W'"
    and called: "\<And>i. i < length reqs \<Longrightarrow> called_in ?R W W' ?h (reqs ! i) (outs ! i)"
    using evolving.batch_worlds [OF batch run] by blast
  show "w_calls W' = w_calls W" using end_state fresh time by (simp add: still_fresh_def)
  have out: "snd (outs ! i) = None \<and> fw_errors (fst (outs ! i)) = [] \<and> fw_body (fst (outs ! i)) = JsonRpcResponseResult (qr (es ! i)) \<and>
      IsCacheHitHeaders (fw_header (fst (outs ! i)))" if i: "i < length reqs" for i
  proof -
    from called [OF i] obtain V V' w p where V: "?R W V" "?h V new_fake (reqs ! i) = (V', w, p)" "?R V' W'" "outs ! i = (fake_of w, p)"
      by (auto simp: called_in_def)
    have e: "member_ready x config (es ! i) (reqs ! i)" "es ! i \<in> set es" using members i by auto
    have "w_clock V \<le> w_clock V'" using cache_grows [OF V(2)] by (simp add: grows_def)
    then have clocks: "x_clock x (w_clock V) \<le> deadline" "x_clock x (w_clock V') \<le> deadline"
      using V(3) time chain(4) by (auto simp: still_fresh_def dest: monoD intro: order_trans)
    then have "fresh_until x c qr (set es) deadline V" using V(1) fresh by (simp add: still_fresh_def)
    note m = fresh_member [OF chain e this V(2) clocks(2)]
    have "p = None" using m(4) quiet e(2) by blast
    then show ?thesis using m(1) V(4) served_to_fake [of config "reqs ! i" "qr (es ! i)"] by auto
  qed
  show "res = Ok ()" "\<exists>v'. w' = Server v' \<and> sent_body v' = sent_body v @ json_print (JArr (map answer es)) \<and>
      sent_head v' = Some (StatusOK, live_header v')"
    using collated_answers [OF r serve, of "map answer es"] out json members(1) v serve collated_head_sent [of bp v _ res] by fastforce+
  show "Header_Get (w_Header w') CacheHeaderKey = CacheHitHeaderValue" if "es \<noteq> []"
    using collated_hits [OF r serve, of "\<lambda>_. True"] out members(1) that by auto
qed

text \<open>C5: A batch all of whose members are in the cache is answered from it. Whatever the interleaving of its goroutines, as
  long as the entries outlive the batch, no backend is called, and the client gets status 200, the header HIT and the JSON array of the
  cached answers in the order of the members, each under the identifier of its own member.\<close>

theorem cached_batch_served_from_cache:
  assumes ext: "\<forall>cfg. redis_ok (redis cfg)" "mono (x_clock x)"
    and c: "CacheEnabled config" "c = createServiceCache redis config"
    and body: "Body r = Some (Reader b False)" "b \<noteq> []" "\<forall>e. DecodeEVMRPCRequest (x_fnum x) b \<noteq> Ok e"
      "DecodeEVMRPCRequestList (x_fnum x) b = Ok (map Some es)" "es \<noteq> []" "int (length es) \<le> ProxyMaximumBatchSize config"
    and request: "list_all header_token (ReqMethod r)" "ReqMethod r \<noteq> []" "urlParse (ReqURL r) = Some u"
    and routes: "\<forall>e\<in>set es. \<exists>proxy md. ProxyForRequest (x_newInt x) (NewProxies config) (decoded_as r e) = Ok (proxy, md, True)"
    and quiet: "\<forall>e\<in>set es. MetricCollectionEnabled config \<longrightarrow>
      (\<forall>pn. ExtractBlockNumberFromEVMRPCRequest (x_newInt x) (x_hexToHash x) (x_headerByHash x) e \<noteq> Panic pn)"
    and cached: "\<forall>e\<in>set es. \<forall>t. x_clock x (w_clock W) \<le> t 0 \<and> t 0 \<le> deadline \<longrightarrow>
        snd (GetCachedQueryResponse (x_newInt x) c (w_cache W) t (Some e)) = Ok (qr e)"
      "\<forall>e\<in>set es. marshal_raw (JsonRpcResponseResult (qr e)) = Some (answer e)"
    and served: "decodeRequestMiddleware urlParse schedule x config c W (Server new_response) r = (W', w', p)"
      "x_clock x (w_clock W') \<le> deadline"
  shows "p = None \<and> w_calls W' = w_calls W \<and> Header_Get (w_Header w') CacheHeaderKey = CacheHitHeaderValue \<and>
    (\<exists>v hdrs. w' = Server v \<and> sent_head v = Some (StatusOK, hdrs) \<and> sent_body v = json_print (JArr (map answer es)) \<and>
      Header_Get hdrs CacheHeaderKey = CacheHitHeaderValue)"
proof -
  let ?r = "WithContext (r\<lparr>Body := Some (Reader b False)\<rparr>)
    (WithValue (WithValue (Ctx r) RequestStartTimeContextKey (CtxTime (time_Now x W))) DecodedBatchRequestContextKey (CtxBatch (map Some es)))"
  let ?reqs = "sub_requests urlParse DecodedRequestContextKey ?r (map Some es)"
  obtain res where run: "RequestAndServe schedule (NewBatchProcessor (cacheMiddleware x config c) ?reqs) (tick 1 W) (Server new_response) =
      (W', w', res)" "p = (case res of Panic p \<Rightarrow> Some p | _ \<Rightarrow> None)"
    using served(1) body
    by (auto simp: decodeRequestMiddleware_def createDecodeRequestMiddleware_def ReadAll_def batchProcessingMiddleware_def
        CreateBatchProcessingMiddleware_def batchMdwConfig_def Let_def split: result.splits prod.splits)
  have parts: "list_all header_token (ReqMethod ?r)" "ReqMethod ?r \<noteq> []" "urlParse (ReqURL ?r) = Some u" using request by simp_all
  note map = sub_requests_map [where r = ?r and urlParse = urlParse and u = u, OF parts]
  have members: "length ?reqs = length es" "\<forall>i < length es. member_ready x config (es ! i) (?reqs ! i)"
  proof -
    show "length ?reqs = length es" by (simp add: map)
    show "\<forall>i < length es. member_ready x config (es ! i) (?reqs ! i)"
    proof (intro allI impI)
      fix i assume i: "i < length es"
      then have dec: "decoded_request (?reqs ! i) DecodedRequestContextKey = Some (Some (es ! i))" "Host (?reqs ! i) = Host r"
        by (simp_all add: map decoded_request_def)
      show "member_ready x config (es ! i) (?reqs ! i)"
        using routes i dec(1) route_decoded [OF dec] by (simp add: member_ready_def)
    qed
  qed
  have "fresh_until x c qr (set es) deadline (tick 1 W)"
    using cached(1) ext(2) by (auto simp: fresh_until_def intro: order_trans dest: monoD [of _ "w_clock W" "w_clock W + 1"])
  note batch = cached_batch_run [OF createServiceCache_contract [OF ext(1), of config, folded c(2)]
      createServiceCache_wired [of config redis, folded c(2)] c(1) ext(2) members quiet cached(2) this _ run(1) served(2)]
  show ?thesis using batch body(5) run(2) by (auto simp: new_response_def simp del: json_print.simps)
qed

section \<open>Example\<close>

text \<open>A batch of two requests for the chain id, after one was answered. The clock of the example comes to a halt.\<close>

definition halting_externals :: "(int, string) Externals" where
  "halting_externals = sample_externals\<lparr>x_clock := \<lambda>n. min (int n * 50) 1000\<rparr>"

abbreviation pair :: "EVMRPCRequestEnvelope list" where
  "pair \<equiv> [sample_envelope ''a'', sample_envelope ''b'']"

definition pair_body :: bytes where
  "pair_body = json_print (JArr (map marshal_envelope pair))"

definition pair_request :: Request where
  "pair_request = (repeat_request ''a'')\<lparr>Body := Some (Reader pair_body False)\<rparr>"

abbreviation chain_id_of :: "EVMRPCRequestEnvelope \<Rightarrow> QueryResponse" where
  "chain_id_of e \<equiv> \<lparr>JsonRpcResponseResult = served_body e (JStr ''0x8ae''), HeaderMap = []\<rparr>"

abbreviation pair_answer :: "EVMRPCRequestEnvelope \<Rightarrow> json" where
  "pair_answer e \<equiv> JObj [(''jsonrpc'', JStr ''2.0''), (''id'', from_goval (ID e)), (''result'', JStr ''0x8ae'')]"

lemma pair_decodes:
  "\<forall>e. DecodeEVMRPCRequest sample_num pair_body \<noteq> Ok e" "DecodeEVMRPCRequestList sample_num pair_body = Ok (map Some pair)" "pair_body \<noteq> []"
proof -
  have "json_parse pair_body = Some (JArr (map marshal_envelope pair))" by code_simp
  note parsed = this
  have canon: "envelope_canon sample_num (sample_envelope ''a'')" "envelope_canon sample_num (sample_envelope ''b'')"
    using sample_envelope_canon repeat_idents by blast+
  show "\<forall>e. DecodeEVMRPCRequest sample_num pair_body \<noteq> Ok e" by (simp add: DecodeEVMRPCRequest_def parsed)
  show "DecodeEVMRPCRequestList sample_num pair_body = Ok (map Some pair)"
    using unmarshal_marshal_envelope [OF canon(1)] unmarshal_marshal_envelope [OF canon(2)]
    by (simp add: DecodeEVMRPCRequestList_def parsed marshal_envelope_def)
  show "pair_body \<noteq> []" by (simp add: pair_body_def)
qed

lemma pair_routes: "\<forall>e\<in>set pair. \<exists>proxy md.
  ProxyForRequest newInt_decimal (NewProxies repeat_config) (decoded_as pair_request e) = Ok (proxy, md, True)"
proof
  fix e assume "e \<in> set pair"
  then obtain i where e: "e = sample_envelope i" by auto
  have "ProxyForRequest newInt_decimal (NewProxies repeat_config) (decoded_as pair_request e) =
      ProxyForRequest newInt_decimal (NewProxies repeat_config) (decoded_as (repeat_request i) e)"
    by (rule route_decoded) (simp_all add: decoded_as_def decoded_request_def pair_request_def repeat_request_def Value_def)
  then show "\<exists>proxy md. ProxyForRequest newInt_decimal (NewProxies repeat_config) (decoded_as pair_request e) = Ok (proxy, md, True)"
    using repeat_routes [of i] e by simp
qed

lemma pair_limits: "int (length pair) \<le> ProxyMaximumBatchSize repeat_config" "ReqMethod pair_request = ''POST''"
  by (simp_all add: repeat_config_sample sample_env_def ReadConfig_def Let_def env_keys env_defaults getenv_def EnvOrDefaultInt_def
      pair_request_def repeat_request_def chain_request_def sample_request_def)

theorem cached_batch_served_from_cache_witness:
  "\<exists>v. fst (snd (decodeRequestMiddleware Some [] halting_externals repeat_config repeat_cache first_served (Server new_response) pair_request)) =
       Server v \<and> sent_body v = json_print (JArr (map pair_answer pair))"
proof -
  let ?out = "decodeRequestMiddleware Some [] halting_externals repeat_config repeat_cache first_served (Server new_response) pair_request"
  have x: "x_newInt halting_externals = newInt_decimal" "x_fnum halting_externals = sample_num" "mono (x_clock halting_externals)"
    "x_clock halting_externals n \<le> 1000" for n
    by (auto simp: halting_externals_def sample_externals_def mono_def)
  have cached: "\<forall>e\<in>set pair. \<forall>t. x_clock halting_externals (w_clock first_served) \<le> t 0 \<and> t 0 \<le> 1000 \<longrightarrow>
      snd (GetCachedQueryResponse (x_newInt halting_externals) repeat_cache (w_cache first_served) t (Some e)) = Ok (chain_id_of e)"
  proof (intro ballI allI impI)
    fix e t assume "e \<in> set pair" and t: "x_clock halting_externals (w_clock first_served) \<le> t 0 \<and> t (0 :: nat) \<le> 1000"
    then obtain i where i: "e = sample_envelope i" "utf8_valid i" using repeat_idents by auto
    have "x_newInt halting_externals = x_newInt sample_externals" by (simp add: x(1) sample_externals_def)
    then show "snd (GetCachedQueryResponse (x_newInt halting_externals) repeat_cache (w_cache first_served) t (Some e)) = Ok (chain_id_of e)"
      using first_served_state(3) [OF i(2), of t] t i(1) by auto
  qed
  have json: "\<forall>e\<in>set pair. marshal_raw (JsonRpcResponseResult (chain_id_of e)) = Some (pair_answer e)" by code_simp
  have quiet: "\<forall>e\<in>set pair. MetricCollectionEnabled repeat_config \<longrightarrow> (\<forall>pn. ExtractBlockNumberFromEVMRPCRequest (x_newInt halting_externals)
      (x_hexToHash halting_externals) (x_headerByHash halting_externals) e \<noteq> Panic pn)"
    by (auto simp: ExtractBlockNumberFromEVMRPCRequest_def sample_envelope_def method_preds method_tables)
  have out: "?out = (fst ?out, fst (snd ?out), snd (snd ?out))" by simp
  have "list_all header_token ''POST''" by code_simp
  then have request: "Body pair_request = Some (Reader pair_body False)" "list_all header_token (ReqMethod pair_request)"
      "ReqMethod pair_request \<noteq> []"
    using pair_limits(2) by (simp_all add: pair_request_def)
  from cached_batch_served_from_cache [OF repeat_externals(4) x(3) repeat_config_fields(1) refl request(1) pair_decodes(3)
      pair_decodes(1,2) [folded x(2)] _ pair_limits(1) request(2,3) refl pair_routes [folded x(1)] quiet cached json out x(4)]
  show ?thesis by auto
qed

end
