(* ===== verification/Timers.thy ===== *)
theory Timers
  imports Prelude
begin

text \<open>
  The timers of the background routines: \<^verbatim>\<open>time.Sleep\<close> and \<^verbatim>\<open>time.Tick\<close> as the routines use them, and
  the goroutine of one routine as a timed automaton that sleeps, does a first run, and then
  works once per tick. Time is an integer number of nanoseconds and advances one at a time. A goroutine
  may be late: it moves at any moment after it can. The automaton counts the runs; its invariant relates the count to
  the time, with equality when no goroutine is late.
\<close>

section \<open>Tickers\<close>

text \<open>
  The channel of a ticker holds one tick; a tick that finds it full is dropped. For a
  period that is not positive \<^verbatim>\<open>time.Tick\<close> returns the nil channel, on which a receiver waits for ever.
\<close>

record ticker =
  tk_period :: int
  tk_due :: int
  tk_full :: bool

definition Tick :: "int \<Rightarrow> int \<Rightarrow> ticker option" where
  "Tick now d = (if d \<le> 0 then None else Some \<lparr>tk_period = d, tk_due = now + d, tk_full = False\<rparr>)"

definition ticker_at :: "int \<Rightarrow> ticker \<Rightarrow> ticker" where
  "ticker_at now tk = (if tk_due tk \<le> now then tk\<lparr>tk_due := tk_due tk + tk_period tk, tk_full := True\<rparr> else tk)"

section \<open>The goroutine of a routine\<close>

text \<open>
  The goroutine is off, asleep until a time, blocked in the send of the error of its first run, in
  the loop over its ticker, or in a send inside that loop.
\<close>

datatype phase = Off | Asleep int | Blocked string | Ranging "ticker option" | Sending string "ticker option"

fun phase_at :: "int \<Rightarrow> phase \<Rightarrow> phase" where
  "phase_at now (Ranging timer) = Ranging (map_option (ticker_at now) timer)"
| "phase_at now (Sending err timer) = Sending err (map_option (ticker_at now) timer)"
| "phase_at now ph = ph"

text \<open>Whether the goroutine can move at a time, without waiting for time to pass.\<close>

fun can_move :: "int \<Rightarrow> phase \<Rightarrow> bool" where
  "can_move now (Asleep t) \<longleftrightarrow> t \<le> now"
| "can_move now (Ranging (Some timer)) \<longleftrightarrow> tk_full timer"
| "can_move now (Sending err timer) \<longleftrightarrow> True"
| "can_move now ph \<longleftrightarrow> False"

fun is_blocked :: "phase \<Rightarrow> bool" where
  "is_blocked (Blocked err) \<longleftrightarrow> True"
| "is_blocked ph \<longleftrightarrow> False"

fun is_sending :: "phase \<Rightarrow> bool" where
  "is_sending (Sending err timer) \<longleftrightarrow> True"
| "is_sending ph \<longleftrightarrow> False"

lemma phase_at_kind [simp]:
  "(phase_at now ph = Off) = (ph = Off)" "is_blocked (phase_at now ph) = is_blocked ph" "is_sending (phase_at now ph) = is_sending ph"
  by (cases ph; simp)+

lemma no_tick_yet [simp]: "\<not> can_move now (Ranging (Tick t d))"
  by (simp add: Tick_def)

lemma can_move_cases:
  assumes "can_move now ph" and "\<not> is_sending ph"
  obtains t where "ph = Asleep t" "t \<le> now" | tk where "ph = Ranging (Some tk)" "tk_full tk"
  using assms by (cases "(now, ph)" rule: can_move.cases) auto

section \<open>The timed automaton\<close>

record timer =
  tm_now :: int
  tm_phase :: phase
  tm_runs :: nat

text \<open>
  \<open>prompt\<close> says that no goroutine is late: time passes only when the goroutine cannot move. \<open>first\<close> is
  the number of runs before the loop.
\<close>

inductive timer_step :: "bool \<Rightarrow> int \<Rightarrow> nat \<Rightarrow> timer \<Rightarrow> timer \<Rightarrow> bool" for prompt interval first where
  pass: "(prompt \<Longrightarrow> \<not> can_move now ph) \<Longrightarrow>
     timer_step prompt interval first \<lparr>tm_now = now, tm_phase = ph, tm_runs = n\<rparr>
       \<lparr>tm_now = now + 1, tm_phase = phase_at (now + 1) ph, tm_runs = n\<rparr>"
| wake: "t \<le> now \<Longrightarrow>
     timer_step prompt interval first \<lparr>tm_now = now, tm_phase = Asleep t, tm_runs = n\<rparr>
       \<lparr>tm_now = now, tm_phase = Ranging (Tick now interval), tm_runs = n + first\<rparr>"
| block: "t \<le> now \<Longrightarrow>
     timer_step prompt interval first \<lparr>tm_now = now, tm_phase = Asleep t, tm_runs = n\<rparr>
       \<lparr>tm_now = now, tm_phase = Blocked err, tm_runs = n + first\<rparr>"
| work: "tk_full tk \<Longrightarrow>
     timer_step prompt interval first \<lparr>tm_now = now, tm_phase = Ranging (Some tk), tm_runs = n\<rparr>
       \<lparr>tm_now = now, tm_phase = Ranging (Some (tk\<lparr>tk_full := False\<rparr>)), tm_runs = Suc n\<rparr>"
| fail: "tk_full tk \<Longrightarrow>
     timer_step prompt interval first \<lparr>tm_now = now, tm_phase = Ranging (Some tk), tm_runs = n\<rparr>
       \<lparr>tm_now = now, tm_phase = Sending err (Some (tk\<lparr>tk_full := False\<rparr>)), tm_runs = Suc n\<rparr>"
| report: "timer_step prompt interval first \<lparr>tm_now = now, tm_phase = Sending err timer, tm_runs = n\<rparr>
       \<lparr>tm_now = now, tm_phase = Ranging timer, tm_runs = n\<rparr>"

section \<open>Its invariant\<close>

text \<open>
  The ticker of a goroutine that woke at \<open>w\<close> has ticked \<open>q\<close> times, the last time at or before the present. Every
  run but the first took a tick; without delays every tick was taken or is in the channel.
\<close>

definition on_schedule :: "bool \<Rightarrow> int \<Rightarrow> int \<Rightarrow> nat \<Rightarrow> int \<Rightarrow> ticker option \<Rightarrow> nat \<Rightarrow> bool" where
  "on_schedule prompt wake interval first now timer n \<longleftrightarrow>
     (case timer of
        None \<Rightarrow> interval \<le> 0 \<and> n = first
      | Some tk \<Rightarrow> 0 < interval \<and> tk_period tk = interval \<and>
          (\<exists>w q. wake \<le> w \<and> tk_due tk = w + int (Suc q) * interval \<and> now < tk_due tk \<and> tk_due tk \<le> now + interval \<and>
             n + of_bool (tk_full tk) \<le> first + q \<and>
             (prompt \<longrightarrow> w = wake \<and> n + of_bool (tk_full tk) = first + q)))"

fun timer_ok :: "bool \<Rightarrow> int \<Rightarrow> int \<Rightarrow> int \<Rightarrow> nat \<Rightarrow> int \<Rightarrow> phase \<Rightarrow> nat \<Rightarrow> bool" where
  "timer_ok prompt start delay interval first now Off n \<longleftrightarrow> n = 0"
| "timer_ok prompt start delay interval first now (Asleep t) n \<longleftrightarrow>
     t = start + delay \<and> n = 0 \<and> start \<le> now \<and> (prompt \<longrightarrow> now \<le> max start t)"
| "timer_ok prompt start delay interval first now (Blocked err) n \<longleftrightarrow> max start (start + delay) \<le> now \<and> n = first"
| "timer_ok prompt start delay interval first now (Ranging timer) n \<longleftrightarrow>
     max start (start + delay) \<le> now \<and> on_schedule prompt (max start (start + delay)) interval first now timer n"
| "timer_ok prompt start delay interval first now (Sending err timer) n \<longleftrightarrow>
     max start (start + delay) \<le> now \<and> on_schedule prompt (max start (start + delay)) interval first now timer n"

lemma on_schedule_Tick:
  assumes "wake \<le> now" and "prompt \<longrightarrow> now = wake"
  shows "on_schedule prompt wake interval first now (Tick now interval) first"
proof -
  have "\<exists>w q. wake \<le> w \<and> now + interval = w + int (Suc q) * interval \<and> (prompt \<longrightarrow> w = wake \<and> q = 0)"
    using assms by (intro exI [of _ now] exI [of _ "0 :: nat"]) simp
  then show ?thesis by (auto simp: on_schedule_def Tick_def)
qed

lemma on_scheduleE:
  assumes "on_schedule prompt wake interval first now (Some tk) n"
  obtains w q where "0 < interval" "tk_period tk = interval" "wake \<le> w" "tk_due tk = w + int (Suc q) * interval"
    "now < tk_due tk" "tk_due tk \<le> now + interval" "n + of_bool (tk_full tk) \<le> first + q"
    "prompt \<longrightarrow> w = wake \<and> n + of_bool (tk_full tk) = first + q"
  using assms unfolding on_schedule_def option.case by blast

lemma on_schedule_taken:
  assumes "on_schedule prompt wake interval first now (Some tk) n" and "tk_full tk"
  shows "on_schedule prompt wake interval first now (Some (tk\<lparr>tk_full := False\<rparr>)) (Suc n)"
  using assms by (simp add: on_schedule_def)

text \<open>A tick that is dropped makes the count late, which only a prompt goroutine rules out.\<close>

lemma on_schedule_pass:
  assumes "on_schedule prompt wake interval first now timer n"
    and idle: "prompt \<Longrightarrow> \<forall>tk. timer = Some tk \<longrightarrow> \<not> tk_full tk"
  shows "on_schedule prompt wake interval first (now + 1) (map_option (ticker_at (now + 1)) timer) n"
proof (cases timer)
  case None
  then show ?thesis using assms(1) by (simp add: on_schedule_def)
next
  case (Some tk)
  with assms(1) have "on_schedule prompt wake interval first now (Some tk) n" by simp
  then obtain w q where tk: "0 < interval" "tk_period tk = interval" "wake \<le> w" "tk_due tk = w + int (Suc q) * interval"
      "now < tk_due tk" "tk_due tk \<le> now + interval" "n + of_bool (tk_full tk) \<le> first + q"
      "prompt \<longrightarrow> w = wake \<and> n + of_bool (tk_full tk) = first + q"
    by (rule on_scheduleE)
  show ?thesis
  proof (cases "tk_due tk = now + 1")
    case True
    then have "tk_due tk + interval = w + int (Suc (Suc q)) * interval" using tk(4) by (simp add: algebra_simps)
    then have "\<exists>w q'. wake \<le> w \<and> now + 1 + interval = w + int (Suc q') * interval \<and> n + 1 \<le> first + q' \<and>
        (prompt \<longrightarrow> w = wake \<and> n + 1 = first + q')"
      using tk(3,7,8) idle Some True by (intro exI [of _ w] exI [of _ "Suc q"]) auto
    then show ?thesis using tk(1,2) Some True by (simp add: on_schedule_def ticker_at_def)
  next
    case False
    then have "ticker_at (now + 1) tk = tk" using tk(5) by (simp add: ticker_at_def)
    then show ?thesis using tk Some False by (auto simp: on_schedule_def)
  qed
qed

lemma timer_ok_step:
  assumes "timer_step prompt interval first s s'" and "timer_ok prompt start delay interval first (tm_now s) (tm_phase s) (tm_runs s)"
  shows "timer_ok prompt start delay interval first (tm_now s') (tm_phase s') (tm_runs s')"
  using assms
proof (induction rule: timer_step.induct)
  case (pass now ph n)
  then show ?case
  proof (cases ph)
    case (Ranging timer)
    then have "prompt \<Longrightarrow> \<forall>tk. timer = Some tk \<longrightarrow> \<not> tk_full tk" using pass.hyps by auto
    then show ?thesis using pass.prems Ranging by (auto intro: on_schedule_pass)
  next
    case (Sending err timer)
    then show ?thesis using pass by (auto intro: on_schedule_pass)
  qed auto
next
  case (wake t now n)
  then show ?case by (auto intro!: on_schedule_Tick)
qed (auto dest: on_schedule_taken)

section \<open>What the invariant says of the number of runs\<close>

lemma ticks_so_far:
  assumes "0 < interval" and "due = w + int (Suc q) * interval" and "now < due" and "due \<le> now + interval"
  shows "int q = (now - w) div interval"
proof -
  let ?r = "now - w - int q * interval"
  have "?r < interval" "0 \<le> ?r" "now - w = ?r + int q * interval" using assms by (simp_all add: algebra_simps)
  then have "(?r + int q * interval) div interval = int q" using assms(1) by (subst div_mult_self1) simp_all
  then show ?thesis by simp
qed

text \<open>However late the goroutine is: nothing before the delay is over, and no more runs than the interval allows.\<close>

lemma runs_bounded:
  assumes "timer_ok prompt start delay interval first now ph n"
  shows "now < start + delay \<Longrightarrow> n = 0"
    and "0 < interval \<Longrightarrow> start + delay \<le> now \<Longrightarrow> int n \<le> int first + (now - (start + delay)) div interval"
    and "interval \<le> 0 \<Longrightarrow> n \<le> first"
proof -
  show "n = 0" if "now < start + delay" using assms that by (cases ph) auto
  show "n \<le> first" if "interval \<le> 0" using assms that by (cases ph) (auto simp: on_schedule_def split: option.splits)
  assume pos: "0 < interval" and late: "start + delay \<le> now"
  have "0 \<le> (now - (start + delay)) div interval" using pos late by (simp add: pos_imp_zdiv_nonneg_iff)
  moreover have "int n \<le> int first + (now - (start + delay)) div interval"
    if sched: "on_schedule prompt (max start (start + delay)) interval first now timer n" for timer
  proof -
    obtain tk where "timer = Some tk" using sched pos by (auto simp: on_schedule_def split: option.splits)
    with sched have "on_schedule prompt (max start (start + delay)) interval first now (Some tk) n" by simp
    then obtain w q where sch: "max start (start + delay) \<le> w" "tk_due tk = w + int (Suc q) * interval" "now < tk_due tk"
        "tk_due tk \<le> now + interval" "n + of_bool (tk_full tk) \<le> first + q"
      by (rule on_scheduleE)
    have "int q = (now - w) div interval" by (rule ticks_so_far [OF pos sch(2-4)])
    moreover have "(now - w) div interval \<le> (now - (start + delay)) div interval" using sch(1) pos by (intro zdiv_mono1) simp_all
    ultimately show ?thesis using sch(5) by linarith
  qed
  ultimately show "int n \<le> int first + (now - (start + delay)) div interval" using assms by (cases ph) auto
qed

text \<open>Without delays: exactly the number of runs that the interval asks for.\<close>

lemma runs_exact:
  assumes "timer_ok True start delay interval first now ph n" and "\<not> can_move now ph" "ph \<noteq> Off" "\<not> is_blocked ph"
    and "0 \<le> delay" "0 < interval" "start + delay \<le> now"
  shows "int n = int first + (now - (start + delay)) div interval"
proof -
  obtain tk where ph: "ph = Ranging (Some tk)" "\<not> tk_full tk"
    using assms by (cases ph) (auto simp: on_schedule_def split: option.splits)
  moreover have "max start (start + delay) = start + delay" using assms(5) by simp
  ultimately have "on_schedule True (start + delay) interval first now (Some tk) n" using assms(1) by simp
  then obtain q where sch: "tk_due tk = (start + delay) + int (Suc q) * interval" "now < tk_due tk" "tk_due tk \<le> now + interval"
      "n + of_bool (tk_full tk) = first + q"
    by (elim on_scheduleE) (simp only: simp_thms)
  have "int q = (now - (start + delay)) div interval" by (rule ticks_so_far [OF assms(6) sch(1-3)])
  then show ?thesis using sch(4) ph(2) by simp
qed

section \<open>Systems with timers\<close>

text \<open>A system that moves a timer, or leaves it alone, at each of its steps.\<close>

locale timed_system =
  fixes step :: "'p \<Rightarrow> 'p \<Rightarrow> bool" and view :: "'p \<Rightarrow> timer" and prompt :: bool and interval :: int and first :: nat
  assumes simulated: "step P P' \<Longrightarrow> view P' = view P \<or> timer_step prompt interval first (view P) (view P')"
begin

abbreviation keeps_time :: "int \<Rightarrow> int \<Rightarrow> 'p \<Rightarrow> bool" where
  "keeps_time start delay P \<equiv> timer_ok prompt start delay interval first (tm_now (view P)) (tm_phase (view P)) (tm_runs (view P))"

lemma timer_kept:
  assumes "step\<^sup>*\<^sup>* P P'" and "keeps_time start delay P"
  shows "keeps_time start delay P'"
  using assms
proof (induction rule: rtranclp_induct)
  case (step P' P'')
  then show ?case using simulated timer_ok_step by metis
qed

end

end
