(* ===== verification/Process.thy ===== *)
theory Process
  imports Service Timers
begin

text \<open>
  \<^verbatim>\<open>main\<close> of \<^verbatim>\<open>main.go\<close>: the Postgres client as the database of the service, the start of the service and the goroutines of its background routines, which share the
  database with each other and with the rest of the service, as a step relation. A step is a nanosecond that passes, a
  move of one goroutine, or a change of the database by somebody else. A call of the database is one step. The
  properties relate the calls of the routines to the intervals and delays of the configuration.
\<close>

section \<open>The Postgres client as a metrics database\<close>

text \<open>
  The operations of the client behind the interface \<^verbatim>\<open>MetricsDatabase\<close>. The server, through the driver and the query
  builder, is the record of its answers: to the calls of \<^verbatim>\<open>Partition\<close>, to an insert, a scan, the two catalogue
  queries, a delete and a ping.
\<close>

record 'd pg_server =
  pg_answer :: "'d \<Rightarrow> pg_call \<Rightarrow> 'd \<times> pg_reply"
  pg_insert :: "'d \<Rightarrow> pg_ProxiedRequestMetric \<Rightarrow> 'd \<times> error"
  pg_scanAndCount :: "'d \<Rightarrow> int \<Rightarrow> int \<Rightarrow> metric_table \<times> int \<times> error"
  pg_count :: "'d \<Rightarrow> string \<Rightarrow> (string, int) result"
  pg_name :: "'d \<Rightarrow> string \<Rightarrow> (string, string) result"
  pg_delete :: "'d \<Rightarrow> string \<Rightarrow> 'd \<times> error"
  pg_Ping :: "'d \<Rightarrow> error"

definition HealthCheck :: "('d \<Rightarrow> error) \<Rightarrow> 'd \<Rightarrow> error" where
  "HealthCheck ping d = ping d"

definition postgres_database :: "'d pg_server \<Rightarrow> (nat \<Rightarrow> int) \<Rightarrow> 'd pg_state MetricsDatabase" where
  "postgres_database srv clock =
     \<lparr>db_SaveProxiedRequestMetric = (\<lambda>(d, log) metric.
        case SaveProxiedRequestMetric (pg_insert srv) d metric of (d', err) \<Rightarrow> ((d', log), err)),
      db_ListProxiedRequestMetricsWithPagination = (\<lambda>(d, log). ListProxiedRequestMetricsWithPagination (pg_scanAndCount srv d)),
      db_CountAttachedProxiedRequestMetricPartitions = (\<lambda>(d, log). CountAttachedProxiedRequestMetricPartitions (pg_count srv d)),
      db_GetLastCreatedAttachedProxiedRequestMetricsPartitionName =
        (\<lambda>(d, log). GetLastCreatedAttachedProxiedRequestMetricsPartitionName (pg_name srv d)),
      db_DeleteProxiedRequestMetricsOlderThanNDays = (\<lambda>(d, log) n.
        case DeleteProxiedRequestMetricsOlderThanNDays (pg_delete srv) d n of (d', err) \<Rightarrow> ((d', log), err)),
      db_HealthCheck = (\<lambda>(d, log). HealthCheck (pg_Ping srv) d),
      db_Partition = pg_Partition (pg_answer srv) clock\<rparr>"

section \<open>The state of the routines\<close>

text \<open>The state holds the calls of the routines to the database with their times, and the errors \<^verbatim>\<open>main\<close> received.\<close>

datatype routine_call = RanPartition | RanDelete

record 'd Process =
  pr_now :: int
  pr_db :: 'd
  pr_partitioning :: phase
  pr_compaction :: phase
  pr_pruning :: phase
  pr_calls :: "(int \<times> routine_call) list"
  pr_errors :: "string list"

definition start_routines :: "Config \<Rightarrow> 'd MetricsDatabase \<Rightarrow> int \<Rightarrow> 'd \<Rightarrow> 'd Process" where
  "start_routines serviceConfig database now d =
     (let P = \<lparr>pr_now = now, pr_db = d, pr_partitioning = Off, pr_compaction = Off, pr_pruning = Off, pr_calls = [], pr_errors = []\<rparr> in
      case main_routines serviceConfig database of
        None \<Rightarrow> P
      | Some (partitioning, compaction, pruning) \<Rightarrow>
          P\<lparr>pr_partitioning := Asleep (now + part_delayFirstRun partitioning),
            pr_compaction := Asleep now,
            pr_pruning := (case pruning of None \<Rightarrow> Off | Some mpr \<Rightarrow> Asleep (now + prune_startDelay mpr))\<rparr>)"

section \<open>Starting\<close>

text \<open>
  \<open>checks\<close> are the health checks that raced with the creation of the database client. \<open>unwrap\<close> gives the message of the error that \<^verbatim>\<open>errors.Unwrap\<close> finds in an error, and \<open>listen\<close> the error with which
  \<^verbatim>\<open>ListenAndServe\<close> ends, after which \<^verbatim>\<open>main\<close> returns. The message of a panic of the logger is kept. A service that is
  served comes with the state in which its goroutines start, at a time \<open>now\<close> and with a database in the state \<open>d\<close>.
\<close>

datatype ('d, 'r) main_result =
    InitPanics
  | LoggerPanics string
  | Panics go_panic
  | Served "('d, 'r) ProxyService" "'d Process" error

definition Run :: "(http_Server \<Rightarrow> error) \<Rightarrow> http_Server \<Rightarrow> error" where
  "Run listen httpProxy = listen httpProxy"

definition main ::
  "(string \<Rightarrow> URL option) \<Rightarrow> (string \<Rightarrow> string option) \<Rightarrow> (Client \<Rightarrow> 'd MetricsDatabase) \<Rightarrow> error list \<Rightarrow> (string \<Rightarrow> error) \<Rightarrow>
    (RedisConfig \<Rightarrow> 'r redis_client) \<Rightarrow> (string \<Rightarrow> error) \<Rightarrow> (http_Server \<Rightarrow> error) \<Rightarrow> int \<Rightarrow> 'd \<Rightarrow>
    ('d, 'r) main_result" where
  "main parseURL env postgres checks dial redis unwrap listen now d =
     (case main_init parseURL env of
        None \<Rightarrow> InitPanics
      | Some (serviceConfig, level) \<Rightarrow>
          (case New postgres checks dial redis serviceConfig of
             Ok (service, httpProxy) \<Rightarrow> Served service (start_routines serviceConfig (svc_Database service) now d) (Run listen httpProxy)
           | Err err \<Rightarrow> LoggerPanics (case unwrap err of None \<Rightarrow> ''<nil>'' | Some msg \<Rightarrow> msg)
           | Panic p \<Rightarrow> Panics p))"

text \<open>
  The error that raced, where there is one: the start fails with it although the database is only down, which the
  service is meant to survive (the comment before the goroutine in \<^verbatim>\<open>createDatabaseClient\<close>).
\<close>

lemma New_outcome:
  "New postgres checks dial redis config =
     (case (if MetricDatabaseEnabled config \<and> RunDatabaseMigrations config then err_at_return checks else None) of
        Some err \<Rightarrow> Err err
      | None \<Rightarrow>
          (case dial (EvmQueryServiceURL config) of
             Some err \<Rightarrow> Err err
           | None \<Rightarrow> Ok (\<lparr>svc_Database = (if MetricDatabaseEnabled config then postgres (the_Ok (NewClient (databaseConfig config))) else noop),
               svc_Cache = createServiceCache redis config\<rparr>, server config)))"
proof -
  have "createDatabaseClient checks config =
      (case (if RunDatabaseMigrations config then err_at_return checks else None) of
         Some err \<Rightarrow> Err err
       | None \<Rightarrow> Ok (the_Ok (NewClient (databaseConfig config)), RunDatabaseMigrations config))"
    by (simp add: createDatabaseClient_def NewClient_def databaseConfig_def Let_def split: option.split)
  then show ?thesis by (auto simp: New_def split: option.split)
qed

lemma no_race: "(if b then err_at_return [] else None) = None"
  by (simp add: err_at_return_def)

text \<open>A database that is down when the service starts stops it, in a run in which the goroutine is fast enough.\<close>

lemma database_down_stops_start:
  assumes "MetricDatabaseEnabled config" and "RunDatabaseMigrations config"
  shows "New postgres [Some err] dial redis config = Err err"
  using assms by (simp add: New_outcome err_at_return_def)

lemma main_served:
  assumes "main parseURL env postgres checks dial redis unwrap listen now d = Served service start err"
  shows "Validate parseURL (ReadConfig parseURL env) = []"
    "start = start_routines (ReadConfig parseURL env) (svc_Database service) now d"
    "MetricDatabaseEnabled (ReadConfig parseURL env) \<Longrightarrow> svc_Database service = postgres (the_Ok (NewClient (databaseConfig (ReadConfig parseURL env))))"
    "svc_Cache service = createServiceCache redis (ReadConfig parseURL env)"
proof -
  show valid: "Validate parseURL (ReadConfig parseURL env) = []"
    using assms main_init_invalid [of parseURL env] by (cases "Validate parseURL (ReadConfig parseURL env) = []") (auto simp: main_def)
  show "start = start_routines (ReadConfig parseURL env) (svc_Database service) now d"
    "MetricDatabaseEnabled (ReadConfig parseURL env) \<Longrightarrow> svc_Database service = postgres (the_Ok (NewClient (databaseConfig (ReadConfig parseURL env))))"
    "svc_Cache service = createServiceCache redis (ReadConfig parseURL env)"
    using assms main_init_valid [OF valid] by (auto simp: main_def New_outcome split: option.splits if_splits)
qed

section \<open>The goroutines\<close>

definition elapse :: "'d Process \<Rightarrow> 'd Process" where
  "elapse P =
     (let now = pr_now P + 1 in
      P\<lparr>pr_now := now, pr_partitioning := phase_at now (pr_partitioning P), pr_compaction := phase_at now (pr_compaction P),
        pr_pruning := phase_at now (pr_pruning P)\<rparr>)"

definition partitioning_starts :: "'d MetricPartitioningRoutine \<Rightarrow> 'd Process \<Rightarrow> 'd Process" where
  "partitioning_starts mcr P =
     (let run = part_Run mcr (pr_db P) in
      P\<lparr>pr_db := routine_db run,
        pr_partitioning := (case run of Stuck err d \<Rightarrow> Blocked err | Waiting errs d \<Rightarrow> Ranging (Tick (pr_now P) (part_interval mcr))),
        pr_calls := pr_calls P @ [(pr_now P, RanPartition)]\<rparr>)"

definition partitioning_ticks :: "'d MetricPartitioningRoutine \<Rightarrow> ticker \<Rightarrow> 'd Process \<Rightarrow> 'd Process" where
  "partitioning_ticks mcr timer P =
     (let run = part_tick mcr (Waiting [] (pr_db P)); timer' = Some (timer\<lparr>tk_full := False\<rparr>) in
      P\<lparr>pr_db := routine_db run,
        pr_partitioning := (case run of Waiting (err # errs) d \<Rightarrow> Sending err timer' | _ \<Rightarrow> Ranging timer'),
        pr_calls := pr_calls P @ [(pr_now P, RanPartition)]\<rparr>)"

definition partitioning_reports :: "string \<Rightarrow> ticker option \<Rightarrow> 'd Process \<Rightarrow> 'd Process" where
  "partitioning_reports err timer P = P\<lparr>pr_partitioning := Ranging timer, pr_errors := pr_errors P @ [err]\<rparr>"

definition compaction_starts :: "'d MetricCompactionRoutine \<Rightarrow> 'd Process \<Rightarrow> 'd Process" where
  "compaction_starts mcr P =
     P\<lparr>pr_db := routine_db (comp_Run mcr (pr_db P)), pr_compaction := Ranging (Tick (pr_now P) (comp_interval mcr))\<rparr>"

definition compaction_ticks :: "'d MetricCompactionRoutine \<Rightarrow> ticker \<Rightarrow> 'd Process \<Rightarrow> 'd Process" where
  "compaction_ticks mcr timer P =
     P\<lparr>pr_db := routine_db (comp_tick mcr (Waiting [] (pr_db P))), pr_compaction := Ranging (Some (timer\<lparr>tk_full := False\<rparr>))\<rparr>"

definition pruning_starts :: "'d MetricPruningRoutine \<Rightarrow> 'd Process \<Rightarrow> 'd Process" where
  "pruning_starts mpr P =
     P\<lparr>pr_db := routine_db (prune_Run mpr (pr_db P)), pr_pruning := Ranging (Tick (pr_now P) (prune_interval mpr))\<rparr>"

definition pruning_ticks :: "'d MetricPruningRoutine \<Rightarrow> ticker \<Rightarrow> 'd Process \<Rightarrow> 'd Process" where
  "pruning_ticks mpr timer P =
     P\<lparr>pr_db := routine_db (prune_tick mpr (Waiting [] (pr_db P))), pr_pruning := Ranging (Some (timer\<lparr>tk_full := False\<rparr>)),
       pr_calls := pr_calls P @ [(pr_now P, RanDelete)]\<rparr>"

definition busy :: "'d Process \<Rightarrow> bool" where
  "busy P \<longleftrightarrow> can_move (pr_now P) (pr_partitioning P) \<or> can_move (pr_now P) (pr_compaction P) \<or> can_move (pr_now P) (pr_pruning P)"

text \<open>With \<open>prompt\<close>, time passes only when no goroutine can move.\<close>

inductive process_step :: "bool \<Rightarrow> Config \<Rightarrow> 'd MetricsDatabase \<Rightarrow> 'd Process \<Rightarrow> 'd Process \<Rightarrow> bool" for prompt config database where
  time_passes: "(prompt \<Longrightarrow> \<not> busy P) \<Longrightarrow> process_step prompt config database P (elapse P)"
| part_start: "pr_partitioning P = Asleep t \<Longrightarrow> t \<le> pr_now P \<Longrightarrow>
     process_step prompt config database P (partitioning_starts (startMetricPartitioningRoutine config database) P)"
| part_ticks: "pr_partitioning P = Ranging (Some timer) \<Longrightarrow> tk_full timer \<Longrightarrow>
     process_step prompt config database P (partitioning_ticks (startMetricPartitioningRoutine config database) timer P)"
| part_error: "pr_partitioning P = Sending err timer \<Longrightarrow>
     process_step prompt config database P (partitioning_reports err timer P)"
| comp_start: "pr_compaction P = Asleep t \<Longrightarrow> t \<le> pr_now P \<Longrightarrow>
     process_step prompt config database P (compaction_starts (startMetricCompactionRoutine config database) P)"
| comp_ticks: "pr_compaction P = Ranging (Some timer) \<Longrightarrow> tk_full timer \<Longrightarrow>
     process_step prompt config database P (compaction_ticks (startMetricCompactionRoutine config database) timer P)"
| prune_start: "pr_pruning P = Asleep t \<Longrightarrow> t \<le> pr_now P \<Longrightarrow> startMetricPruningRoutine config database = Some mpr \<Longrightarrow>
     process_step prompt config database P (pruning_starts mpr P)"
| prune_ticks: "pr_pruning P = Ranging (Some timer) \<Longrightarrow> tk_full timer \<Longrightarrow> startMetricPruningRoutine config database = Some mpr \<Longrightarrow>
     process_step prompt config database P (pruning_ticks mpr timer P)"
| others: "process_step prompt config database P (P\<lparr>pr_db := d\<rparr>)"

section \<open>Each routine keeps its timer\<close>

definition runs :: "routine_call \<Rightarrow> 'd Process \<Rightarrow> nat" where
  "runs c P = length (filter (\<lambda>(t, c'). c' = c) (pr_calls P))"

definition part_view :: "'d Process \<Rightarrow> timer" where
  "part_view P = \<lparr>tm_now = pr_now P, tm_phase = pr_partitioning P, tm_runs = runs RanPartition P\<rparr>"

definition prune_view :: "'d Process \<Rightarrow> timer" where
  "prune_view P = \<lparr>tm_now = pr_now P, tm_phase = pr_pruning P, tm_runs = runs RanDelete P\<rparr>"

lemmas moves = elapse_def partitioning_starts_def partitioning_ticks_def partitioning_reports_def compaction_starts_def
  compaction_ticks_def pruning_starts_def pruning_ticks_def Let_def

lemmas routine_fields = startMetricPartitioningRoutine_def NewMetricPartitioningRoutine_def startMetricCompactionRoutine_def
  NewMetricCompactionRoutine_def startMetricPruningRoutine_def NewMetricPruningRoutine_def

lemma partitioning_simulates:
  "process_step prompt config database P P' \<Longrightarrow>
     part_view P' = part_view P \<or> timer_step prompt (MetricPartitioningRoutineInterval config) 1 (part_view P) (part_view P')"
proof (induction rule: process_step.induct)
  case (time_passes P)
  then show ?case
    using timer_step.pass [of prompt "pr_now P" "pr_partitioning P"] by (auto simp: part_view_def runs_def moves busy_def)
next
  case (part_start P t)
  then show ?case
    using timer_step.wake [of t "pr_now P" prompt "MetricPartitioningRoutineInterval config" 1]
      timer_step.block [of t "pr_now P" prompt "MetricPartitioningRoutineInterval config" 1]
    by (auto simp: part_view_def runs_def moves routine_fields split: routine.split)
next
  case (part_ticks P timer)
  then show ?case
    using timer_step.work [of timer prompt "MetricPartitioningRoutineInterval config" 1]
      timer_step.fail [of timer prompt "MetricPartitioningRoutineInterval config" 1]
    by (auto simp: part_view_def runs_def moves split: routine.split list.split)
next
  case (part_error P err timer)
  then show ?case
    using timer_step.report [of prompt "MetricPartitioningRoutineInterval config" 1] by (auto simp: part_view_def runs_def moves)
qed (auto simp: part_view_def runs_def moves)

lemma pruning_simulates:
  "process_step prompt config database P P' \<Longrightarrow>
     prune_view P' = prune_view P \<or> timer_step prompt (MetricPruningRoutineInterval config) 0 (prune_view P) (prune_view P')"
proof (induction rule: process_step.induct)
  case (time_passes P)
  then show ?case
    using timer_step.pass [of prompt "pr_now P" "pr_pruning P"] by (auto simp: prune_view_def runs_def moves busy_def)
next
  case (prune_start P t mpr)
  then show ?case
    using timer_step.wake [of t "pr_now P" prompt "MetricPruningRoutineInterval config" 0]
    by (auto simp: prune_view_def runs_def moves routine_fields split: if_splits)
next
  case (prune_ticks P timer mpr)
  then show ?case
    using timer_step.work [of timer prompt "MetricPruningRoutineInterval config" 0] by (auto simp: prune_view_def runs_def moves)
qed (auto simp: prune_view_def runs_def moves)

interpretation partitioning: timed_system "process_step prompt config database" part_view prompt
    "MetricPartitioningRoutineInterval config" 1 for prompt config database
  by unfold_locales (rule partitioning_simulates)

interpretation pruning: timed_system "process_step prompt config database" prune_view prompt
    "MetricPruningRoutineInterval config" 0 for prompt config database
  by unfold_locales (rule pruning_simulates)

lemma start_routines_simps:
  "pr_now (start_routines config database now d) = now" "pr_calls (start_routines config database now d) = []"
  "pr_errors (start_routines config database now d) = []"
  "pr_partitioning (start_routines config database now d) =
     (if MetricDatabaseEnabled config then Asleep (now + MetricPartitioningRoutineDelayFirstRun config) else Off)"
  "pr_pruning (start_routines config database now d) =
     (if MetricDatabaseEnabled config \<and> MetricPruningEnabled config then Asleep (now + MetricPartitioningRoutineDelayFirstRun config) else Off)"
  by (simp_all add: start_routines_def main_routines_def routine_fields Let_def)

lemma routines_keep_time:
  assumes "(process_step prompt config database)\<^sup>*\<^sup>* (start_routines config database now d) P"
  shows "timer_ok prompt now (MetricPartitioningRoutineDelayFirstRun config) (MetricPartitioningRoutineInterval config) 1
      (pr_now P) (pr_partitioning P) (runs RanPartition P)"
    "timer_ok prompt now (MetricPartitioningRoutineDelayFirstRun config) (MetricPruningRoutineInterval config) 0
      (pr_now P) (pr_pruning P) (runs RanDelete P)"
  using partitioning.timer_kept [OF assms, of now "MetricPartitioningRoutineDelayFirstRun config"]
    pruning.timer_kept [OF assms, of now "MetricPartitioningRoutineDelayFirstRun config"]
  by (simp_all add: part_view_def prune_view_def start_routines_simps runs_def)

text \<open>The goroutines that were not started stay off, and those that were started do not stop.\<close>

lemma off_stays_off:
  assumes "(process_step prompt config database)\<^sup>*\<^sup>* P P'"
  shows "(pr_partitioning P' = Off) = (pr_partitioning P = Off)" "(pr_pruning P' = Off) = (pr_pruning P = Off)"
proof -
  have step: "(pr_partitioning P' = Off) = (pr_partitioning P = Off)" "(pr_pruning P' = Off) = (pr_pruning P = Off)"
    if "process_step prompt config database P P'" for P P' :: "'a Process"
    using that by (cases; auto simp: moves split: routine.split list.split)+
  show "(pr_partitioning P' = Off) = (pr_partitioning P = Off)" using assms by (induction rule: rtranclp_induct) (simp_all add: step)
  show "(pr_pruning P' = Off) = (pr_pruning P = Off)" using assms by (induction rule: rtranclp_induct) (simp_all add: step)
qed

lemma timer_off: "timer_ok prompt start delay interval first now Off n \<Longrightarrow> n = 0"
  by simp

section \<open>Never too early, never too often\<close>

text \<open>C31: However the goroutines are scheduled and whatever the database answers, a routine does not touch the
  database before the delay of its first run is over, and it does so no more often than its interval allows:
  the partitioning routine once at the start and once per interval, or only once when the interval is not
  positive; the pruning routine once per interval, and never when pruning is disabled. Without a metrics
  database neither does anything.\<close>

theorem routines_never_too_often:
  assumes "(process_step prompt config database)\<^sup>*\<^sup>* (start_routines config database now d) P"
    and "wake = now + MetricPartitioningRoutineDelayFirstRun config"
  shows "(pr_now P < wake \<or> \<not> MetricDatabaseEnabled config \<longrightarrow> pr_calls P = []) \<and>
    (0 < MetricPartitioningRoutineInterval config \<and> wake \<le> pr_now P \<longrightarrow>
       int (runs RanPartition P) \<le> 1 + (pr_now P - wake) div MetricPartitioningRoutineInterval config) \<and>
    (MetricPartitioningRoutineInterval config \<le> 0 \<longrightarrow> runs RanPartition P \<le> 1) \<and>
    (0 < MetricPruningRoutineInterval config \<and> wake \<le> pr_now P \<longrightarrow>
       int (runs RanDelete P) \<le> (pr_now P - wake) div MetricPruningRoutineInterval config) \<and>
    (MetricPruningRoutineInterval config \<le> 0 \<or> \<not> MetricPruningEnabled config \<longrightarrow> runs RanDelete P = 0)"
proof -
  note time = routines_keep_time [OF assms(1)]
  note off = off_stays_off [OF assms(1), unfolded start_routines_simps]
  have part: "\<not> MetricDatabaseEnabled config \<Longrightarrow> runs RanPartition P = 0" using time(1) off(1) by auto
  have prune: "\<not> (MetricDatabaseEnabled config \<and> MetricPruningEnabled config) \<Longrightarrow> runs RanDelete P = 0" using time(2) off(2) by auto
  have none: "runs RanPartition P = 0 \<Longrightarrow> runs RanDelete P = 0 \<Longrightarrow> pr_calls P = []"
    unfolding runs_def by (cases "pr_calls P") (auto simp: filter_empty_conv split: if_splits intro: routine_call.exhaust)
  show ?thesis
    using runs_bounded [OF time(1)] runs_bounded [OF time(2)] part prune none unfolding assms(2) by auto
qed

section \<open>Time goes on\<close>

text \<open>Each goroutine comes to rest within its present moment, and leaves the others where they are.\<close>

abbreviation partitioning_rests :: "bool \<Rightarrow> Config \<Rightarrow> 'd MetricsDatabase \<Rightarrow> 'd Process \<Rightarrow> bool" where
  "partitioning_rests prompt config database P \<equiv>
     \<exists>P'. (process_step prompt config database)\<^sup>*\<^sup>* P P' \<and> \<not> can_move (pr_now P') (pr_partitioning P') \<and> pr_now P' = pr_now P \<and>
       pr_compaction P' = pr_compaction P \<and> pr_pruning P' = pr_pruning P"

lemma rests_after_step:
  assumes "process_step prompt config database P Q" and "partitioning_rests prompt config database Q"
    and "pr_now Q = pr_now P" "pr_compaction Q = pr_compaction P" "pr_pruning Q = pr_pruning P"
  shows "partitioning_rests prompt config database P"
  using assms by (metis converse_rtranclp_into_rtranclp)

lemma sending_rests:
  assumes "pr_partitioning P = Sending err timer" and "\<forall>tk. timer = Some tk \<longrightarrow> \<not> tk_full tk"
  shows "partitioning_rests prompt config database P"
  by (rule rests_after_step [OF part_error [OF assms(1)]], rule exI [of _ "partitioning_reports err timer P"])
     (use assms(2) in \<open>cases timer; simp add: moves\<close>)+

lemma ticking_rests:
  assumes ph: "pr_partitioning P = Ranging (Some tk)" "tk_full tk"
  shows "partitioning_rests prompt config database P"
proof -
  let ?Q = "partitioning_ticks (startMetricPartitioningRoutine config database) tk P"
  have "partitioning_rests prompt config database ?Q"
  proof (cases "is_sending (pr_partitioning ?Q)")
    case True
    then obtain err where "pr_partitioning ?Q = Sending err (Some (tk\<lparr>tk_full := False\<rparr>))"
      by (auto simp: moves split: routine.splits list.splits)
    then show ?thesis by (rule sending_rests) simp
  next
    case False
    then show ?thesis by (intro exI [of _ ?Q]) (auto simp: moves split: routine.splits list.splits)
  qed
  then show ?thesis by (rule rests_after_step [OF part_ticks [OF ph]]) (simp_all add: moves)
qed

lemma partitioning_settles: "partitioning_rests prompt config database P"
proof (cases "can_move (pr_now P) (pr_partitioning P)")
  case True
  then show ?thesis
  proof (cases "is_sending (pr_partitioning P)")
    case False
    from True show ?thesis
    proof (rule can_move_cases [OF _ False])
      fix t assume "pr_partitioning P = Asleep t" "t \<le> pr_now P"
      note go = r_into_rtranclp [of "process_step prompt config database", OF part_start [OF this]]
      show ?thesis by (rule exI, rule conjI [OF go]) (simp add: moves split: routine.split)
    qed (rule ticking_rests)
  next
    case True
    then obtain err timer where ph: "pr_partitioning P = Sending err timer" by (cases "pr_partitioning P") auto
    show ?thesis
    proof (cases "\<exists>tk. timer = Some tk \<and> tk_full tk")
      case True
      then have "partitioning_rests prompt config database (partitioning_reports err timer P)"
        using ticking_rests [of "partitioning_reports err timer P"] by (auto simp: moves)
      then show ?thesis by (rule rests_after_step [OF part_error [OF ph]]) (simp_all add: moves)
    qed (use sending_rests ph in blast)
  qed
qed blast

lemma compaction_settles:
  assumes "\<not> is_sending (pr_compaction P)"
  shows "\<exists>P'. (process_step prompt config database)\<^sup>*\<^sup>* P P' \<and> \<not> can_move (pr_now P') (pr_compaction P') \<and> pr_now P' = pr_now P \<and>
     pr_partitioning P' = pr_partitioning P \<and> pr_pruning P' = pr_pruning P"
proof (cases "can_move (pr_now P) (pr_compaction P)")
  case True
  then show ?thesis
  proof (rule can_move_cases [OF _ assms])
    fix t assume "pr_compaction P = Asleep t" "t \<le> pr_now P"
    note go = r_into_rtranclp [of "process_step prompt config database", OF comp_start [OF this]]
    show ?thesis by (rule exI, rule conjI [OF go]) (simp add: moves)
  next
    fix tk assume "pr_compaction P = Ranging (Some tk)" "tk_full tk"
    note go = r_into_rtranclp [of "process_step prompt config database", OF comp_ticks [OF this]]
    show ?thesis by (rule exI, rule conjI [OF go]) (simp add: moves)
  qed
qed blast

lemma pruning_settles:
  assumes "\<not> is_sending (pr_pruning P)" and "pr_pruning P \<noteq> Off \<longrightarrow> MetricPruningEnabled config"
  shows "\<exists>P'. (process_step prompt config database)\<^sup>*\<^sup>* P P' \<and> \<not> can_move (pr_now P') (pr_pruning P') \<and> pr_now P' = pr_now P \<and>
     pr_partitioning P' = pr_partitioning P \<and> pr_compaction P' = pr_compaction P"
proof (cases "can_move (pr_now P) (pr_pruning P)")
  case True
  then have "pr_pruning P \<noteq> Off" by auto
  then obtain mpr where mpr: "startMetricPruningRoutine config database = Some mpr"
    using assms(2) by (simp add: startMetricPruningRoutine_def)
  from True show ?thesis
  proof (rule can_move_cases [OF _ assms(1)])
    fix t assume "pr_pruning P = Asleep t" "t \<le> pr_now P"
    note go = r_into_rtranclp [of "process_step prompt config database", OF prune_start [OF this mpr]]
    show ?thesis by (rule exI, rule conjI [OF go]) (simp add: moves)
  next
    fix tk assume "pr_pruning P = Ranging (Some tk)" "tk_full tk"
    note go = r_into_rtranclp [of "process_step prompt config database", OF prune_ticks [OF this mpr]]
    show ?thesis by (rule exI, rule conjI [OF go]) (simp add: moves)
  qed
qed blast

text \<open>The other two routines never send.\<close>

lemma never_sending:
  assumes "(process_step prompt config database)\<^sup>*\<^sup>* (start_routines config database now d) P"
  shows "\<not> is_sending (pr_compaction P) \<and> \<not> is_sending (pr_pruning P) \<and> \<not> is_blocked (pr_pruning P)"
  using assms
proof (induction rule: rtranclp_induct)
  case base
  show ?case by (simp add: start_routines_def Let_def split: option.split)
next
  case (step P P')
  from step.hyps(2) show ?case using step.IH by cases (simp_all add: moves)
qed

lemma settles:
  assumes reach: "(process_step prompt config database)\<^sup>*\<^sup>* (start_routines config database now d) P"
  shows "\<exists>P'. (process_step prompt config database)\<^sup>*\<^sup>* P P' \<and> \<not> busy P' \<and> pr_now P' = pr_now P"
proof -
  let ?S = "process_step prompt config database"
  have on: "MetricPruningEnabled config" if "pr_pruning P \<noteq> Off"
    using off_stays_off(2) [OF reach] that by (simp add: start_routines_simps split: if_splits)
  note quiet = never_sending [OF reach]
  obtain P1 where 1: "?S\<^sup>*\<^sup>* P P1" "\<not> can_move (pr_now P1) (pr_partitioning P1)" "pr_now P1 = pr_now P"
    "pr_compaction P1 = pr_compaction P" "pr_pruning P1 = pr_pruning P"
    using partitioning_settles by blast
  obtain P2 where 2: "?S\<^sup>*\<^sup>* P1 P2" "\<not> can_move (pr_now P2) (pr_compaction P2)" "pr_now P2 = pr_now P1"
    "pr_partitioning P2 = pr_partitioning P1" "pr_pruning P2 = pr_pruning P1"
    using compaction_settles [of P1] quiet 1(4) by metis
  obtain P3 where 3: "?S\<^sup>*\<^sup>* P2 P3" "\<not> can_move (pr_now P3) (pr_pruning P3)" "pr_now P3 = pr_now P2"
    "pr_partitioning P3 = pr_partitioning P2" "pr_compaction P3 = pr_compaction P2"
    using pruning_settles [of P2 config] quiet 1(5) 2(5) on by metis
  show ?thesis using 1 2 3 by (intro exI [of _ P3]) (auto simp: busy_def)
qed

lemma every_moment_reached:
  "\<exists>P. (process_step prompt config database)\<^sup>*\<^sup>* (start_routines config database now d) P \<and> \<not> busy P \<and> pr_now P = now + int n"
proof (induction n)
  case 0
  show ?case using settles [of prompt config database now d "start_routines config database now d"] by (auto simp: start_routines_simps)
next
  case (Suc n)
  then obtain P where P: "(process_step prompt config database)\<^sup>*\<^sup>* (start_routines config database now d) P" "\<not> busy P" "pr_now P = now + int n"
    by blast
  then have next_ns: "(process_step prompt config database)\<^sup>*\<^sup>* (start_routines config database now d) (elapse P)"
    by (meson rtranclp.rtrancl_into_rtrancl time_passes)
  from settles [OF this] obtain P' where "(process_step prompt config database)\<^sup>*\<^sup>* (elapse P) P'" "\<not> busy P'" "pr_now P' = pr_now (elapse P)"
    by blast
  then show ?case using next_ns P(3) by (intro exI [of _ P']) (auto simp: moves)
qed

section \<open>On time\<close>

lemma valid_never_blocked:
  assumes valid: "Validate parseURL config = []" "db_Partition database = pg_Partition server_db clock"
    and "(process_step prompt config database)\<^sup>*\<^sup>* (start_routines config database now d) P"
  shows "\<not> is_blocked (pr_partitioning P) \<and> \<not> is_sending (pr_partitioning P) \<and> pr_errors P = []"
  using assms(3)
proof (induction rule: rtranclp_induct)
  case base
  then show ?case by (simp add: start_routines_simps)
next
  case (step P P')
  note ok = valid_partitions [OF valid]
  from step.hyps(2) show ?case using step.IH
    by cases (simp_all add: moves part_Run_def ok)
qed

text \<open>C30: The routines of a started service with a metrics database are on time. When the intervals are positive and
  no goroutine is late, then once the delay of the first run is over, the partitioning routine has run once and then once for each interval
  that passed, and the pruning routine, when enabled, once for each of its intervals. No error is reported, whatever the database server answers
  and whatever others do to the database. Time never stops: the process reaches every later moment.\<close>

theorem routines_on_time:
  assumes "main parseURL env (\<lambda>client. postgres_database srv clock) checks dial redis unwrap listen now d = Served service start err"
    and "config = ReadConfig parseURL env" "database = svc_Database service"
    and "MetricDatabaseEnabled config" "0 < MetricPartitioningRoutineInterval config" "0 < MetricPruningRoutineInterval config"
      "0 \<le> MetricPartitioningRoutineDelayFirstRun config"
    and "wake = now + MetricPartitioningRoutineDelayFirstRun config" "wake \<le> T"
  shows "(\<exists>P. (process_step True config database)\<^sup>*\<^sup>* start P \<and> \<not> busy P \<and> pr_now P = T) \<and>
    (\<forall>P. (process_step True config database)\<^sup>*\<^sup>* start P \<and> \<not> busy P \<and> pr_now P = T \<longrightarrow>
       int (runs RanPartition P) = 1 + (T - wake) div MetricPartitioningRoutineInterval config \<and>
       int (runs RanDelete P) = (if MetricPruningEnabled config then (T - wake) div MetricPruningRoutineInterval config else 0) \<and>
       pr_errors P = [])"
proof (intro conjI allI impI)
  note up = main_served [OF assms(1), folded assms(2,3)]
  have "db_Partition database = pg_Partition (pg_answer srv) clock" using up(3) assms(4) by (auto simp: postgres_database_def)
  note on = valid_never_blocked [OF up(1) this]
  have "T = now + int (nat (T - now))" using assms(7-9) by simp
  then show "\<exists>P. (process_step True config database)\<^sup>*\<^sup>* start P \<and> \<not> busy P \<and> pr_now P = T"
    using every_moment_reached unfolding up(2) by metis
  fix P assume "(process_step True config database)\<^sup>*\<^sup>* start P \<and> \<not> busy P \<and> pr_now P = T"
  then have P: "(process_step True config database)\<^sup>*\<^sup>* (start_routines config database now d) P" "\<not> busy P" "pr_now P = T"
    unfolding up(2) by auto
  note time = routines_keep_time [OF P(1)]
  note off = off_stays_off [OF P(1), unfolded start_routines_simps]
  note free = on [OF P(1)]
  show "int (runs RanPartition P) = 1 + (T - wake) div MetricPartitioningRoutineInterval config"
    using runs_exact [OF time(1)] P(2,3) off(1) free assms(4-9) by (simp add: busy_def)
  show "int (runs RanDelete P) = (if MetricPruningEnabled config then (T - wake) div MetricPruningRoutineInterval config else 0)"
    using runs_exact [OF time(2)] P(2,3) off(2) assms(4-9) time(2) never_sending [OF P(1)] by (auto simp: busy_def)
  show "pr_errors P = []" using free by simp
qed

section \<open>Examples\<close>

text \<open>The defaults: a partition run per day and a pruning run per day, after ten seconds; the database server is down.\<close>

lemma sample_routine_fields:
  "MetricDatabaseEnabled (ReadConfig Some sample_env)" "MetricPruningEnabled (ReadConfig Some sample_env)"
  "MetricPartitioningRoutineInterval (ReadConfig Some sample_env) = 86400000000000"
  "MetricPruningRoutineInterval (ReadConfig Some sample_env) = 86400000000000"
  "MetricPartitioningRoutineDelayFirstRun (ReadConfig Some sample_env) = 10000000000"
  by (simp_all add: sample_env_def ReadConfig_def Let_def env_keys env_defaults getenv_def EnvOrDefaultInt_def EnvOrDefaultBool_def
      Config.seconds_def int64_wrap_def time_Second_def)

definition down_server :: "unit pg_server" where
  "down_server =
     \<lparr>pg_answer = (\<lambda>d call. (d, Err ''down'')), pg_insert = (\<lambda>d metric. (d, Some ''down'')), pg_scanAndCount = (\<lambda>d cursor limit. ([], 0, Some ''down'')),
      pg_count = (\<lambda>d query. Err ''down''), pg_name = (\<lambda>d query. Err ''down''), pg_delete = (\<lambda>d condition. (d, Some ''down'')),
      pg_Ping = (\<lambda>d. Some ''down'')\<rparr>"

abbreviation sample_main :: "(unit pg_state, redis_state) main_result" where
  "sample_main \<equiv> main Some sample_env (\<lambda>client. postgres_database down_server (\<lambda>_. 0)) [] (\<lambda>url. None) (\<lambda>cfg. sample_redis) (\<lambda>err. None)
     (\<lambda>srv. Some ''closed'') 0 ((), [])"

theorem routines_on_time_witness:
  "\<exists>service start err P. sample_main = Served service start err \<and>
     (process_step True (ReadConfig Some sample_env) (svc_Database service))\<^sup>*\<^sup>* start P \<and>
     pr_now P = 180000000000000 \<and> runs RanPartition P = 3 \<and> runs RanDelete P = 2 \<and> pr_errors P = []"
proof -
  obtain level where "main_init Some sample_env = Some (ReadConfig Some sample_env, level)"
    using main_init_valid [OF sample_env_valid] by blast
  then have "\<exists>service start err. sample_main = Served service start err" by (simp add: main_def New_outcome no_race)
  then obtain service start err where up: "sample_main = Served service start err" by blast
  note on_time = routines_on_time [OF up refl refl sample_routine_fields(1), of _ 180000000000000,
      unfolded sample_routine_fields(3-5), OF _ _ _ refl]
  then obtain P where P: "(process_step True (ReadConfig Some sample_env) (svc_Database service))\<^sup>*\<^sup>* start P" "\<not> busy P"
      "pr_now P = 180000000000000"
    by auto
  with on_time up show ?thesis by (intro exI [of _ service] exI [of _ start] exI [of _ err] exI [of _ P]) (simp add: sample_routine_fields)
qed

theorem routines_never_too_often_witness:
  "\<exists>P. (process_step False (ReadConfig Some sample_env) sample_pg_database)\<^sup>*\<^sup>*
       (start_routines (ReadConfig Some sample_env) sample_pg_database 0 ((), [])) P \<and>
     pr_now P = 100000000000000 \<and> runs RanPartition P \<le> 2 \<and> runs RanDelete P \<le> 1"
proof -
  obtain P where P: "(process_step False (ReadConfig Some sample_env) sample_pg_database)\<^sup>*\<^sup>*
      (start_routines (ReadConfig Some sample_env) sample_pg_database 0 ((), [])) P" "pr_now P = 100000000000000"
    using every_moment_reached [of False "ReadConfig Some sample_env" sample_pg_database 0 "((), [])" 100000000000000] by auto
  from routines_never_too_often [OF P(1) refl] show ?thesis using P by (intro exI [of _ P]) (simp add: sample_routine_fields)
qed

end
