(* ===== verification/Spec2Isabelle.thy ===== *)
theory Spec2Isabelle
  imports CachedBatch Process
begin

text \<open>
  A model of kava-proxy-service, a reverse proxy in front of the EVM JSON-RPC nodes of a chain
  (the Go sources, named below relative to \<^verbatim>\<open>src/\<close>).

  \<^bold>\<open>The program.\<close> A request passes a chain of middlewares. It is decoded (a JSON-RPC envelope or a
  batch of them), looked up in a response cache, proxied to a backend if the lookup missed, stored
  in the cache if its answer is settled, and recorded as a metric in a database. The backend is
  chosen by the host of the request, by the height it asks for (the tip of the chain goes to a
  pruning cluster) and by a table of shards. A batch is split into single requests that run through
  the same chain concurrently; their responses are collated. Three routines look after the metrics
  table, three endpoints report the state of the service, and everything is set up from
  environment variables.

  \<^bold>\<open>The theories.\<close>

  \<^item> \<^verbatim>\<open>Prelude\<close>: results of Go functions (value, error, panic), Go maps as association lists,
    \<^verbatim>\<open>strings\<close>, \<^verbatim>\<open>sort\<close>, 64-bit arithmetic, shared lemmas. \<^verbatim>\<open>Strconv\<close>: \<^verbatim>\<open>strconv\<close>.
    \<^verbatim>\<open>Calendar\<close>: the part of \<^verbatim>\<open>time\<close> that is used. \<^verbatim>\<open>Json\<close>, \<^verbatim>\<open>JsonValue\<close>, \<^verbatim>\<open>Compact\<close>:
    \<^verbatim>\<open>encoding/json\<close>, with the round trip of printing and parsing. \<^verbatim>\<open>Sha256\<close>: the hash of the
    cache keys. \<^verbatim>\<open>Http\<close>, \<^verbatim>\<open>Writer\<close>: headers, contexts, requests and response writers, among
    them \<^verbatim>\<open>service/batchmdw/fake_response_writer.go\<close>; the locale \<open>response_writer\<close> is the contract
    of a writer, interpreted for the three of them.
  \<^item> \<^verbatim>\<open>ConfigData\<close>, \<^verbatim>\<open>Config\<close>: \<^verbatim>\<open>config/config.go\<close> and \<^verbatim>\<open>config/validate.go\<close>. The parsed shard tables
    are well formed and print back; what a valid configuration guarantees; which setting cannot
    be reached. \<^verbatim>\<open>IntervalMap\<close>: \<^verbatim>\<open>config/intervalmap.go\<close>, with the locale \<open>interval_lookup\<close> for the
    shard router.
  \<^item> \<^verbatim>\<open>Decode\<close>: \<^verbatim>\<open>decode/evm_rpc.go\<close>. Decoding what was marshalled, exactly which number a
    block parameter is turned into, and when its extraction panics.
  \<^item> \<^verbatim>\<open>Proxies\<close>: \<^verbatim>\<open>service/proxy.go\<close> and \<^verbatim>\<open>service/shard.go\<close>. The routers refine \<open>intended_backend\<close>,
    a description of the routing that knows of no implementation; a shard is used only for a
    height it holds, the pruning cluster only for the tip. The locale \<open>proxies_interface\<close> is what
    the middleware relies on.
  \<^item> \<^verbatim>\<open>CacheClient\<close>: \<^verbatim>\<open>clients/cache\<close>. The locale \<open>ttl_cache\<close> is the contract of a cache with
    expiry; the in-memory cache satisfies it, and the Redis cache does when the Redis client does
    what its documentation says. \<^verbatim>\<open>Response\<close>, \<^verbatim>\<open>QueryCodec\<close>, \<^verbatim>\<open>ServiceCache\<close>, \<^verbatim>\<open>CacheMiddleware\<close>:
    \<^verbatim>\<open>service/cachemdw\<close>. A stored response is served again with the identifier of the request that
    asks, only settled results are stored, storing one request does not touch another. The
    locale \<open>cached_responses\<close> extends \<open>ttl_cache\<close> to whole responses.
  \<^item> \<^verbatim>\<open>Pipeline\<close>, \<^verbatim>\<open>Middleware\<close>: \<^verbatim>\<open>service/middleware.go\<close> and \<^verbatim>\<open>service/raptors.go\<close>. What a client receives
    on a hit, on a miss and for a host without a backend, what is offered to the cache, and the metric that is recorded.
  \<^item> \<^verbatim>\<open>Batch\<close>: \<^verbatim>\<open>service/batchmdw\<close>. The goroutines are a step relation; the statements hold for every
    interleaving. The answer lists the responses in the order of the requests, its wait is live, its
    status and headers, errors and panics.
  \<^item> \<^verbatim>\<open>Database\<close>, \<^verbatim>\<open>Partition\<close>, \<^verbatim>\<open>Postgres\<close>: \<^verbatim>\<open>clients/database\<close>. Metrics and their pages, which
    partitions are planned, day by day, which transactions a run leaves open, the connection, queries, and the order of the
    operations of the migrations around their lock.
    \<^verbatim>\<open>Routines\<close>: \<^verbatim>\<open>routines\<close> and their start in \<^verbatim>\<open>main.go\<close>.
  \<^item> \<^verbatim>\<open>StatusApi\<close>: \<^verbatim>\<open>service/handlers.go\<close>, \<^verbatim>\<open>service/api.go\<close> and \<^verbatim>\<open>service/client.go\<close>. \<^verbatim>\<open>Service\<close>:
    \<^verbatim>\<open>service/service.go\<close>, \<^verbatim>\<open>logging/logging.go\<close>, the start of \<^verbatim>\<open>main.go\<close>, and the statements about the
    whole chain: the second of two equal requests is answered from the cache.
  \<^item> \<^verbatim>\<open>Timers\<close>, \<^verbatim>\<open>Process\<close>: \<^verbatim>\<open>main\<close> of \<^verbatim>\<open>main.go\<close>. \<^verbatim>\<open>Timers\<close> has \<^verbatim>\<open>time.Sleep\<close>, \<^verbatim>\<open>time.Tick\<close> and the goroutine
    of a routine as a timed automaton; \<^verbatim>\<open>Process\<close> has the goroutines of the three routines on one database, each of
    which simulates the automaton (locale \<open>timed_system\<close>). The routines are never too early or too often, and on time when no
    goroutine is late.
  \<^item> \<^verbatim>\<open>BatchWorlds\<close>, \<^verbatim>\<open>History\<close>, \<^verbatim>\<open>CachedBatch\<close>: the service over several requests. The locale \<open>evolving\<close> carries a
    relation between states through a batch in any interleaving. \<open>service_history\<close>, over a storage that
    returns only what was stored (\<open>honest_cache\<close> in \<^verbatim>\<open>CacheClient\<close>), carries one through any sequence of requests: what the cache
    holds came from a backend. \<^verbatim>\<open>CachedBatch\<close>: a batch whose members are cached is answered from the
    cache. This theory holds the statement on the origin of cached answers, and that a service started by \<^verbatim>\<open>main\<close> sends a
    request to the backend it is meant for.

  \<^bold>\<open>Parameters.\<close> Code of other packages is an argument of the definitions that use it:
  \<open>parseURL\<close> (\<^verbatim>\<open>url.Parse\<close>), \<open>newInt\<close> (\<^verbatim>\<open>cosmosmath.NewIntFromString\<close>), \<open>fnum\<close> (reading a number
  as \<^verbatim>\<open>float64\<close> and printing it), \<open>hexToHash\<close> and \<open>headerByHash\<close> (go-ethereum), the writer of
  \<^verbatim>\<open>negroni\<close>, the answers of the backends, the clock, the Redis client, the Postgres driver, and the
  migrator. What a statement needs of one of them is a named hypothesis (\<open>negroni_ok\<close>,
  \<open>redis_ok\<close> and so on), and its witness instantiates it with a concrete function.

  \<^bold>\<open>Loops.\<close> Recursion is structural or has a measure; no definition takes fuel. The two
  loops without an end of their own, which wait for the database to answer and for the lock of the
  migrations, are \<open>partial_function\<close>s; the lemmas on the migrations say exactly when they return.
  The goroutines of a batch run to the end of any schedule because the step
  relation is well founded. The goroutines of the routines never end; they reach every later moment.

  \<^bold>\<open>Not modelled.\<close>

  \<^item> Log messages, the random identifiers of the routines.
  \<^item> The transport: listening, TLS, timeouts of the server, and the cleaning of paths that
    \<^verbatim>\<open>http.ServeMux\<close> does. What \<^verbatim>\<open>httputil.ReverseProxy\<close> adds to the forwarded request is left to
    the backend parameter.
  \<^item> The execution of SQL and the migration files, which are SQL.
  \<^item> Memory races, but for the one in \<^verbatim>\<open>createDatabaseClient\<close>: the health checks that the goroutine of the migrations
    made before the function returned the variable they share are the parameter \<open>checks\<close>. A sub-request of a batch has a copy of the header map that the code shares,
    its handler acts on the state of the service in one move, and an operation of a cache or
    of the database is one step. Requests other than those of one batch are served one after another.
  \<^item> The tests and the embedding of the migration files.
\<close>

section \<open>From the start to the backend\<close>

lemma forwarded_request:
  "Body r = Some (Reader b False) \<Longrightarrow> Body (forwarded r) = Some (Reader b False)" "Host (forwarded r) = Host r"
  by (simp_all add: forwarded_def) (simp add: intercept_body_def last_forwarded_for_def ReadAll_def Let_def)

text \<open>C12: A started service forwards a request to the backend it is meant for. The service was started by \<^verbatim>\<open>main\<close> from the
  environment, whatever the state of its database and of the health checks that raced with its start. A request for a
  path that is not one of its three endpoints, whose body decodes, on a host with a default backend, that is not in the cache
  is sent once, to the URL of the backend that the description of the routing names for its method, its height and its host, with
  the body the client sent. The client receives the status and the body of that backend.\<close>

theorem started_service_forwards:
  assumes up: "main parseURL env postgres checks dial redis unwrap listen now d = Served service start err"
      "config = ReadConfig parseURL env" "CacheEnabled config" "negroni_ok (x_negroni x)"
    and path: "path \<notin> {''/healthcheck'', ''/servicecheck'', ''/status/database''}"
    and asked: "Body r = Some (Reader b False)" "DecodeEVMRPCRequest (x_fnum x) b = Ok e"
      "\<not> is_panic (ParseBlockNumberFromParams (x_newInt x) (Method e) (Params e))"
    and host: "map_of (ProxyBackendHostURLMapParsed config) (Host r) = Some u"
    and missed: "GetCachedQueryResponse (x_newInt x) (svc_Cache service) (w_cache W) (cache_now x (tick 1 W)) (Some e) = (s', Err reason)"
    and backend: "backend = intended_backend config (Host r) e (encoded_height (x_newInt x) e)"
      "\<forall>url q. backend_url config (Host r) backend = Some url \<longrightarrow> x_backend x (length (w_calls W)) url q = Reply status header parts False"
      "200 \<le> status"
    and answered: "mux urlParse schedule x config service db path W (Server new_response) r = (W', w', p)"
  shows "\<exists>url q v hdrs. backend_url config (Host r) backend = Some url \<and>
    w_calls W' = w_calls W @ [(url, q)] \<and> Host q = Host r \<and> Body q = Some (Reader b False) \<and>
    w' = Server v \<and> sent_head v = Some (status, hdrs) \<and> sent_body v = concat parts"
proof -
  let ?c = "svc_Cache service"
  have wired: "cache_wired config ?c" using main_served(4) [OF up(1)] createServiceCache_wired up(2) by simp
  have "decodeRequestMiddleware urlParse schedule x config ?c W (Server new_response) r = (W', w', p)"
    using answered path by (simp add: mux_def)
  then obtain q where q: "cacheMiddleware x config ?c (tick 1 W) (Server new_response) q = (W', w', p)" "Host q = Host r"
    "decoded_request q DecodedRequestContextKey = Some (Some e)" "Body q = Some (Reader b False)"
    using decode_single [OF asked(1,2)] by (metis decodeRequestMiddleware_def)
  obtain url where url: "backend_url config (Host r) backend = Some url"
    "ProxyForRequest (x_newInt x) (NewProxies config) q = Ok (Some (ReverseProxy url), backend_metadata url backend, True)"
    using routing_intended [OF _ q(3) asked(3), of config u] routing_config_ReadConfig up(2) host q(2) backend(1) by auto
  have look: "GetCachedQueryResponse (x_newInt x) ?c (w_cache (tick 1 W)) (cache_now x (tick 1 W)) (Some e) = (s', Err reason)"
    using missed by simp
  have reply: "x_backend x (length (w_calls (tick 1 W))) url (forwarded q) = Reply status header parts False" "status \<noteq> 0"
    using backend(2,3) url(1) by simp_all
  note m = miss_chain [OF up(4) wired up(3) q(3) look url(2) reply q(1)]
  obtain v where "w' = Server v" "sent_head v = Some (status, miss_header header [])"
    using m(1) relayed_status [of new_response status header parts] backend(3) by (auto simp: new_response_def)
  moreover have "w_body w' = concat parts" using m(1) by (simp add: relayed_body new_response_def)
  ultimately show ?thesis
    using url(1) m(2) forwarded_request(1) [OF q(4)] q(2)
    by (intro exI [of _ url] exI [of _ "forwarded q"] exI [of _ v]) (simp add: forwarded_request(2))
qed

section \<open>Where cached answers come from\<close>

text \<open>C3: Every answer from the cache was given by a backend. The service is started on a configuration that passes
  validation, with an empty cache, and has answered any requests since, single or batched; the
  storage may fail or forget at any time. When a request is answered from the cache, the client
  receives, under its own identifier, a result that a backend gave in full to a request the service
  forwarded in one of the earlier exchanges. That request had the same method and, unless
  SHA-256 collides, the same parameters; its result was settled; and the lifetime of the
  method, counted from a moment of that exchange, is not over. No backend is called.\<close>

theorem cached_answers_come_from_backends:
  assumes config: "config = ReadConfig parseURL env" "Validate parseURL config = []" "CacheEnabled config"
    and service: "New postgres checks dial redis config = Ok (service, srv)" "\<forall>cfg. redis_honest (redis cfg) held"
    and numbers: "float_roundtrip (x_fnum x)"
    and start: "\<forall>k v d. \<not> held (w_cache W) k v d"
    and past: "Ws = history urlParse x config service W rs"
      "\<forall>(d, path, schedule, r)\<in>set rs. Value (Ctx r) DecodedRequestContextKey = None"
    and asked: "Body r = Some (Reader b False)" "DecodeEVMRPCRequest (x_fnum x) b = Ok e"
    and route: "ProxyForRequest (x_newInt x) (NewProxies config) (decoded_as r e) = Ok (proxy, md, True)"
    and hit: "GetCachedQueryResponse (x_newInt x) (svc_Cache service) (w_cache (last Ws)) (cache_now x (tick 1 (last Ws))) (Some e) =
      (s', Ok qr)"
    and answered: "decodeRequestMiddleware urlParse schedule x config (svc_Cache service) (last Ws) (Server new_response) r = (W', w', p)"
  shows "w_calls W' = w_calls (last Ws) \<and>
    (\<exists>v j n m e' resp ttl result. w' = Server v \<and> sent_head v = Some (StatusOK, live_header v) \<and>
      sent_body v = served_body e result \<and> json_parse (Result resp) = Some result \<and>
      Suc j < length Ws \<and> length (w_calls (Ws ! j)) \<le> n \<and> n < length (w_calls (Ws ! Suc j)) \<and>
      settled_call x n (w_calls (Ws ! Suc j) ! n) e' resp \<and> Method e' = Method e \<and>
      (Params e' = Params e \<or> request_data e' \<noteq> request_data e \<and> Sum256 (request_data e') = Sum256 (request_data e)) \<and>
      w_clock (Ws ! j) \<le> m \<and> m < w_clock (Ws ! Suc j) \<and> GetTTL (svc_Cache service) (Method e) = Ok ttl \<and>
      x_clock x (w_clock (last Ws) + 1) \<le> x_clock x m + ttl)"
proof -
  let ?c = "svc_Cache service"
  note c = New_cache [OF service(1)]
  have hist: "service_history ?c held" unfolding c by (rule redis_history [OF service(2)])
  have ready: "history_ok x config ?c"
    unfolding c using service_history_ok [OF config(2) [unfolded config(1)] numbers] config(1) by simp
  note canon = decoded_canon [OF numbers asked(2)]
  obtain j n m e' resp ttl result where found: "Suc j < length Ws" "length (w_calls (Ws ! j)) \<le> n" "n < length (w_calls (Ws ! Suc j))"
    "w_clock (Ws ! j) \<le> m" "m < w_clock (Ws ! Suc j)" "settled_call x n (w_calls (Ws ! Suc j) ! n) e' resp"
    "Method e' = Method e" "Sum256 (request_data e') = Sum256 (request_data e)" "json_parse (Result resp) = Some result"
    "JsonRpcResponseResult qr = served_body e result" "GetTTL ?c (Method e) = Ok ttl"
    "x_clock x (w_clock (last Ws) + 1) \<le> x_clock x m + ttl"
    using service_history.answer_traced [OF hist refl past(2) _ past(1) canon hit ready] start by (auto simp: cache_now_def)
  have "Params e' = Params e" if "request_data e' = request_data e"
  proof (rule params_of_text [OF _ canon])
    show "envelope_canon (x_fnum x) e'" using found(6) decoded_canon [OF numbers] by (auto simp: settled_call_def)
  qed (use that found(7) in \<open>simp add: request_data_def\<close>)
  moreover have wired: "cache_wired config ?c" using ready by (simp add: history_ok_def)
  obtain q where q: "cacheMiddleware x config ?c (tick 1 (last Ws)) (Server new_response) q = (W', w', p)"
    "Host q = Host r" "decoded_request q DecodedRequestContextKey = Some (Some e)"
    using answered decode_single [OF asked] by (metis decodeRequestMiddleware_def)
  have look: "GetCachedQueryResponse (x_newInt x) ?c (w_cache (tick 1 (last Ws))) (cache_now x (tick 1 (last Ws))) (Some e) = (s', Ok qr)"
    using hit by simp
  note h = hit_chain [OF wired config(3) q(3) look route [folded route_decoded [OF q(3,2)]] q(1)]
  obtain v where "w' = Server v" "sent_head v = Some (StatusOK, live_header v)" "sent_body v = served_body e result"
    using h(1) serve_cached_status [of new_response config q qr] found(10) by (auto simp: new_response_def)
  ultimately show ?thesis using found h(2) by (simp, metis)
qed

text \<open>The service of the example: two requests for the chain id, under two identifiers.\<close>

definition traced_service :: "(unit, redis_state) ProxyService" where
  "traced_service = \<lparr>svc_Database = noop, svc_Cache = repeat_cache\<rparr>"

lemma traced_service_New: "New (\<lambda>_. noop) [] (\<lambda>_. None) (\<lambda>_. sample_redis) repeat_config = Ok (traced_service, server repeat_config)"
  by (cases "dc_RunDatabaseMigrations (databaseConfig repeat_config)")
     (simp_all add: New_def createDatabaseClient_def err_at_return_def NewClient_def traced_service_def Let_def)

lemma traced_history:
  "history Some sample_externals repeat_config traced_service (repeat_world Map.empty) [((), ''/'', [], repeat_request ''a'')] =
     [repeat_world Map.empty, first_served]"
  by (simp add: mux_def traced_service_def)

text \<open>The same service, started by \<^verbatim>\<open>main\<close>, and its first request.\<close>

lemma repeat_started:
  "\<exists>start err. main Some (sample_env(CACHE_ENABLED_ENVIRONMENT_KEY \<mapsto> ''true'')) (\<lambda>_. noop) [] (\<lambda>_. None) (\<lambda>_. sample_redis) (\<lambda>_. None)
     (\<lambda>_. None) 0 () = Served traced_service start err"
proof -
  obtain level where "main_init Some (sample_env(CACHE_ENABLED_ENVIRONMENT_KEY \<mapsto> ''true'')) = Some (repeat_config, level)"
    using main_init_valid [of Some "sample_env(CACHE_ENABLED_ENVIRONMENT_KEY \<mapsto> ''true'')", folded repeat_config_def] repeat_config_valid by blast
  then show ?thesis by (simp add: main_def traced_service_New)
qed

theorem started_service_forwards_witness:
  "\<exists>q v. w_calls first_served = [(''http://p'', q)] \<and> Body q = Body (repeat_request ''a'') \<and>
     fst (snd (repeat_serve (repeat_world Map.empty) ''a'')) = Server v \<and> sent_body v = sample_body"
proof -
  let ?e = "sample_envelope ''a''"
  obtain start err where up: "main Some (sample_env(CACHE_ENABLED_ENVIRONMENT_KEY \<mapsto> ''true'')) (\<lambda>_. noop) [] (\<lambda>_. None)
      (\<lambda>_. sample_redis) (\<lambda>_. None) (\<lambda>_. None) 0 () = Served traced_service start err"
    using repeat_started by blast
  have parse: "\<not> is_panic (ParseBlockNumberFromParams (x_newInt sample_externals) (Method ?e) (Params ?e))"
    by (simp add: ParseBlockNumberFromParams_def sample_envelope_def MethodNameToBlockNumberParamIndex_def)
  have host: "map_of (ProxyBackendHostURLMapParsed repeat_config) (Host (repeat_request ''a'')) = Some ''http://d''"
    by (simp add: repeat_config_sample sample_config_maps repeat_request_def chain_request_def)
  have tip: "tip_request ?e (encoded_height (x_newInt sample_externals) ?e)"
    by (simp add: tip_request_def sample_envelope_def MethodRequiresNoHistory_def NoHistoryMethods_def)
  have backend: "intended_backend repeat_config (Host (repeat_request ''a'')) ?e (encoded_height (x_newInt sample_externals) ?e) = Pruning"
    using tip by (simp add: intended_backend_def repeat_config_sample sample_config_maps repeat_request_def chain_request_def)
  have url: "backend_url repeat_config (Host (repeat_request ''a'')) Pruning = Some ''http://p''"
    by (simp add: backend_url_def repeat_config_sample sample_config_maps repeat_request_def chain_request_def)
  have missed: "GetCachedQueryResponse (x_newInt sample_externals) (svc_Cache traced_service) (w_cache (repeat_world Map.empty))
      (cache_now sample_externals (tick 1 (repeat_world Map.empty))) (Some ?e) = (Map.empty, Err (ErrCache ErrNotFound))"
    using repeat_miss by (simp add: traced_service_def)
  have reply: "\<forall>url q. backend_url repeat_config (Host (repeat_request ''a'')) Pruning = Some url \<longrightarrow>
      x_backend sample_externals (length (w_calls (repeat_world Map.empty))) url q = Reply 200 [] [sample_body] False"
    by (simp add: sample_externals_def)
  have answered: "mux Some [] sample_externals repeat_config traced_service () ''/'' (repeat_world Map.empty) (Server new_response) (repeat_request ''a'') =
      (first_served, fst (snd (repeat_serve (repeat_world Map.empty) ''a'')), snd (snd (repeat_serve (repeat_world Map.empty) ''a'')))"
    by (simp add: mux_def traced_service_def)
  have path: "''/'' \<notin> {''/healthcheck'', ''/servicecheck'', ''/status/database''}" by simp
  from started_service_forwards [OF up repeat_config_def repeat_config_fields(1) repeat_externals(3) path repeat_body(1)
      repeat_body(2) [OF repeat_idents(1)] parse host missed backend [symmetric] reply _ answered]
  show ?thesis using url by (auto simp: repeat_body(1) repeat_world_def)
qed

theorem cached_answers_come_from_backends_witness:
  "\<exists>v result e' resp. fst (snd (repeat_serve first_served ''b'')) = Server v \<and> sent_body v = served_body (sample_envelope ''b'') result \<and>
     settled_call sample_externals 0 (w_calls first_served ! 0) e' resp \<and> Method e' = ''eth_chainId'' \<and> json_parse (Result resp) = Some result"
proof -
  obtain s qr where hit: "GetCachedQueryResponse (x_newInt sample_externals) (svc_Cache traced_service) (w_cache first_served)
      (cache_now sample_externals (tick 1 first_served)) (Some (sample_envelope ''b'')) = (s, Ok qr)"
    using first_served_state(3) [OF repeat_idents(2), of "cache_now sample_externals (tick 1 first_served)"] first_served_state(2)
    by (auto simp: traced_service_def cache_now_def sample_externals_def)
  have answered: "decodeRequestMiddleware Some [] sample_externals repeat_config (svc_Cache traced_service) first_served
      (Server new_response) (repeat_request ''b'') =
      (fst (repeat_serve first_served ''b''), fst (snd (repeat_serve first_served ''b'')), snd (snd (repeat_serve first_served ''b'')))"
    by (simp add: traced_service_def)
  have fresh: "\<forall>(d, path, schedule, r)\<in>set [((), ''/'', [], repeat_request ''a'')]. Value (Ctx r) DecodedRequestContextKey = None"
    by (simp add: repeat_request_def Value_def)
  have empty: "\<forall>k v d. \<not> sample_held (w_cache (repeat_world Map.empty)) k v d" by (simp add: sample_held_def repeat_world_def)
  have honest: "\<forall>cfg. redis_honest ((\<lambda>_. sample_redis) cfg) sample_held" by (simp add: sample_redis_honest)
  have last: "last [repeat_world Map.empty, first_served] = first_served" by simp
  note traced = cached_answers_come_from_backends [OF repeat_config_def repeat_config_valid repeat_config_fields(1) traced_service_New honest
      repeat_externals(5) empty traced_history [symmetric] fresh repeat_body(1) repeat_body(2) [OF repeat_idents(2)]
      repeat_routes [folded repeat_externals(1)], unfolded last, OF hit answered]
  then obtain v j n e' resp result where "fst (snd (repeat_serve first_served ''b'')) = Server v" "sent_body v = served_body (sample_envelope ''b'') result"
    "json_parse (Result resp) = Some result" "Suc j < 2" "n < length (w_calls ([repeat_world Map.empty, first_served] ! Suc j))"
    "settled_call sample_externals n (w_calls ([repeat_world Map.empty, first_served] ! Suc j) ! n) e' resp" "Method e' = Method (sample_envelope ''b'')"
    by auto
  then show ?thesis using first_served_state(1) by (auto simp: less_Suc_eq repeat_same)
qed

end
